(* ===== verification/Caesium_Prelude.thy ===== *)
theory Caesium_Prelude
  imports Main "HOL-Library.AList" "HOL-Library.Multiset"
begin

text \<open>
  Shared vocabulary of the development: the types that several components use, the
  collections of rewrite rules, and generic lemmas on association lists, stable sorting
  and counting in lists.

  A UUID is opaque to the program except for equality and the zero value
  \<open>uuid.Nil\<close>; it is modelled as the number its sixteen bytes spell. A Go map that the
  program ranges over is an association list whose order stands for the (unspecified)
  iteration order of the map; a Go map that is only indexed is a HOL function or a HOL map.
  Go's \<open>int\<close> and \<open>int64\<close> counters are \<open>int\<close>: the model does not wrap them, because
  no counter of the modelled code can reach \<open>2 ^ 63\<close> by increments.
\<close>

section \<open>Types\<close>

type_synonym uuid = nat

definition uuid_Nil :: uuid where
  "uuid_Nil = 0"

section \<open>Collections of rewrite rules\<close>

named_theorems alist_simps \<open>lookups in updated association lists\<close>
named_theorems status_simps \<open>the status vocabulary on concrete statuses\<close>

section \<open>Association lists\<close>

lemma map_of_AList_update [simp, alist_simps]:
  "map_of (AList.update k v al) k' = (if k' = k then Some v else map_of al k')"
  by (simp add: update_conv)

lemma AList_update_keys_in:
  "k \<in> fst ` set al \<Longrightarrow> map fst (AList.update k v al) = map fst al"
  by (induction al) auto

lemma map_of_in_keys: "map_of al k = Some v \<Longrightarrow> k \<in> fst ` set al"
  by (metis map_of_SomeD fst_conv imageI)

lemma keys_map_of: "k \<in> fst ` set al \<longleftrightarrow> map_of al k \<noteq> None"
  by (simp add: map_of_eq_None_iff)

text \<open>
  Counting the entries of an association list by a predicate on the value: an update of
  the first entry of a key moves the count by the difference of the two values.
\<close>

fun count_vals :: "('v \<Rightarrow> bool) \<Rightarrow> ('k \<times> 'v) list \<Rightarrow> nat" where
  "count_vals P [] = 0"
| "count_vals P ((k, v) # al) = (if P v then 1 else 0) + count_vals P al"

lemma count_vals_update:
  assumes "map_of al k = Some v"
  shows "count_vals P (AList.update k w al) + (if P v then 1 else 0)
       = count_vals P al + (if P w then 1 else 0)"
  using assms by (induction al rule: list.induct) (auto split: if_splits)

lemma count_vals_le: "count_vals P al \<le> length al"
  by (induction P al rule: count_vals.induct) auto

lemma count_vals_compl: "count_vals P al + count_vals (\<lambda>v. \<not> P v) al = length al"
  by (induction P al rule: count_vals.induct) auto

lemma count_vals_pos:
  "map_of al k = Some v \<Longrightarrow> P v \<Longrightarrow> 0 < count_vals P al"
  by (induction P al rule: count_vals.induct) (auto split: if_splits)

lemma count_vals_zero:
  "count_vals P al = 0 \<longleftrightarrow> (\<forall>(k, v) \<in> set al. \<not> P v)"
  by (induction P al rule: count_vals.induct) auto

lemma count_vals_all:
  "count_vals P al = length al \<longleftrightarrow> (\<forall>(k, v) \<in> set al. P v)"
proof -
  have "count_vals P al = length al \<longleftrightarrow> count_vals (\<lambda>v. \<not> P v) al = 0"
    using count_vals_compl [of P al] by linarith
  then show ?thesis by (simp add: count_vals_zero)
qed

lemma count_vals_card:
  "distinct (map fst al) \<Longrightarrow> count_vals P al = card {k. \<exists>v. map_of al k = Some v \<and> P v}"
proof (induction P al rule: count_vals.induct)
  case (1 P)
  then show ?case by simp
next
  case (2 P k v al)
  let ?S = "{k. \<exists>v. map_of al k = Some v \<and> P v}"
  have k: "map_of al k = None" using 2(2) by (simp add: map_of_eq_None_iff)
  have "finite ?S" by (rule finite_subset [OF _ finite_dom_map_of [of al]]) auto
  moreover have "{k'. \<exists>v'. map_of ((k, v) # al) k' = Some v' \<and> P v'} = (if P v then insert k ?S else ?S)"
    using k by auto
  moreover have "k \<notin> ?S" using k by simp
  moreover have "count_vals P al = card ?S" using 2 by simp
  ultimately show ?case by (simp only: count_vals.simps card_insert_disjoint split: if_split) simp
qed

section \<open>Stable sorting\<close>

text \<open>
  \<open>sort.SliceStable\<close> with a less-than on an integer key is the library's
  \<open>sort_key\<close>: the result is sorted by the key and keeps the order of equal keys.
\<close>

lemma sorted_sort_snoc [simp]: "sorted (map f (sort_key f (xs @ [x])))"
  by (rule sorted_sort_key)

lemma sort_key_snoc_last:
  "sorted (map f xs) \<Longrightarrow> (\<forall>y \<in> set xs. f y \<le> f x) \<Longrightarrow> sort_key f (xs @ [x]) = xs @ [x]"
  by (rule sort_key_id_if_sorted) (auto simp: sorted_append)

section \<open>Counting in lists\<close>

lemma count_list_filter_zero:
  "\<not> P x \<Longrightarrow> count_list (filter P xs) x = 0"
  by (induction xs) auto

lemma count_list_pos_iff: "0 < count_list xs x \<longleftrightarrow> x \<in> set xs"
  by (metis count_list_0_iff neq0_conv)

lemma length_filter_remove_class:
  "length (filter P xs) = length (filter (\<lambda>y. P y \<and> y \<noteq> x) xs)
     + (if P x then count_list xs x else 0)"
  by (induction xs) auto

section \<open>Transition systems\<close>

text \<open>
  Several components are state machines: an initial state, a step relation and an invariant
  that every step keeps. The interface below gives reachability its induction once; each
  machine interprets it on its own steps.
\<close>

inductive reachable_from :: "('s \<Rightarrow> 's \<Rightarrow> bool) \<Rightarrow> 's \<Rightarrow> 's \<Rightarrow> bool" for step s0 where
  reachable_init: "reachable_from step s0 s0"
| reachable_step: "reachable_from step s0 s \<Longrightarrow> step s s' \<Longrightarrow> reachable_from step s0 s'"

locale step_machine =
  fixes start :: "'s \<Rightarrow> bool" and step :: "'s \<Rightarrow> 's \<Rightarrow> bool" and inv :: "'s \<Rightarrow> bool"
  assumes start_inv: "start s \<Longrightarrow> inv s"
    and step_inv: "inv s \<Longrightarrow> step s s' \<Longrightarrow> inv s'"
begin

lemma inv_reachable_from: "reachable_from step s0 s \<Longrightarrow> inv s0 \<Longrightarrow> inv s"
  by (induction rule: reachable_from.induct) (auto intro: step_inv)

lemma inv_reachable: "start s0 \<Longrightarrow> reachable_from step s0 s \<Longrightarrow> inv s"
  by (blast intro: inv_reachable_from start_inv)

lemma preserved_by_reachable:
  assumes "\<And>s s'. inv s \<Longrightarrow> step s s' \<Longrightarrow> R s s'"
    and "\<And>a b c. R a b \<Longrightarrow> R b c \<Longrightarrow> R a c" and "\<And>a. R a a"
    and "inv s0" "reachable_from step s0 s"
  shows "R s0 s"
  using assms(5,4)
proof (induction rule: reachable_from.induct)
  case reachable_init
  then show ?case by (simp add: assms(3))
next
  case (reachable_step s s')
  then show ?case using assms(1,2) inv_reachable_from by blast
qed

end

end
