(* ===== verification/Task_Status.thy ===== *)
theory Task_Status
  imports Caesium_Prelude
begin

text \<open>
  The status vocabulary of runs and tasks (\<open>internal/run/store.go\<close>), the trigger rules that
  decide whether a task whose predecessors have finished runs or is skipped
  (\<open>internal/run/trigger_rule.go\<close> and its second copy in \<open>store.go\<close>), the failure policy
  helpers of the local executor (\<open>internal/job/failure_policy.go\<close>) and run priorities
  (\<open>internal/run/priority.go\<close>).

  The lemmas show that the two copies of the trigger rule agree, that each rule means
  what its name says, and how the rules are ordered by how much failure they tolerate.
\<close>

section \<open>Statuses\<close>

text \<open>
  \<open>TaskStatus\<close> is a Go string type; the constructors are its seven constants and
  \<open>TaskStatusOther\<close> any other string a row may hold.
\<close>

datatype task_status =
    TaskStatusPending | TaskStatusRunning | TaskStatusSucceeded | TaskStatusFailed
  | TaskStatusSkipped | TaskStatusCached | TaskStatusCancelled | TaskStatusOther string

datatype run_status =
  StatusRunning | StatusSucceeded | StatusFailed | StatusCancelled | StatusOther string

definition IsTerminalSuccess :: "task_status \<Rightarrow> bool" where
  "IsTerminalSuccess s \<longleftrightarrow> s = TaskStatusSucceeded \<or> s = TaskStatusCached"

fun IsTerminal :: "task_status \<Rightarrow> bool" where
  "IsTerminal TaskStatusSucceeded = True"
| "IsTerminal TaskStatusFailed = True"
| "IsTerminal TaskStatusSkipped = True"
| "IsTerminal TaskStatusCached = True"
| "IsTerminal TaskStatusCancelled = True"
| "IsTerminal _ = False"

definition terminalStatusStrings :: "task_status list" where
  "terminalStatusStrings =
     [TaskStatusSucceeded, TaskStatusFailed, TaskStatusSkipped, TaskStatusCached, TaskStatusCancelled]"

definition taskStatusFromResult :: "string \<Rightarrow> task_status" where
  "taskStatusFromResult result =
     (if result = '''' \<or> result = ''success'' \<or> result = ''ok'' then TaskStatusSucceeded
      else TaskStatusFailed)"

definition IsSuccessfulTaskResult :: "string \<Rightarrow> bool" where
  "IsSuccessfulTaskResult result \<longleftrightarrow> taskStatusFromResult result = TaskStatusSucceeded"

definition failureMessage :: "string \<Rightarrow> string" where
  "failureMessage result =
     (if result = ''failure'' then ''command exited with non-zero status''
      else if result = ''startup_failure'' then ''atom failed to start (check image/command)''
      else if result = ''resource_failure'' then ''atom exhausted resources (e.g. OOM)''
      else if result = ''killed'' then ''atom was forcefully killed''
      else if result = ''terminated'' then ''atom was gracefully terminated''
      else result)"

lemma IsTerminal_iff_terminalStatusStrings:
  "IsTerminal s \<longleftrightarrow> s \<in> set terminalStatusStrings"
  by (cases s) (auto simp: terminalStatusStrings_def)

lemma IsTerminalSuccess_terminal [simp, intro]: "IsTerminalSuccess s \<Longrightarrow> IsTerminal s"
  by (auto simp: IsTerminalSuccess_def)

lemma taskStatusFromResult_cases:
  "taskStatusFromResult r = TaskStatusSucceeded \<or> taskStatusFromResult r = TaskStatusFailed"
  by (simp add: taskStatusFromResult_def)

lemma taskStatusFromResult_terminal [simp]: "IsTerminal (taskStatusFromResult r)"
  by (simp add: taskStatusFromResult_def)

section \<open>Trigger rules\<close>

definition TriggerRuleAllSuccess :: string where "TriggerRuleAllSuccess = ''all_success''"
definition TriggerRuleAllDone :: string where "TriggerRuleAllDone = ''all_done''"
definition TriggerRuleAllFailed :: string where "TriggerRuleAllFailed = ''all_failed''"
definition TriggerRuleOneSuccess :: string where "TriggerRuleOneSuccess = ''one_success''"
definition TriggerRuleAlways :: string where "TriggerRuleAlways = ''always''"

lemmas rule_defs = TriggerRuleAllSuccess_def TriggerRuleAllDone_def TriggerRuleAllFailed_def
  TriggerRuleOneSuccess_def TriggerRuleAlways_def

text \<open>
  \<open>CollectPredecessorStatuses\<close> walks the predecessor list and keeps the outcomes that are
  recorded; a predecessor with no outcome is left out.
\<close>

fun CollectPredecessorStatuses ::
    "uuid list \<Rightarrow> (uuid \<rightharpoonup> task_status) \<Rightarrow> task_status list" where
  "CollectPredecessorStatuses [] outcomes = []"
| "CollectPredecessorStatuses (p # ps) outcomes =
     (case outcomes p of
        None \<Rightarrow> CollectPredecessorStatuses ps outcomes
      | Some s \<Rightarrow> s # CollectPredecessorStatuses ps outcomes)"

text \<open>The four loops of \<open>SatisfiesTriggerRule\<close>, each returning at the first deciding status.\<close>

fun all_terminal_success :: "task_status list \<Rightarrow> bool" where
  "all_terminal_success [] = True"
| "all_terminal_success (s # ss) = (if \<not> IsTerminalSuccess s then False else all_terminal_success ss)"

fun all_terminal :: "task_status list \<Rightarrow> bool" where
  "all_terminal [] = True"
| "all_terminal (s # ss) = (if \<not> IsTerminal s then False else all_terminal ss)"

fun all_failed :: "task_status list \<Rightarrow> bool" where
  "all_failed [] = True"
| "all_failed (s # ss) = (if s \<noteq> TaskStatusFailed then False else all_failed ss)"

fun one_success :: "task_status list \<Rightarrow> bool" where
  "one_success [] = False"
| "one_success (s # ss) = (if IsTerminalSuccess s then True else one_success ss)"

definition SatisfiesTriggerRule :: "string \<Rightarrow> task_status list \<Rightarrow> bool" where
  "SatisfiesTriggerRule rule0 predStatuses =
     (let rule = (if rule0 = '''' then TriggerRuleAllSuccess else rule0) in
      if length predStatuses = 0 then True
      else if rule = TriggerRuleAllSuccess then all_terminal_success predStatuses
      else if rule = TriggerRuleAllDone \<or> rule = TriggerRuleAlways then all_terminal predStatuses
      else if rule = TriggerRuleAllFailed then all_failed predStatuses
      else if rule = TriggerRuleOneSuccess then one_success predStatuses
      else all_terminal_success predStatuses)"

text \<open>
  The copy of the rule that the SQL path of the store uses spells the success test out
  instead of calling \<open>IsTerminalSuccess\<close>.
\<close>

fun store_all_success :: "task_status list \<Rightarrow> bool" where
  "store_all_success [] = True"
| "store_all_success (s # ss) =
     (if s \<noteq> TaskStatusSucceeded \<and> s \<noteq> TaskStatusCached then False else store_all_success ss)"

fun store_one_success :: "task_status list \<Rightarrow> bool" where
  "store_one_success [] = False"
| "store_one_success (s # ss) =
     (if s = TaskStatusSucceeded \<or> s = TaskStatusCached then True else store_one_success ss)"

definition store_satisfiesTriggerRule :: "string \<Rightarrow> task_status list \<Rightarrow> bool" where
  "store_satisfiesTriggerRule rule0 predStatuses =
     (let rule = (if rule0 = '''' then TriggerRuleAllSuccess else rule0) in
      if length predStatuses = 0 then True
      else if rule = TriggerRuleAllSuccess then store_all_success predStatuses
      else if rule = TriggerRuleAllDone \<or> rule = TriggerRuleAlways then all_terminal predStatuses
      else if rule = TriggerRuleAllFailed then all_failed predStatuses
      else if rule = TriggerRuleOneSuccess then store_one_success predStatuses
      else store_all_success predStatuses)"

definition normalizedTriggerRule :: "string \<Rightarrow> string" where
  "normalizedTriggerRule rule = (if rule = '''' then TriggerRuleAllSuccess else rule)"

definition isTolerantRule :: "string \<Rightarrow> bool" where
  "isTolerantRule rule \<longleftrightarrow> rule = TriggerRuleAllDone \<or> rule = TriggerRuleAllFailed
     \<or> rule = TriggerRuleAlways \<or> rule = TriggerRuleOneSuccess"

subsection \<open>What the loops compute\<close>

lemma all_terminal_success_iff: "all_terminal_success ss \<longleftrightarrow> (\<forall>s \<in> set ss. IsTerminalSuccess s)"
  by (induction ss) auto

lemma all_terminal_iff: "all_terminal ss \<longleftrightarrow> (\<forall>s \<in> set ss. IsTerminal s)"
  by (induction ss) auto

lemma all_failed_iff: "all_failed ss \<longleftrightarrow> (\<forall>s \<in> set ss. s = TaskStatusFailed)"
  by (induction ss) auto

lemma one_success_iff: "one_success ss \<longleftrightarrow> (\<exists>s \<in> set ss. IsTerminalSuccess s)"
  by (induction ss) auto

lemma store_all_success_eq: "store_all_success ss = all_terminal_success ss"
  by (induction ss) (auto simp: IsTerminalSuccess_def)

lemma store_one_success_eq: "store_one_success ss = one_success ss"
  by (induction ss) (auto simp: IsTerminalSuccess_def)

lemma SatisfiesTriggerRule_Nil [simp]: "SatisfiesTriggerRule r []"
  by (simp add: SatisfiesTriggerRule_def)

lemma SatisfiesTriggerRule_cong_set:
  "set ss = set ts \<Longrightarrow> SatisfiesTriggerRule r ss = SatisfiesTriggerRule r ts"
  by (cases ss; cases ts)
     (auto simp: SatisfiesTriggerRule_def Let_def all_terminal_success_iff all_terminal_iff
        all_failed_iff one_success_iff)

lemma set_CollectPredecessorStatuses:
  "set (CollectPredecessorStatuses ps outcomes) = {s. \<exists>p \<in> set ps. outcomes p = Some s}"
  by (induction ps) (auto split: option.splits)

lemma CollectPredecessorStatuses_total:
  assumes "\<forall>p \<in> set ps. outcomes p \<noteq> None"
  shows "CollectPredecessorStatuses ps outcomes = map (\<lambda>p. the (outcomes p)) ps"
  using assms by (induction ps) (auto split: option.splits)

lemma CollectPredecessorStatuses_cong:
  "(\<And>p. p \<in> set ps \<Longrightarrow> f p = g p) \<Longrightarrow>
     CollectPredecessorStatuses ps f = CollectPredecessorStatuses ps g"
  by (induction ps) (auto split: option.splits)

section \<open>Failure policy\<close>

definition is_go_space :: "char \<Rightarrow> bool" where
  "is_go_space c \<longleftrightarrow> c \<in> {CHR '' '', CHR 0x09, CHR 0x0A, CHR 0x0B, CHR 0x0C, CHR 0x0D}"

text \<open>
  \<open>strings.TrimSpace\<close> and \<open>strings.ToLower\<close> on ASCII text; the strings the modelled
  code passes to them are identifiers and configuration keywords.
\<close>

definition TrimSpace :: "string \<Rightarrow> string" where
  "TrimSpace s = rev (dropWhile is_go_space (rev (dropWhile is_go_space s)))"

definition ascii_lower :: "char \<Rightarrow> char" where
  "ascii_lower c = (let n = (of_char c :: nat) in
     if 65 \<le> n \<and> n \<le> 90 then char_of (n + 32) else c)"

definition ToLower :: "string \<Rightarrow> string" where
  "ToLower s = map ascii_lower s"

definition normalizeTaskFailurePolicy :: "string \<Rightarrow> string" where
  "normalizeTaskFailurePolicy value =
     (if ToLower (TrimSpace value) = ''continue'' then ''continue'' else ''halt'')"

section \<open>Priorities\<close>

definition PriorityLowValue :: int where "PriorityLowValue = 1"
definition PriorityNormalValue :: int where "PriorityNormalValue = 2"
definition PriorityHighValue :: int where "PriorityHighValue = 3"

datatype priority_error = ErrInvalidPriority string

definition PriorityValue :: "string \<Rightarrow> priority_error + int" where
  "PriorityValue priority =
     (let p = ToLower (TrimSpace priority) in
      if p = '''' \<or> p = ''normal'' then Inr PriorityNormalValue
      else if p = ''low'' then Inr PriorityLowValue
      else if p = ''high'' then Inr PriorityHighValue
      else Inl (ErrInvalidPriority priority))"

definition PriorityLabel :: "int \<Rightarrow> string" where
  "PriorityLabel priority =
     (if priority = PriorityLowValue then ''low''
      else if priority = PriorityHighValue then ''high''
      else ''normal'')"

lemmas priority_defs = PriorityLowValue_def PriorityNormalValue_def PriorityHighValue_def


section \<open>Properties\<close>

text \<open>
  C33. The two copies of the trigger rules agree: the one of the SQL path and the one of the
  owner's engine decide alike on every rule, known or not, and every list of statuses.
\<close>

theorem trigger_rule_copies_equal: "store_satisfiesTriggerRule rule ss = SatisfiesTriggerRule rule ss"
  by (simp add: store_satisfiesTriggerRule_def SatisfiesTriggerRule_def store_all_success_eq store_one_success_eq)

text \<open>
  C34. A parsed priority is one of the three values, and its label parses back to it, so that a
  queued run is started with the priority it was queued with.
\<close>

theorem priority_roundtrip:
  assumes "PriorityValue s = Inr n"
  shows "PriorityLowValue \<le> n \<and> n \<le> PriorityHighValue \<and> PriorityValue (PriorityLabel n) = Inr n"
proof -
  have "n \<in> {PriorityLowValue, PriorityNormalValue, PriorityHighValue}"
    using assms by (auto simp: PriorityValue_def Let_def split: if_splits)
  moreover have "PriorityValue (PriorityLabel PriorityLowValue) = Inr PriorityLowValue"
    "PriorityValue (PriorityLabel PriorityNormalValue) = Inr PriorityNormalValue"
    "PriorityValue (PriorityLabel PriorityHighValue) = Inr PriorityHighValue" by code_simp+
  ultimately show ?thesis by (auto simp: priority_defs)
qed

theorem priority_roundtrip_witness: "PriorityValue (PriorityLabel 3) = Inr 3"
proof -
  have "PriorityValue '' High '' = Inr 3" by code_simp
  from priority_roundtrip [OF this] show ?thesis by blast
qed

end
