(* ===== verification/Run_State.thy ===== *)
theory Run_State
  imports Task_Status
begin

text \<open>
  The run owner's in-memory state machine for one run (\<open>internal/run/owner_state.go\<close>): its
  state, every operation of it, and the lemmas that describe the primitive operations.
  The invariant of the machine and the theorems that rest on it are in
  \<open>Run_State_Invariant\<close> and \<open>Run_State_Progress\<close>.

  The maps \<open>tasks\<close>, \<open>outcomes\<close> and \<open>Order\<close>, which the code ranges over, are association
  lists; \<open>indegree\<close>, \<open>inReady\<close> and the maps of the topology are only indexed, and a missing
  key reads as the zero value of the element type, so they are total functions.
\<close>

section \<open>State\<close>

record owner_task_state =
  Status :: task_status
  Attempt :: int
  ClaimedBy :: string
  LeaseExpiresAtMs :: int

record run_topology =
  Adjacency :: "uuid \<Rightarrow> uuid list"
  Predecessors :: "uuid \<Rightarrow> uuid list"
  TriggerRule :: "uuid \<Rightarrow> string"
  Order :: "(uuid \<times> int) list"

record skipped_task =
  SkTaskID :: uuid
  SkTerminalSequence :: int
  SkReason :: string

record completion_result =
  ResTerminalSequence :: int
  ResReady :: "uuid list"
  ResSkipped :: "skipped_task list"
  ResComplete :: bool

record run_state =
  topo :: run_topology
  tasks :: "(uuid \<times> owner_task_state) list"
  indegree :: "uuid \<Rightarrow> int"
  outcomes :: "(uuid \<times> task_status) list"
  ready :: "uuid list"
  inReady :: "uuid \<Rightarrow> bool"
  seq :: int
  terminalCount :: int
  total :: int

definition order_of :: "run_topology \<Rightarrow> uuid \<Rightarrow> int" where
  "order_of tp i = (case map_of (Order tp) i of None \<Rightarrow> 0 | Some n \<Rightarrow> n)"

text \<open>The status of a known task, and whether a task is known and not yet terminal.\<close>

definition task_status_of :: "run_state \<Rightarrow> uuid \<Rightarrow> task_status option" where
  "task_status_of rs i = map_option Status (map_of (tasks rs) i)"

definition is_open :: "run_state \<Rightarrow> uuid \<Rightarrow> bool" where
  "is_open rs i \<longleftrightarrow> (case map_of (tasks rs) i of None \<Rightarrow> False | Some ts \<Rightarrow> \<not> IsTerminal (Status ts))"

section \<open>Operations\<close>

definition pushReady :: "run_state \<Rightarrow> uuid \<Rightarrow> run_state" where
  "pushReady rs i =
     (if inReady rs i then rs
      else case map_of (tasks rs) i of
        None \<Rightarrow> rs
      | Some ts \<Rightarrow>
          if IsTerminal (Status ts) then rs
          else rs\<lparr>ready := sort_key (order_of (topo rs)) (ready rs @ [i]),
                  inReady := (inReady rs)(i := True)\<rparr>)"

definition removeReady :: "run_state \<Rightarrow> uuid \<Rightarrow> run_state" where
  "removeReady rs i =
     (if \<not> inReady rs i then rs
      else rs\<lparr>inReady := (inReady rs)(i := False), ready := remove1 i (ready rs)\<rparr>)"

definition markTerminal :: "run_state \<Rightarrow> uuid \<Rightarrow> task_status \<Rightarrow> run_state \<times> int" where
  "markTerminal rs i status =
     (case map_of (tasks rs) i of
        None \<Rightarrow> (rs, 0)
      | Some ts \<Rightarrow>
          if IsTerminal (Status ts) then (rs, 0)
          else let rs1 = rs\<lparr>seq := seq rs + 1,
                            tasks := AList.update i
                              (ts\<lparr>Status := status, ClaimedBy := '''', LeaseExpiresAtMs := 0\<rparr>) (tasks rs),
                            outcomes := AList.update i status (outcomes rs)\<rparr>;
                   rs2 = removeReady rs1 i;
                   rs3 = rs2\<lparr>terminalCount := terminalCount rs2 + 1\<rparr>
               in (rs3, seq rs3))"

definition new_task :: "run_topology \<Rightarrow> run_state \<Rightarrow> uuid \<Rightarrow> run_state" where
  "new_task tp rs i = rs\<lparr>
     tasks := AList.update i \<lparr>Status = TaskStatusPending, Attempt = 1, ClaimedBy = '''',
                               LeaseExpiresAtMs = 0\<rparr> (tasks rs),
     indegree := (indegree rs)(i := int (length (Predecessors tp i))),
     total := total rs + 1\<rparr>"

definition seed_ready :: "run_state \<Rightarrow> uuid \<Rightarrow> run_state" where
  "seed_ready rs i = (if indegree rs i = 0 then pushReady rs i else rs)"

definition NewRunState :: "run_topology \<Rightarrow> int \<Rightarrow> run_state" where
  "NewRunState tp startSeq =
     (let rs0 = \<lparr>topo = tp, tasks = [], indegree = (\<lambda>_. 0), outcomes = [], ready = [],
                 inReady = (\<lambda>_. False), seq = startSeq, terminalCount = 0, total = 0\<rparr>;
          rs1 = foldl (new_task tp) rs0 (map fst (Order tp))
      in foldl seed_ready rs1 (map fst (tasks rs1)))"

text \<open>
  \<open>fmt.Sprintf\<close> with the verb \<open>%q\<close> on printable ASCII text: double quotes around the text,
  with double quotes and backslashes inside escaped.
\<close>

definition quoteQ :: "string \<Rightarrow> string" where
  "quoteQ s = [CHR 0x22] @ concat (map (\<lambda>c. if c = CHR 0x22 \<or> c = CHR 0x5C then [CHR 0x5C, c] else [c]) s) @ [CHR 0x22]"

text \<open>
  The inner loop of \<open>advanceSuccessors\<close> over the successors of one newly terminal task:
  it threads the state, the two result lists and the work queue.
\<close>

fun advance_succs ::
    "uuid list \<Rightarrow> run_state \<Rightarrow> uuid list \<Rightarrow> skipped_task list \<Rightarrow> uuid list
       \<Rightarrow> run_state \<times> uuid list \<times> skipped_task list \<times> uuid list" where
  "advance_succs [] rs rdy skipped queue = (rs, rdy, skipped, queue)"
| "advance_succs (succ # rest) rs rdy skipped queue =
     (case map_of (tasks rs) succ of
        None \<Rightarrow> advance_succs rest rs rdy skipped queue
      | Some st \<Rightarrow>
          if IsTerminal (Status st) then advance_succs rest rs rdy skipped queue
          else
            let rs1 = (if indegree rs succ > 0
                       then rs\<lparr>indegree := (indegree rs)(succ := indegree rs succ - 1)\<rparr> else rs)
            in if indegree rs1 succ \<noteq> 0 then advance_succs rest rs1 rdy skipped queue
               else
                 let predStatuses =
                       CollectPredecessorStatuses (Predecessors (topo rs1) succ) (map_of (outcomes rs1))
                 in if SatisfiesTriggerRule (TriggerRule (topo rs1) succ) predStatuses
                    then advance_succs rest (pushReady rs1 succ) (rdy @ [succ]) skipped queue
                    else
                      let (rs2, sq) = markTerminal rs1 succ TaskStatusSkipped;
                          sk = \<lparr>SkTaskID = succ, SkTerminalSequence = sq,
                                SkReason = ''trigger rule '' @ quoteQ (TriggerRule (topo rs1) succ)
                                           @ '' not satisfied''\<rparr>
                      in advance_succs rest rs2 rdy (skipped @ [sk]) (queue @ [succ]))"

text \<open>
  The measure under which the work-list loop stops: every enqueued task has just left the
  non-terminal tasks, so queue length plus non-terminal tasks is unchanged by the inner
  loop and drops by one with each dequeue.
\<close>

definition open_count :: "run_state \<Rightarrow> nat" where
  "open_count rs = count_vals (\<lambda>ts. \<not> IsTerminal (Status ts)) (tasks rs)"

lemma tasks_pushReady [simp]: "tasks (pushReady rs i) = tasks rs"
  by (simp add: pushReady_def split: option.splits)

lemma tasks_removeReady [simp]: "tasks (removeReady rs i) = tasks rs"
  by (simp add: removeReady_def)

lemma open_count_markTerminal:
  assumes "map_of (tasks rs) i = Some ts" "\<not> IsTerminal (Status ts)" "IsTerminal s"
  shows "Suc (open_count (fst (markTerminal rs i s))) = open_count rs"
  using assms count_vals_update [OF assms(1), of "\<lambda>ts. \<not> IsTerminal (Status ts)"
      "ts\<lparr>Status := s, ClaimedBy := '''', LeaseExpiresAtMs := 0\<rparr>"]
  by (simp add: open_count_def markTerminal_def Let_def)

lemma advance_succs_measure:
  "advance_succs ss rs rdy skipped queue = (rs', rdy', skipped', queue') \<Longrightarrow>
     length queue' + open_count rs' = length queue + open_count rs"
proof (induction ss rs rdy skipped queue arbitrary: rs' rdy' skipped' queue' rule: advance_succs.induct)
  case (1 rs rdy skipped queue)
  then show ?case by simp
next
  case (2 succ rest rs rdy skipped queue)
  show ?case
  proof (cases "map_of (tasks rs) succ")
    case None
    with 2 show ?thesis by simp
  next
    case (Some st)
    note st = Some
    show ?thesis
    proof (cases "IsTerminal (Status st)")
      case True
      with 2 st show ?thesis by simp
    next
      case False
      define rs1 where "rs1 = (if indegree rs succ > 0
        then rs\<lparr>indegree := (indegree rs)(succ := indegree rs succ - 1)\<rparr> else rs)"
      have rs1: "tasks rs1 = tasks rs" by (simp add: rs1_def)
      then have nc1: "open_count rs1 = open_count rs"
        by (simp add: open_count_def)
      have mt: "Suc (open_count (fst (markTerminal rs1 succ TaskStatusSkipped)))
          = open_count rs1"
        using st False rs1 by (intro open_count_markTerminal) simp_all
      have pr: "open_count (pushReady rs1 succ) = open_count rs1"
        by (simp add: open_count_def)
      from 2 st False nc1 mt pr show ?thesis
        by (auto simp: rs1_def [symmetric] Let_def split: if_splits prod.splits)
    qed
  qed
qed

function advance_loop ::
    "uuid list \<Rightarrow> run_state \<Rightarrow> uuid list \<Rightarrow> skipped_task list
       \<Rightarrow> run_state \<times> uuid list \<times> skipped_task list" where
  "advance_loop [] rs rdy skipped = (rs, rdy, skipped)"
| "advance_loop (current # queue) rs rdy skipped =
     (case advance_succs (Adjacency (topo rs) current) rs rdy skipped queue of
        (rs', rdy', skipped', queue') \<Rightarrow> advance_loop queue' rs' rdy' skipped')"
  by pat_completeness auto
termination
  by (relation "measure (\<lambda>(queue, rs, rdy, skipped). length queue + open_count rs)")
     (auto dest!: advance_succs_measure [OF sym])

definition advanceSuccessors ::
    "run_state \<Rightarrow> uuid list \<Rightarrow> run_state \<times> uuid list \<times> skipped_task list" where
  "advanceSuccessors rs seeds = advance_loop seeds rs [] []"

text \<open>The loop of \<open>ApplyCompletion\<close> over the successors a branch decision excluded.\<close>

fun skip_branches ::
    "uuid list \<Rightarrow> run_state \<Rightarrow> uuid list \<Rightarrow> skipped_task list
       \<Rightarrow> run_state \<times> uuid list \<times> skipped_task list" where
  "skip_branches [] rs seeds skipped = (rs, seeds, skipped)"
| "skip_branches (b # bs) rs seeds skipped =
     (case map_of (tasks rs) b of
        None \<Rightarrow> skip_branches bs rs seeds skipped
      | Some st \<Rightarrow>
          if IsTerminal (Status st) then skip_branches bs rs seeds skipped
          else let (rs1, sq) = markTerminal rs b TaskStatusSkipped
               in skip_branches bs rs1 (seeds @ [b])
                    (skipped @ [\<lparr>SkTaskID = b, SkTerminalSequence = sq,
                                 SkReason = ''branch not selected''\<rparr>]))"

definition IsComplete :: "run_state \<Rightarrow> bool" where
  "IsComplete rs \<longleftrightarrow> terminalCount rs \<ge> total rs"

definition ApplyCompletion ::
    "run_state \<Rightarrow> uuid \<Rightarrow> task_status \<Rightarrow> uuid list \<Rightarrow> run_state \<times> completion_result" where
  "ApplyCompletion rs taskID status branchSkipped =
     (let noop = (rs, \<lparr>ResTerminalSequence = 0, ResReady = [], ResSkipped = [],
                       ResComplete = (terminalCount rs \<ge> total rs)\<rparr>)
      in case map_of (tasks rs) taskID of
        None \<Rightarrow> noop
      | Some ts \<Rightarrow>
          if IsTerminal (Status ts) then noop
          else
            let (rs1, sq) = markTerminal rs taskID status;
                (rs2, seeds, skipped1) = skip_branches branchSkipped rs1 [taskID] [];
                (rs3, rdy, skipped2) = advanceSuccessors rs2 seeds
            in (rs3, \<lparr>ResTerminalSequence = sq, ResReady = rdy, ResSkipped = skipped1 @ skipped2,
                      ResComplete = (terminalCount rs3 \<ge> total rs3)\<rparr>))"

text \<open>The successor loop of \<open>ApplyTerminalRow\<close>: it never skips.\<close>

fun replay_succs :: "uuid list \<Rightarrow> run_state \<Rightarrow> uuid list \<Rightarrow> run_state \<times> uuid list" where
  "replay_succs [] rs rdy = (rs, rdy)"
| "replay_succs (succ # rest) rs rdy =
     (case map_of (tasks rs) succ of
        None \<Rightarrow> replay_succs rest rs rdy
      | Some st \<Rightarrow>
          if IsTerminal (Status st) then replay_succs rest rs rdy
          else
            let rs1 = (if indegree rs succ > 0
                       then rs\<lparr>indegree := (indegree rs)(succ := indegree rs succ - 1)\<rparr> else rs)
            in if indegree rs1 succ \<noteq> 0 then replay_succs rest rs1 rdy
               else
                 let predStatuses =
                       CollectPredecessorStatuses (Predecessors (topo rs1) succ) (map_of (outcomes rs1))
                 in if SatisfiesTriggerRule (TriggerRule (topo rs1) succ) predStatuses
                    then replay_succs rest (pushReady rs1 succ) (rdy @ [succ])
                    else replay_succs rest rs1 rdy)"

definition ApplyTerminalRow ::
    "run_state \<Rightarrow> uuid \<Rightarrow> task_status \<Rightarrow> int \<Rightarrow> run_state \<times> uuid list" where
  "ApplyTerminalRow rs taskID status storedSeq =
     (let rs0 = (if storedSeq > seq rs then rs\<lparr>seq := storedSeq\<rparr> else rs)
      in case map_of (tasks rs0) taskID of
        None \<Rightarrow> (rs0, [])
      | Some ts \<Rightarrow>
          let wasTerminal = IsTerminal (Status ts);
              rs1 = rs0\<lparr>tasks := AList.update taskID
                           (ts\<lparr>Status := status, ClaimedBy := '''', LeaseExpiresAtMs := 0\<rparr>) (tasks rs0),
                         outcomes := AList.update taskID status (outcomes rs0)\<rparr>;
              rs2 = removeReady rs1 taskID
          in if wasTerminal then (rs2, [])
             else replay_succs (Adjacency (topo rs2) taskID)
                    (rs2\<lparr>terminalCount := terminalCount rs2 + 1\<rparr>) [])"

definition RunningTasks :: "run_state \<Rightarrow> uuid list" where
  "RunningTasks rs = sort_key (order_of (topo rs))
     (map fst (filter (\<lambda>(i, ts). Status ts = TaskStatusRunning) (tasks rs)))"

definition requeue_one :: "run_state \<Rightarrow> uuid \<Rightarrow> run_state" where
  "requeue_one rs i =
     (case map_of (tasks rs) i of
        None \<Rightarrow> rs
      | Some ts \<Rightarrow>
          pushReady (rs\<lparr>tasks := AList.update i
            (ts\<lparr>Status := TaskStatusPending, Attempt := Attempt ts + 1, ClaimedBy := '''',
                LeaseExpiresAtMs := 0\<rparr>) (tasks rs)\<rparr>) i)"

definition requeueRunning :: "run_state \<Rightarrow> run_state \<times> uuid list" where
  "requeueRunning rs = (let out = RunningTasks rs in (foldl requeue_one rs out, out))"

definition MarkDispatched :: "run_state \<Rightarrow> uuid \<Rightarrow> string \<Rightarrow> int \<Rightarrow> int \<Rightarrow> run_state" where
  "MarkDispatched rs taskID claimedBy attempt leaseExpiresAtMs =
     (case map_of (tasks rs) taskID of
        None \<Rightarrow> rs
      | Some ts \<Rightarrow>
          if IsTerminal (Status ts) then rs
          else removeReady (rs\<lparr>tasks := AList.update taskID
                 (ts\<lparr>Status := TaskStatusRunning, ClaimedBy := claimedBy, Attempt := attempt,
                     LeaseExpiresAtMs := leaseExpiresAtMs\<rparr>) (tasks rs)\<rparr>) taskID)"

definition ReadyTasks :: "run_state \<Rightarrow> uuid list" where
  "ReadyTasks rs = ready rs"

definition TaskState :: "run_state \<Rightarrow> uuid \<Rightarrow> owner_task_state option" where
  "TaskState rs i = map_of (tasks rs) i"

definition HasFailures :: "run_state \<Rightarrow> bool" where
  "HasFailures rs \<longleftrightarrow> list_ex (\<lambda>(i, s). s = TaskStatusFailed) (outcomes rs)"

definition Sequence :: "run_state \<Rightarrow> int" where
  "Sequence rs = seq rs"

end
