(* ===== verification/Run_State_Invariant.thy ===== *)
theory Run_State_Invariant
  imports Run_State
begin

text \<open>
  The invariant of the run owner's state machine and its preservation by every operation.

  The heart of it is the meaning of the \<open>indegree\<close> counters: for a task that is not yet
  terminal, the counter is the number of its predecessor edges whose source is not yet
  terminal. While a completion is being propagated the counters lag behind, by the
  decrements that are still pending in the inner loop and in the work queue; the invariant
  carries that lag as the parameter \<open>D\<close>.
\<close>

section \<open>Effect of the primitive operations\<close>

lemma pushReady_fields [simp]:
  "topo (pushReady rs i) = topo rs" "indegree (pushReady rs i) = indegree rs"
  "outcomes (pushReady rs i) = outcomes rs" "seq (pushReady rs i) = seq rs"
  "terminalCount (pushReady rs i) = terminalCount rs" "total (pushReady rs i) = total rs"
  by (simp_all add: pushReady_def split: option.splits)

lemma removeReady_fields [simp]:
  "topo (removeReady rs i) = topo rs" "indegree (removeReady rs i) = indegree rs"
  "outcomes (removeReady rs i) = outcomes rs" "seq (removeReady rs i) = seq rs"
  "terminalCount (removeReady rs i) = terminalCount rs" "total (removeReady rs i) = total rs"
  by (simp_all add: removeReady_def)

lemma is_open_def2: "is_open rs i \<longleftrightarrow> (\<exists>ts. map_of (tasks rs) i = Some ts \<and> \<not> IsTerminal (Status ts))"
  by (simp add: is_open_def split: option.splits)

lemma is_open_cong: "tasks rs = tasks rs' \<Longrightarrow> is_open rs = is_open rs'"
  by (simp add: is_open_def fun_eq_iff)

lemma task_status_of_cong: "tasks rs = tasks rs' \<Longrightarrow> task_status_of rs = task_status_of rs'"
  by (simp add: task_status_of_def fun_eq_iff)

lemma is_open_status: "is_open rs i \<longleftrightarrow> (\<exists>s. task_status_of rs i = Some s \<and> \<not> IsTerminal s)"
  by (auto simp: is_open_def2 task_status_of_def)

lemma is_open_pushReady [simp]: "is_open (pushReady rs i) = is_open rs"
  and is_open_removeReady [simp]: "is_open (removeReady rs i) = is_open rs"
  and status_pushReady [simp]: "task_status_of (pushReady rs i) = task_status_of rs"
  and status_removeReady [simp]: "task_status_of (removeReady rs i) = task_status_of rs"
  by (simp_all add: is_open_def task_status_of_def fun_eq_iff)

lemma ready_pushReady:
  "ready (pushReady rs i) =
     (if \<not> inReady rs i \<and> is_open rs i then sort_key (order_of (topo rs)) (ready rs @ [i]) else ready rs)"
  by (auto simp: pushReady_def is_open_def split: option.splits)

lemma inReady_pushReady:
  "inReady (pushReady rs i) =
     (if \<not> inReady rs i \<and> is_open rs i then (inReady rs)(i := True) else inReady rs)"
  by (auto simp: pushReady_def is_open_def split: option.splits)

lemma ready_removeReady: "ready (removeReady rs i) = (if inReady rs i then remove1 i (ready rs) else ready rs)"
  by (simp add: removeReady_def)

lemma inReady_removeReady: "inReady (removeReady rs i) = (inReady rs)(i := False)"
  by (auto simp: removeReady_def fun_eq_iff)

section \<open>Well-formed topologies\<close>

text \<open>
  What \<open>LoadRunTopology\<close> builds: one order entry per task, predecessor lists that mirror
  the adjacency lists edge by edge, and edges between tasks of the run only.
\<close>

definition topo_keys :: "run_topology \<Rightarrow> uuid set" where
  "topo_keys tp = fst ` set (Order tp)"

definition topo_wf :: "run_topology \<Rightarrow> bool" where
  "topo_wf tp \<longleftrightarrow> distinct (map fst (Order tp))
     \<and> (\<forall>u v. count_list (Adjacency tp u) v = count_list (Predecessors tp v) u)
     \<and> (\<forall>v. set (Predecessors tp v) \<subseteq> topo_keys tp)
     \<and> (\<forall>u. set (Adjacency tp u) \<subseteq> topo_keys tp)"

definition topo_edges :: "run_topology \<Rightarrow> (uuid \<times> uuid) set" where
  "topo_edges tp = {(u, v). v \<in> set (Adjacency tp u)}"

lemma topo_wf_mirror:
  "topo_wf tp \<Longrightarrow> count_list (Predecessors tp v) u = count_list (Adjacency tp u) v"
  by (simp add: topo_wf_def)

lemma topo_wf_pred_iff: "topo_wf tp \<Longrightarrow> u \<in> set (Predecessors tp v) \<longleftrightarrow> v \<in> set (Adjacency tp u)"
  by (metis count_list_pos_iff topo_wf_mirror)

section \<open>The invariant\<close>

definition keys_ok :: "run_topology \<Rightarrow> run_state \<Rightarrow> bool" where
  "keys_ok tp rs \<longleftrightarrow> topo rs = tp \<and> distinct (map fst (tasks rs)) \<and> fst ` set (tasks rs) = topo_keys tp
     \<and> distinct (map fst (outcomes rs)) \<and> (\<forall>i. i \<notin> topo_keys tp \<longrightarrow> indegree rs i = 0)"

definition status_ok :: "run_state \<Rightarrow> bool" where
  "status_ok rs \<longleftrightarrow> (\<forall>i s. task_status_of rs i = Some s \<longrightarrow>
     s = TaskStatusPending \<or> s = TaskStatusRunning \<or> IsTerminal s)"

definition outcomes_ok :: "run_state \<Rightarrow> bool" where
  "outcomes_ok rs \<longleftrightarrow> (\<forall>i. map_of (outcomes rs) i =
     (case task_status_of rs i of None \<Rightarrow> None | Some s \<Rightarrow> if IsTerminal s then Some s else None))"

definition counts_ok :: "run_topology \<Rightarrow> run_state \<Rightarrow> bool" where
  "counts_ok tp rs \<longleftrightarrow> terminalCount rs = int (count_vals (\<lambda>ts. IsTerminal (Status ts)) (tasks rs))
     \<and> total rs = int (length (Order tp))"

definition queue_ok :: "run_state \<Rightarrow> bool" where
  "queue_ok rs \<longleftrightarrow> distinct (ready rs) \<and> sorted (map (order_of (topo rs)) (ready rs))
     \<and> (\<forall>i. inReady rs i \<longleftrightarrow> i \<in> set (ready rs))
     \<and> (\<forall>i \<in> set (ready rs). task_status_of rs i = Some TaskStatusPending)"

definition open_preds :: "run_state \<Rightarrow> uuid \<Rightarrow> nat" where
  "open_preds rs i = length (filter (is_open rs) (Predecessors (topo rs) i))"

definition degree_ok :: "(uuid \<Rightarrow> nat) \<Rightarrow> run_state \<Rightarrow> bool" where
  "degree_ok D rs \<longleftrightarrow> (\<forall>i. is_open rs i \<longrightarrow> indegree rs i = int (open_preds rs i + D i))"

definition rule_holds :: "run_state \<Rightarrow> uuid \<Rightarrow> bool" where
  "rule_holds rs i \<longleftrightarrow> SatisfiesTriggerRule (TriggerRule (topo rs) i)
     (CollectPredecessorStatuses (Predecessors (topo rs) i) (map_of (outcomes rs)))"

text \<open>
  A task waits in the ready queue or is running exactly when its counter is zero and its
  trigger rule is satisfied.
\<close>

definition ready_ok :: "run_state \<Rightarrow> bool" where
  "ready_ok rs \<longleftrightarrow> (\<forall>i. is_open rs i \<longrightarrow>
     (i \<in> set (ready rs) \<or> task_status_of rs i = Some TaskStatusRunning
        \<longleftrightarrow> indegree rs i = 0 \<and> rule_holds rs i))"

definition rs_inv_lag :: "run_topology \<Rightarrow> (uuid \<Rightarrow> nat) \<Rightarrow> run_state \<Rightarrow> bool" where
  "rs_inv_lag tp D rs \<longleftrightarrow> keys_ok tp rs \<and> status_ok rs \<and> outcomes_ok rs \<and> counts_ok tp rs
     \<and> queue_ok rs \<and> degree_ok D rs \<and> ready_ok rs"

definition rs_inv :: "run_topology \<Rightarrow> run_state \<Rightarrow> bool" where
  "rs_inv tp rs \<longleftrightarrow> rs_inv_lag tp (\<lambda>_. 0) rs"

text \<open>
  No open task is left behind: when all predecessors of a task are done and no decrement is
  pending, its trigger rule holds (otherwise the engine has already skipped it).
\<close>

definition settled :: "run_state \<Rightarrow> bool" where
  "settled rs \<longleftrightarrow> (\<forall>i. is_open rs i \<longrightarrow> indegree rs i = 0 \<longrightarrow> rule_holds rs i)"

lemmas inv_defs = rs_inv_lag_def keys_ok_def status_ok_def outcomes_ok_def counts_ok_def
  queue_ok_def degree_ok_def ready_ok_def

lemma rs_inv_lagD:
  assumes "rs_inv_lag tp D rs"
  shows "keys_ok tp rs" "status_ok rs" "outcomes_ok rs" "counts_ok tp rs" "queue_ok rs"
    "degree_ok D rs" "ready_ok rs"
  using assms by (simp_all add: rs_inv_lag_def)

lemma queue_ok_pending: "queue_ok rs \<Longrightarrow> i \<in> set (ready rs) \<Longrightarrow> task_status_of rs i = Some TaskStatusPending"
  by (simp add: queue_ok_def)

lemma open_preds_zero:
  "open_preds rs i = 0 \<longleftrightarrow> (\<forall>p \<in> set (Predecessors (topo rs) i). \<not> is_open rs p)"
  by (auto simp: open_preds_def filter_empty_conv)

section \<open>Setting a task terminal\<close>

lemma markTerminal_closed:
  "\<not> is_open rs i \<Longrightarrow> markTerminal rs i s = (rs, 0)"
  by (auto simp: markTerminal_def is_open_def split: option.splits)

lemma markTerminal_open:
  assumes "is_open rs i"
  shows "topo (fst (markTerminal rs i s)) = topo rs"
    "indegree (fst (markTerminal rs i s)) = indegree rs"
    "seq (fst (markTerminal rs i s)) = seq rs + 1"
    "snd (markTerminal rs i s) = seq rs + 1"
    "terminalCount (fst (markTerminal rs i s)) = terminalCount rs + 1"
    "total (fst (markTerminal rs i s)) = total rs"
    "map_of (outcomes (fst (markTerminal rs i s))) = (map_of (outcomes rs))(i \<mapsto> s)"
    "inReady (fst (markTerminal rs i s)) = (inReady rs)(i := False)"
    "ready (fst (markTerminal rs i s)) = (if inReady rs i then remove1 i (ready rs) else ready rs)"
    "task_status_of (fst (markTerminal rs i s)) = (task_status_of rs)(i \<mapsto> s)"
  using assms
  by (auto simp: markTerminal_def is_open_def2 Let_def inReady_removeReady ready_removeReady fun_eq_iff
      task_status_of_def)

lemma markTerminal_tasks:
  assumes "map_of (tasks rs) i = Some ts" "\<not> IsTerminal (Status ts)"
  shows "tasks (fst (markTerminal rs i s)) =
    AList.update i (ts\<lparr>Status := s, ClaimedBy := '''', LeaseExpiresAtMs := 0\<rparr>) (tasks rs)"
  using assms by (simp add: markTerminal_def Let_def)

lemma markTerminal_outcomes:
  "distinct (map fst (outcomes rs)) \<Longrightarrow> distinct (map fst (outcomes (fst (markTerminal rs i s))))"
  by (simp add: markTerminal_def Let_def distinct_update removeReady_def split: option.splits)

lemma open_is_key: "keys_ok tp rs \<Longrightarrow> is_open rs i \<Longrightarrow> i \<in> topo_keys tp"
  by (force simp: keys_ok_def is_open_def2 dest: map_of_SomeD)

lemma is_open_markTerminal:
  assumes "is_open rs i" "IsTerminal s"
  shows "is_open (fst (markTerminal rs i s)) j \<longleftrightarrow> j \<noteq> i \<and> is_open rs j"
  using assms by (auto simp: is_open_status markTerminal_open)

lemma open_preds_markTerminal:
  assumes "is_open rs i" "IsTerminal s"
  shows "open_preds rs v = open_preds (fst (markTerminal rs i s)) v
           + count_list (Predecessors (topo rs) v) i"
proof -
  have "open_preds (fst (markTerminal rs i s)) v
      = length (filter (\<lambda>p. is_open rs p \<and> p \<noteq> i) (Predecessors (topo rs) v))"
    by (auto simp: open_preds_def is_open_markTerminal [OF assms] markTerminal_open [OF assms(1)]
        intro!: arg_cong [where f = length] filter_cong)
  with length_filter_remove_class [of "is_open rs" "Predecessors (topo rs) v" i] assms(1)
  show ?thesis by (simp add: open_preds_def)
qed

lemma rule_holds_markTerminal:
  assumes "is_open rs i" "i \<notin> set (Predecessors (topo rs) v)"
  shows "rule_holds (fst (markTerminal rs i s)) v \<longleftrightarrow> rule_holds rs v"
proof -
  have "CollectPredecessorStatuses (Predecessors (topo rs) v) ((map_of (outcomes rs))(i \<mapsto> s))
      = CollectPredecessorStatuses (Predecessors (topo rs) v) (map_of (outcomes rs))"
    using assms(2) by (intro CollectPredecessorStatuses_cong) auto
  then show ?thesis
    by (simp add: rule_holds_def markTerminal_open [OF assms(1)])
qed

text \<open>
  Marking an open task terminal keeps the invariant, with the lag grown by the edges that
  leave the task.
\<close>

lemma rs_inv_lag_markTerminal:
  assumes inv: "rs_inv_lag tp D rs" and op: "is_open rs i" and trm: "IsTerminal s"
  shows "rs_inv_lag tp (\<lambda>v. D v + count_list (Predecessors tp v) i) (fst (markTerminal rs i s))"
proof -
  let ?rs = "fst (markTerminal rs i s)"
  obtain ts where ts: "map_of (tasks rs) i = Some ts" "\<not> IsTerminal (Status ts)"
    using op by (auto simp: is_open_def2)
  have tp: "topo rs = tp" using inv by (simp add: inv_defs)
  have keys: "keys_ok tp ?rs"
    using inv ts AList_update_keys_in [OF map_of_in_keys [OF ts(1)]]
    by (auto simp: inv_defs markTerminal_open [OF op] markTerminal_tasks [OF ts] markTerminal_outcomes simp flip: set_map)
  have st: "status_ok ?rs"
    using inv trm by (auto simp: inv_defs markTerminal_open [OF op])
  have oc: "outcomes_ok ?rs"
    using inv trm by (auto simp: inv_defs markTerminal_open [OF op])
  have cn: "counts_ok tp ?rs"
    using inv trm ts count_vals_update [OF ts(1), of "\<lambda>ts. IsTerminal (Status ts)"
        "ts\<lparr>Status := s, ClaimedBy := '''', LeaseExpiresAtMs := 0\<rparr>"]
    by (simp add: inv_defs markTerminal_open [OF op] markTerminal_tasks [OF ts])
  have qu: "queue_ok ?rs"
    using inv by (auto simp: inv_defs markTerminal_open [OF op] sorted_map_remove1)
  have dg: "degree_ok (\<lambda>v. D v + count_list (Predecessors tp v) i) ?rs"
    using inv tp open_preds_markTerminal [OF op trm]
    by (auto simp: inv_defs is_open_markTerminal [OF op trm] markTerminal_open [OF op])
  have rd: "ready_ok ?rs"
    unfolding ready_ok_def
  proof (intro allI impI)
    fix v assume "is_open ?rs v"
    then have v: "v \<noteq> i" "is_open rs v" by (simp_all add: is_open_markTerminal [OF op trm])
    have rdy: "v \<in> set (ready ?rs) \<longleftrightarrow> v \<in> set (ready rs)"
      using v inv by (auto simp: markTerminal_open [OF op] inv_defs)
    have "indegree rs v = 0 \<Longrightarrow> rule_holds ?rs v = rule_holds rs v"
    proof (rule rule_holds_markTerminal [OF op])
      assume "indegree rs v = 0"
      then have "open_preds rs v = 0" using inv v by (auto simp: inv_defs)
      then show "i \<notin> set (Predecessors (topo rs) v)" using op by (auto simp: open_preds_zero)
    qed
    then show "v \<in> set (ready ?rs) \<or> task_status_of ?rs v = Some TaskStatusRunning
      \<longleftrightarrow> indegree ?rs v = 0 \<and> rule_holds ?rs v"
      using inv v rdy by (auto simp: inv_defs markTerminal_open [OF op])
  qed
  from keys st oc cn qu dg rd show ?thesis by (simp add: rs_inv_lag_def)
qed

lemma settled_markTerminal:
  assumes inv: "rs_inv_lag tp D rs" and op: "is_open rs i" and trm: "IsTerminal s"
    and st: "\<And>v. v \<noteq> i \<Longrightarrow> is_open rs v \<Longrightarrow> indegree rs v = 0 \<Longrightarrow> rule_holds rs v"
  shows "settled (fst (markTerminal rs i s))"
  unfolding settled_def
proof (intro allI impI)
  fix v assume "is_open (fst (markTerminal rs i s)) v" "indegree (fst (markTerminal rs i s)) v = 0"
  then have v: "v \<noteq> i" "is_open rs v" "indegree rs v = 0"
    by (simp_all add: is_open_markTerminal [OF op trm] markTerminal_open [OF op])
  then have "open_preds rs v = 0" using inv by (auto simp: inv_defs)
  then have "i \<notin> set (Predecessors (topo rs) v)" using op by (auto simp: open_preds_zero)
  then show "rule_holds (fst (markTerminal rs i s)) v"
    using st v by (simp add: rule_holds_markTerminal [OF op])
qed

section \<open>One decrement\<close>

definition dec_indegree :: "run_state \<Rightarrow> uuid \<Rightarrow> run_state" where
  "dec_indegree rs i = rs\<lparr>indegree := (indegree rs)(i := indegree rs i - 1)\<rparr>"

lemma dec_indegree_simps [simp]:
  "topo (dec_indegree rs i) = topo rs" "tasks (dec_indegree rs i) = tasks rs"
  "outcomes (dec_indegree rs i) = outcomes rs" "ready (dec_indegree rs i) = ready rs"
  "inReady (dec_indegree rs i) = inReady rs" "seq (dec_indegree rs i) = seq rs"
  "terminalCount (dec_indegree rs i) = terminalCount rs" "total (dec_indegree rs i) = total rs"
  "indegree (dec_indegree rs i) = (indegree rs)(i := indegree rs i - 1)"
  "is_open (dec_indegree rs i) = is_open rs" "task_status_of (dec_indegree rs i) = task_status_of rs"
  "open_preds (dec_indegree rs i) = open_preds rs" "rule_holds (dec_indegree rs i) = rule_holds rs"
  by (simp_all add: dec_indegree_def is_open_def task_status_of_def open_preds_def rule_holds_def fun_eq_iff
      cong: filter_cong)

lemma rs_inv_lag_cong:
  "(\<And>i. is_open rs i \<Longrightarrow> D i = D' i) \<Longrightarrow> rs_inv_lag tp D rs \<longleftrightarrow> rs_inv_lag tp D' rs"
  by (simp add: rs_inv_lag_def degree_ok_def)

lemma lag_positive:
  assumes "rs_inv_lag tp D rs" "is_open rs i" "0 < D i"
  shows "0 < indegree rs i" "i \<notin> set (ready rs)" "\<not> inReady rs i"
    "task_status_of rs i = Some TaskStatusPending"
proof -
  show pos: "0 < indegree rs i" using assms by (simp add: inv_defs)
  then show nr: "i \<notin> set (ready rs)" using assms(1,2) by (auto simp: inv_defs)
  then show "\<not> inReady rs i" using assms(1) by (simp add: inv_defs)
  from pos have "task_status_of rs i \<noteq> Some TaskStatusRunning" using assms(1,2) by (auto simp: inv_defs)
  with assms(1,2) show "task_status_of rs i = Some TaskStatusPending"
    by (auto simp: inv_defs is_open_status)
qed

lemma rs_inv_lag_dec:
  assumes inv: "rs_inv_lag tp D rs" and op: "is_open rs i" and D: "D i = Suc (D' i)"
    "\<And>j. j \<noteq> i \<Longrightarrow> D j = D' j"
    and z: "indegree rs i = 1 \<Longrightarrow> \<not> rule_holds rs i"
  shows "rs_inv_lag tp D' (dec_indegree rs i)"
proof -
  note lp = lag_positive [OF inv op, unfolded D(1), OF zero_less_Suc]
  have dg: "degree_ok D' (dec_indegree rs i)"
    using inv D by (auto simp: inv_defs)
  have rd: "ready_ok (dec_indegree rs i)"
    using inv lp z by (auto simp: inv_defs)
  from inv dg rd open_is_key [OF rs_inv_lagD(1) [OF inv] op] show ?thesis
    by (auto simp: rs_inv_lag_def keys_ok_def status_ok_def outcomes_ok_def counts_ok_def queue_ok_def)
qed

lemma rule_holds_pushReady [simp]: "rule_holds (pushReady rs i) = rule_holds rs"
  and open_preds_pushReady [simp]: "open_preds (pushReady rs i) = open_preds rs"
  by (simp_all add: rule_holds_def open_preds_def fun_eq_iff)

lemma rs_inv_lag_dec_push:
  assumes inv: "rs_inv_lag tp D rs" and op: "is_open rs i" and D: "D i = Suc (D' i)"
    "\<And>j. j \<noteq> i \<Longrightarrow> D j = D' j"
    and one: "indegree rs i = 1" and rule: "rule_holds rs i"
  shows "rs_inv_lag tp D' (pushReady (dec_indegree rs i) i)"
proof -
  note lp = lag_positive [OF inv op, unfolded D(1), OF zero_less_Suc]
  let ?rs = "pushReady (dec_indegree rs i) i"
  have rdy: "ready ?rs = sort_key (order_of tp) (ready rs @ [i])"
    using lp op inv by (simp add: ready_pushReady inv_defs)
  have inr: "inReady ?rs = (inReady rs)(i := True)"
    using lp op by (simp add: inReady_pushReady)
  have qu: "queue_ok ?rs" unfolding queue_ok_def rdy inr
    using inv lp by (simp add: inv_defs)
  have dg: "degree_ok D' ?rs"
    using inv D by (auto simp: inv_defs)
  have rd: "ready_ok ?rs" unfolding ready_ok_def rdy
    using inv lp one rule by (auto simp: inv_defs)
  from inv dg rd qu open_is_key [OF rs_inv_lagD(1) [OF inv] op] show ?thesis
    by (auto simp: rs_inv_lag_def keys_ok_def status_ok_def outcomes_ok_def counts_ok_def)
qed

section \<open>Propagation of a completion\<close>

text \<open>
  The four ways the inner loop of \<open>advanceSuccessors\<close> treats a successor.
\<close>

definition rule_skip :: "run_state \<Rightarrow> uuid \<Rightarrow> skipped_task" where
  "rule_skip rs i = \<lparr>SkTaskID = i, SkTerminalSequence = seq rs + 1,
     SkReason = ''trigger rule '' @ quoteQ (TriggerRule (topo rs) i) @ '' not satisfied''\<rparr>"

lemma advance_succs_closed:
  "\<not> is_open rs i \<Longrightarrow> advance_succs (i # rest) rs rdy sk q = advance_succs rest rs rdy sk q"
  by (auto simp: is_open_def split: option.splits)

lemma advance_succs_wait:
  "is_open rs i \<Longrightarrow> 1 < indegree rs i \<Longrightarrow>
     advance_succs (i # rest) rs rdy sk q = advance_succs rest (dec_indegree rs i) rdy sk q"
  by (auto simp: is_open_def dec_indegree_def split: option.splits)

lemma advance_succs_ready:
  "is_open rs i \<Longrightarrow> indegree rs i = 1 \<Longrightarrow> rule_holds rs i \<Longrightarrow>
     advance_succs (i # rest) rs rdy sk q
       = advance_succs rest (pushReady (dec_indegree rs i) i) (rdy @ [i]) sk q"
  by (auto simp: is_open_def dec_indegree_def rule_holds_def split: option.splits)

lemma advance_succs_skip:
  "is_open rs i \<Longrightarrow> indegree rs i = 1 \<Longrightarrow> \<not> rule_holds rs i \<Longrightarrow>
     advance_succs (i # rest) rs rdy sk q
       = advance_succs rest (fst (markTerminal (dec_indegree rs i) i TaskStatusSkipped)) rdy
           (sk @ [rule_skip rs i]) (q @ [i])"
  using markTerminal_open(4) [of "dec_indegree rs i" i TaskStatusSkipped]
  by (auto simp: is_open_def dec_indegree_def rule_holds_def rule_skip_def split: option.splits prod.splits)

declare advance_succs.simps(2) [simp del]

text \<open>
  A later state extends an earlier one: what was terminal (or unknown) keeps its status.
  A task is refused when all its predecessors are done and their statuses fail its rule;
  refusal is final.
\<close>

definition extends :: "run_state \<Rightarrow> run_state \<Rightarrow> bool" where
  "extends rs rs' \<longleftrightarrow> topo rs' = topo rs
     \<and> (\<forall>i. \<not> is_open rs i \<longrightarrow> task_status_of rs' i = task_status_of rs i)"

definition preds_done :: "run_state \<Rightarrow> uuid \<Rightarrow> bool" where
  "preds_done rs i \<longleftrightarrow> (\<forall>p \<in> set (Predecessors (topo rs) i). \<not> is_open rs p)"

definition pred_rule :: "run_state \<Rightarrow> uuid \<Rightarrow> bool" where
  "pred_rule rs i \<longleftrightarrow> SatisfiesTriggerRule (TriggerRule (topo rs) i)
     (CollectPredecessorStatuses (Predecessors (topo rs) i) (task_status_of rs))"

definition refused :: "run_state \<Rightarrow> uuid \<Rightarrow> bool" where
  "refused rs i \<longleftrightarrow> preds_done rs i \<and> \<not> pred_rule rs i"

lemma extends_refl: "extends rs rs"
  by (simp add: extends_def)

lemma extends_closed: "extends rs rs' \<Longrightarrow> \<not> is_open rs i \<Longrightarrow> \<not> is_open rs' i"
  by (auto simp: extends_def is_open_status)

lemma extends_trans: "extends rs rs1 \<Longrightarrow> extends rs1 rs2 \<Longrightarrow> extends rs rs2"
  by (metis extends_closed extends_def)

lemma extends_preds:
  assumes "extends rs rs'" "preds_done rs i"
  shows "preds_done rs' i" "pred_rule rs' i \<longleftrightarrow> pred_rule rs i"
proof -
  show "preds_done rs' i"
    using assms extends_closed [OF assms(1)] by (auto simp: preds_done_def extends_def)
  have "CollectPredecessorStatuses (Predecessors (topo rs) i) (task_status_of rs')
      = CollectPredecessorStatuses (Predecessors (topo rs) i) (task_status_of rs)"
    using assms by (intro CollectPredecessorStatuses_cong) (auto simp: preds_done_def extends_def)
  then show "pred_rule rs' i \<longleftrightarrow> pred_rule rs i"
    using assms(1) by (simp add: pred_rule_def extends_def)
qed

lemma refused_stable: "extends rs rs' \<Longrightarrow> refused rs i \<Longrightarrow> refused rs' i"
  by (auto simp: refused_def extends_preds)

text \<open>On done predecessors the recorded outcomes are the statuses.\<close>

lemma rule_holds_preds_done:
  assumes "outcomes_ok rs" "preds_done rs i"
  shows "rule_holds rs i \<longleftrightarrow> pred_rule rs i"
proof -
  have "map_of (outcomes rs) p = task_status_of rs p" if "\<not> is_open rs p" for p
    using assms(1) that by (auto simp: outcomes_ok_def is_open_status split: option.splits)
  then have "CollectPredecessorStatuses (Predecessors (topo rs) i) (map_of (outcomes rs))
      = CollectPredecessorStatuses (Predecessors (topo rs) i) (task_status_of rs)"
    using assms(2) by (intro CollectPredecessorStatuses_cong) (auto simp: preds_done_def)
  then show ?thesis by (simp add: rule_holds_def pred_rule_def)
qed

lemma indegree_zero_preds_done:
  "degree_ok D rs \<Longrightarrow> is_open rs i \<Longrightarrow> indegree rs i = int (D i) \<longleftrightarrow> preds_done rs i"
  using open_preds_zero [of rs i] by (auto simp: degree_ok_def preds_done_def)

text \<open>
  What a propagation does to the state: the tasks \<open>ids\<close> turn from open to skipped, in
  sequence and because their rules refuse them, and the tasks \<open>rds\<close> enter the ready queue.
\<close>

definition advances :: "run_state \<Rightarrow> run_state \<Rightarrow> uuid list \<Rightarrow> uuid list \<Rightarrow> bool" where
  "advances rs rs' ids rds \<longleftrightarrow> topo rs' = topo rs
     \<and> (\<forall>i. task_status_of rs' i = (if i \<in> set ids then Some TaskStatusSkipped else task_status_of rs i))
     \<and> distinct ids \<and> (\<forall>i \<in> set ids. is_open rs i \<and> refused rs' i)
     \<and> seq rs' = seq rs + int (length ids)
     \<and> set (ready rs') = set (ready rs) \<union> set rds
     \<and> distinct rds \<and> set rds \<inter> set (ready rs) = {}"

lemma advances_refl: "advances rs rs [] []"
  by (simp add: advances_def)

lemma advances_extends: "advances rs rs' ids rds \<Longrightarrow> extends rs rs'"
  by (auto simp: advances_def extends_def)

lemma advances_trans:
  assumes "advances rs rs1 ids1 rds1" "advances rs1 rs2 ids2 rds2"
  shows "advances rs rs2 (ids1 @ ids2) (rds1 @ rds2)"
proof -
  have "is_open rs1 i \<Longrightarrow> i \<notin> set ids1 \<and> is_open rs i" for i
    using assms(1) by (auto simp: advances_def is_open_status split: if_splits)
  moreover have "refused rs1 i \<Longrightarrow> refused rs2 i" for i
    using refused_stable [OF advances_extends [OF assms(2)]] .
  ultimately show ?thesis using assms by (auto simp: advances_def)
qed

definition seq_block :: "int \<Rightarrow> skipped_task list \<Rightarrow> bool" where
  "seq_block n sk \<longleftrightarrow> map SkTerminalSequence sk = [n + 1 .. n + int (length sk)]"

lemma seq_block_Nil [simp]: "seq_block n []"
  by (simp add: seq_block_def)

lemma seq_block_append:
  assumes "seq_block n a" "seq_block (n + int (length a)) b"
  shows "seq_block n (a @ b)"
proof -
  have "[n + 1 .. n + int (length a + length b)]
      = [n + 1 .. n + int (length a)] @ [n + int (length a) + 1 .. n + int (length a + length b)]"
    using upto_split2 [of "n + 1" "n + int (length a)" "n + int (length a + length b)"]
    by (cases a) simp_all
  with assms show ?thesis by (simp add: seq_block_def algebra_simps)
qed

text \<open>Decrements still owed: the rest of the inner loop and the edges leaving the queue.\<close>

definition pend :: "run_topology \<Rightarrow> uuid list \<Rightarrow> uuid list \<Rightarrow> uuid \<Rightarrow> nat" where
  "pend tp rest queue v = count_list rest v + (\<Sum>q\<leftarrow>queue. count_list (Adjacency tp q) v)"

lemma pend_Cons: "pend tp (i # rest) q v = (if v = i then Suc (pend tp rest q v) else pend tp rest q v)"
  by (simp add: pend_def)

lemma pend_dequeue: "pend tp [] (c # q) = pend tp (Adjacency tp c) q"
  by (simp add: pend_def fun_eq_iff)

lemma pend_enqueue:
  "topo_wf tp \<Longrightarrow> pend tp rest (q @ [i]) = (\<lambda>v. pend tp rest q v + count_list (Predecessors tp v) i)"
  by (simp add: pend_def topo_wf_mirror fun_eq_iff)

lemma advances_dec_push:
  assumes "is_open rs i" "\<not> inReady rs i" "i \<notin> set (ready rs)"
  shows "advances rs (pushReady (dec_indegree rs i) i) [] [i]"
  using assms by (auto simp: advances_def ready_pushReady)

lemma extends_markTerminal: "is_open rs i \<Longrightarrow> extends rs (fst (markTerminal rs i s))"
  by (auto simp: extends_def markTerminal_open)

lemma advances_dec_skip:
  assumes "is_open rs i" "\<not> inReady rs i" "refused rs i"
  shows "advances rs (fst (markTerminal (dec_indegree rs i) i TaskStatusSkipped)) [i] []"
proof -
  have "refused (dec_indegree rs i) i"
    using assms(3) by (simp add: refused_def preds_done_def pred_rule_def)
  then have "refused (fst (markTerminal (dec_indegree rs i) i TaskStatusSkipped)) i"
    using assms(1) by (intro refused_stable [OF extends_markTerminal]) simp_all
  with assms(1,2) show ?thesis by (simp add: advances_def markTerminal_open)
qed

lemma advance_succs_inv:
  assumes "topo_wf tp" "rs_inv_lag tp (pend tp ss q) rs" "settled rs"
    "advance_succs ss rs rdy sk q = (rs', rdy', sk', q')"
  shows "\<exists>new rds. rdy' = rdy @ rds \<and> sk' = sk @ new \<and> q' = q @ map SkTaskID new
    \<and> advances rs rs' (map SkTaskID new) rds \<and> seq_block (seq rs) new
    \<and> rs_inv_lag tp (pend tp [] q') rs' \<and> settled rs'"
  using assms(2-)
proof (induction ss arbitrary: rs rdy sk q)
  case Nil
  then show ?case using advances_refl [of rs] by simp
next
  case (Cons i rest)
  note inv = Cons.prems(1) and st = Cons.prems(2) and run = Cons.prems(3)
  show ?case
  proof (cases "is_open rs i")
    case False
    have "rs_inv_lag tp (pend tp rest q) rs"
      by (rule iffD1 [OF rs_inv_lag_cong inv]) (use False in \<open>auto simp: pend_Cons\<close>)
    from Cons.IH [OF this st] run show ?thesis by (simp add: advance_succs_closed [OF False])
  next
    case op: True
    have D: "pend tp (i # rest) q i = Suc (pend tp rest q i)"
      "\<And>j. j \<noteq> i \<Longrightarrow> pend tp (i # rest) q j = pend tp rest q j"
      by (simp_all add: pend_Cons)
    note lp = lag_positive [OF inv op, unfolded D(1), OF zero_less_Suc]
    consider "1 < indegree rs i" | "indegree rs i = 1" "rule_holds rs i"
      | "indegree rs i = 1" "\<not> rule_holds rs i" using lp(1) by linarith
    then show ?thesis
    proof cases
      case 1
      let ?rs = "dec_indegree rs i"
      have "rs_inv_lag tp (pend tp rest q) ?rs"
        using rs_inv_lag_dec [OF inv op, of "pend tp rest q"] D 1 by auto
      moreover have "settled ?rs" using st 1 by (auto simp: settled_def)
      moreover have "advances rs ?rs [] []" by (simp add: advances_def)
      ultimately show ?thesis
        using Cons.IH [of q ?rs rdy sk] run 1 advances_trans [of rs ?rs "[]" "[]" rs']
        by (fastforce simp: advance_succs_wait [OF op 1])
    next
      case 2
      let ?rs = "pushReady (dec_indegree rs i) i"
      have "rs_inv_lag tp (pend tp rest q) ?rs"
        using rs_inv_lag_dec_push [OF inv op, of "pend tp rest q"] D 2 by auto
      moreover have "settled ?rs" using st 2 by (auto simp: settled_def)
      moreover note advances_dec_push [OF op lp(3) lp(2)]
      ultimately show ?thesis
        using Cons.IH [of q ?rs "rdy @ [i]" sk] run advances_trans [of rs ?rs "[]" "[i]" rs']
        by (fastforce simp: advance_succs_ready [OF op 2])
    next
      case 3
      let ?rs = "fst (markTerminal (dec_indegree rs i) i TaskStatusSkipped)"
      have inv1: "rs_inv_lag tp (pend tp rest q) (dec_indegree rs i)"
        using rs_inv_lag_dec [OF inv op, of "pend tp rest q"] D 3 by auto
      have "pend tp (i # rest) q i = 1" "preds_done rs i"
        using rs_inv_lagD(6) [OF inv] op 3(1) D(1) open_preds_zero [of rs i]
        by (auto simp: degree_ok_def preds_done_def)
      then have rf: "refused rs i"
        using rule_holds_preds_done [OF rs_inv_lagD(3) [OF inv]] 3(2) by (simp add: refused_def)
      have "rs_inv_lag tp (pend tp rest (q @ [i])) ?rs"
        using rs_inv_lag_markTerminal [OF inv1, of i TaskStatusSkipped] op assms(1)
        by (simp add: pend_enqueue)
      moreover have "settled ?rs"
        using settled_markTerminal [OF inv1, of i TaskStatusSkipped] op st by (simp add: settled_def)
      ultimately obtain new rds where n: "rdy' = rdy @ rds" "sk' = (sk @ [rule_skip rs i]) @ new"
        "q' = (q @ [i]) @ map SkTaskID new" "advances ?rs rs' (map SkTaskID new) rds"
        "seq_block (seq ?rs) new" "rs_inv_lag tp (pend tp [] q') rs'" "settled rs'"
        using Cons.IH [of "q @ [i]" ?rs rdy "sk @ [rule_skip rs i]"] run
        by (auto simp: advance_succs_skip [OF op 3])
      have "seq_block (seq rs) ([rule_skip rs i] @ new)"
        using n(5) op by (intro seq_block_append) (simp_all add: seq_block_def rule_skip_def markTerminal_open)
      with n advances_trans [OF advances_dec_skip [OF op lp(3) rf] n(4)] show ?thesis
        by (intro exI [of _ "rule_skip rs i # new"] exI [of _ rds]) (simp add: rule_skip_def)
    qed
  qed
qed

lemma advance_loop_inv:
  assumes "topo_wf tp" "rs_inv_lag tp (pend tp [] q) rs" "settled rs"
    "advance_loop q rs rdy sk = (rs', rdy', sk')"
  shows "\<exists>new rds. rdy' = rdy @ rds \<and> sk' = sk @ new \<and> advances rs rs' (map SkTaskID new) rds
    \<and> seq_block (seq rs) new \<and> rs_inv tp rs' \<and> settled rs'"
  using assms(2-)
proof (induction q rs rdy sk rule: advance_loop.induct)
  case (1 rs rdy sk)
  then show ?case
    using advances_refl [of rs] by (auto simp: rs_inv_def pend_def [abs_def])
next
  case (2 c q rs rdy sk)
  obtain rs1 rdy1 sk1 q1 where a: "advance_succs (Adjacency (topo rs) c) rs rdy sk q = (rs1, rdy1, sk1, q1)"
    using prod_cases4 by blast
  have "topo rs = tp" using 2(2) by (simp add: inv_defs)
  with 2(2) have "rs_inv_lag tp (pend tp (Adjacency (topo rs) c) q) rs" by (simp add: pend_dequeue)
  from advance_succs_inv [OF assms(1) this 2(3) a]
  obtain n1 r1 where b: "rdy1 = rdy @ r1" "sk1 = sk @ n1" "advances rs rs1 (map SkTaskID n1) r1"
    "seq_block (seq rs) n1" "rs_inv_lag tp (pend tp [] q1) rs1" "settled rs1" by blast
  have run: "advance_loop q1 rs1 rdy1 sk1 = (rs', rdy', sk')" using 2(4) a by simp
  from "2.IH" [OF a [symmetric] refl refl b(5,6) run]
  obtain n2 r2 where c: "rdy' = rdy1 @ r2" "sk' = sk1 @ n2" "advances rs1 rs' (map SkTaskID n2) r2"
    "seq_block (seq rs1) n2" "rs_inv tp rs'" "settled rs'" by blast
  have "seq rs1 = seq rs + int (length n1)" using b(3) by (simp add: advances_def)
  with b c have "seq_block (seq rs) (n1 @ n2)" by (intro seq_block_append) simp_all
  with b c advances_trans [OF b(3) c(3)] show ?case
    by (intro exI [of _ "n1 @ n2"] exI [of _ "r1 @ r2"]) simp
qed

subsection \<open>Branch skipping\<close>

text \<open>The excluded successors: they turn terminal at once, whatever their counters say.\<close>

definition excludes :: "run_state \<Rightarrow> run_state \<Rightarrow> uuid list \<Rightarrow> bool" where
  "excludes rs rs' ids \<longleftrightarrow> topo rs' = topo rs
     \<and> (\<forall>i. task_status_of rs' i = (if i \<in> set ids then Some TaskStatusSkipped else task_status_of rs i))
     \<and> distinct ids \<and> (\<forall>i \<in> set ids. is_open rs i)
     \<and> seq rs' = seq rs + int (length ids)
     \<and> set (ready rs') = set (ready rs) - set ids"

lemma excludes_refl: "excludes rs rs []"
  by (simp add: excludes_def)

lemma excludes_trans:
  assumes "excludes rs rs1 ids1" "excludes rs1 rs2 ids2"
  shows "excludes rs rs2 (ids1 @ ids2)"
proof -
  have "is_open rs1 i \<Longrightarrow> i \<notin> set ids1 \<and> is_open rs i" for i
    using assms(1) by (auto simp: excludes_def is_open_status split: if_splits)
  with assms show ?thesis by (auto simp: excludes_def)
qed

lemma excludes_markTerminal:
  assumes "rs_inv_lag tp D rs" "is_open rs i"
  shows "excludes rs (fst (markTerminal rs i TaskStatusSkipped)) [i]"
proof -
  have "distinct (ready rs)" "inReady rs i \<longleftrightarrow> i \<in> set (ready rs)" using assms(1) by (auto simp: inv_defs)
  with assms(2) show ?thesis by (auto simp: excludes_def markTerminal_open)
qed

definition branch_skip :: "run_state \<Rightarrow> uuid \<Rightarrow> skipped_task" where
  "branch_skip rs i = \<lparr>SkTaskID = i, SkTerminalSequence = seq rs + 1, SkReason = ''branch not selected''\<rparr>"

lemma skip_branches_closed:
  "\<not> is_open rs b \<Longrightarrow> skip_branches (b # bs) rs seeds sk = skip_branches bs rs seeds sk"
  by (auto simp: is_open_def split: option.splits)

lemma skip_branches_open:
  "is_open rs b \<Longrightarrow> skip_branches (b # bs) rs seeds sk
     = skip_branches bs (fst (markTerminal rs b TaskStatusSkipped)) (seeds @ [b]) (sk @ [branch_skip rs b])"
  using markTerminal_open(4) [of rs b TaskStatusSkipped]
  by (auto simp: is_open_def branch_skip_def split: option.splits prod.splits)

declare skip_branches.simps(2) [simp del]

lemma skip_branches_inv:
  assumes "topo_wf tp" "rs_inv_lag tp (pend tp [] seeds) rs" "settled rs"
    "skip_branches bs rs seeds sk = (rs', seeds', sk')"
  shows "\<exists>new. sk' = sk @ new \<and> seeds' = seeds @ map SkTaskID new
    \<and> excludes rs rs' (map SkTaskID new) \<and> seq_block (seq rs) new
    \<and> set (map SkTaskID new) = set bs \<inter> {i. is_open rs i}
    \<and> rs_inv_lag tp (pend tp [] seeds') rs' \<and> settled rs'"
  using assms(2-)
proof (induction bs arbitrary: rs seeds sk)
  case Nil
  then show ?case using excludes_refl by simp
next
  case (Cons b bs)
  note inv = Cons.prems(1) and st = Cons.prems(2) and run = Cons.prems(3)
  show ?case
  proof (cases "is_open rs b")
    case False
    with Cons.IH [OF inv st] run show ?thesis by (fastforce simp: skip_branches_closed [OF False])
  next
    case op: True
    let ?rs = "fst (markTerminal rs b TaskStatusSkipped)"
    have "rs_inv_lag tp (pend tp [] (seeds @ [b])) ?rs"
      using rs_inv_lag_markTerminal [OF inv op, of TaskStatusSkipped] assms(1) by (simp add: pend_enqueue)
    moreover have "settled ?rs"
      using settled_markTerminal [OF inv op, of TaskStatusSkipped] st by (simp add: settled_def)
    ultimately obtain new where n: "sk' = (sk @ [branch_skip rs b]) @ new"
      "seeds' = (seeds @ [b]) @ map SkTaskID new"
      "excludes ?rs rs' (map SkTaskID new)" "seq_block (seq ?rs) new"
      "set (map SkTaskID new) = set bs \<inter> {i. is_open ?rs i}"
      "rs_inv_lag tp (pend tp [] seeds') rs'" "settled rs'"
      using Cons.IH [of "seeds @ [b]" ?rs "sk @ [branch_skip rs b]"] run
      by (auto simp: skip_branches_open [OF op])
    have "seq_block (seq rs) ([branch_skip rs b] @ new)"
      using n(4) op by (intro seq_block_append) (simp_all add: seq_block_def branch_skip_def markTerminal_open)
    moreover have "set (map SkTaskID (branch_skip rs b # new)) = set (b # bs) \<inter> {i. is_open rs i}"
      using n(5) op by (auto simp: branch_skip_def is_open_markTerminal)
    moreover note n excludes_trans [OF excludes_markTerminal [OF inv op] n(3)]
    ultimately show ?thesis
      by (intro exI [of _ "branch_skip rs b # new"]) (simp add: branch_skip_def)
  qed
qed

end
