(* ===== verification/Run_State_Ops.thy ===== *)
theory Run_State_Ops
  imports Run_State_Invariant
begin

text \<open>
  Preservation of the invariant by every operation of the run owner's state machine, and
  the effect of each: \<open>ApplyCompletion\<close>, \<open>MarkDispatched\<close>, \<open>requeueRunning\<close>,
  \<open>ApplyTerminalRow\<close> and the constructor \<open>NewRunState\<close>.
\<close>

section \<open>ApplyCompletion\<close>

text \<open>
  A completion of task \<open>i\<close> with status \<open>s\<close> that skipped the tasks of \<open>ResSkipped\<close>: the
  statuses, the sequence numbers and the ready queue afterwards.
\<close>

definition completion_effect ::
    "run_state \<Rightarrow> uuid \<Rightarrow> task_status \<Rightarrow> uuid list \<Rightarrow> run_state \<Rightarrow> completion_result \<Rightarrow> bool" where
  "completion_effect rs i s bs rs' res \<longleftrightarrow> (let ids = map SkTaskID (ResSkipped res) in
     topo rs' = topo rs
     \<and> (\<forall>j. task_status_of rs' j = (if j = i then Some s
           else if j \<in> set ids then Some TaskStatusSkipped else task_status_of rs j))
     \<and> distinct (i # ids) \<and> (\<forall>j \<in> set ids. is_open rs j \<and> (j \<in> set bs \<or> refused rs' j))
     \<and> (\<forall>b \<in> set bs. is_open rs b \<longrightarrow> b = i \<or> b \<in> set ids)
     \<and> ResTerminalSequence res = seq rs + 1
     \<and> map SkTerminalSequence (ResSkipped res) = [seq rs + 2 .. seq rs']
     \<and> seq rs' = seq rs + 1 + int (length ids)
     \<and> (ResComplete res \<longleftrightarrow> IsComplete rs')
     \<and> distinct (ResReady res) \<and> set (ResReady res) \<subseteq> set (ready rs')
     \<and> set (ready rs') - set (ResReady res) = set (ready rs) - insert i (set ids))"

lemma completion_effectD:
  assumes "completion_effect rs i s bs rs' res"
  shows "task_status_of rs' j = (if j = i then Some s
      else if j \<in> SkTaskID ` set (ResSkipped res) then Some TaskStatusSkipped else task_status_of rs j)"
    "j \<in> SkTaskID ` set (ResSkipped res) \<Longrightarrow> is_open rs j \<and> (j \<in> set bs \<or> refused rs' j)"
    "i \<notin> SkTaskID ` set (ResSkipped res)"
  using assms unfolding completion_effect_def Let_def set_map distinct.simps by blast+

lemma ApplyCompletion_closed:
  "\<not> is_open rs i \<Longrightarrow> ApplyCompletion rs i s bs =
     (rs, \<lparr>ResTerminalSequence = 0, ResReady = [], ResSkipped = [], ResComplete = IsComplete rs\<rparr>)"
  by (auto simp: ApplyCompletion_def is_open_def IsComplete_def split: option.splits)

lemma ApplyCompletion_unfold:
  assumes "is_open rs i"
  shows "ApplyCompletion rs i s bs =
    (case skip_branches bs (fst (markTerminal rs i s)) [i] [] of (rs2, seeds, skipped1) \<Rightarrow>
     case advance_loop seeds rs2 [] [] of (rs3, rdy, skipped2) \<Rightarrow>
       (rs3, \<lparr>ResTerminalSequence = seq rs + 1, ResReady = rdy, ResSkipped = skipped1 @ skipped2,
              ResComplete = IsComplete rs3\<rparr>))"
  using assms markTerminal_open(4) [OF assms, of s]
  by (auto simp: ApplyCompletion_def is_open_def IsComplete_def Let_def advanceSuccessors_def
      split: option.splits prod.splits)

text \<open>The three phases of a completion: the task itself, the excluded branches, the propagation.\<close>

lemma ApplyCompletion_phases:
  assumes wf: "topo_wf tp" and inv: "rs_inv tp rs" and st: "settled rs" and op: "is_open rs i"
    and trm: "IsTerminal s" and run: "ApplyCompletion rs i s bs = (rs', res)"
  obtains rs2 sk1 sk2 where
    "ResTerminalSequence res = seq rs + 1" "ResSkipped res = sk1 @ sk2" "ResComplete res = IsComplete rs'"
    "excludes (fst (markTerminal rs i s)) rs2 (map SkTaskID sk1)"
    "set (map SkTaskID sk1) = set bs \<inter> {j. j \<noteq> i \<and> is_open rs j}"
    "advances rs2 rs' (map SkTaskID sk2) (ResReady res)"
    "seq_block (seq rs + 1) (sk1 @ sk2)" "rs_inv tp rs'" "settled rs'"
proof -
  let ?rs1 = "fst (markTerminal rs i s)"
  have inv1: "rs_inv_lag tp (pend tp [] [i]) ?rs1"
    using rs_inv_lag_markTerminal [OF inv [unfolded rs_inv_def] op trm] wf
    by (simp add: pend_def [abs_def] topo_wf_mirror)
  have st1: "settled ?rs1"
    using settled_markTerminal [OF inv [unfolded rs_inv_def] op trm] st by (simp add: settled_def)
  obtain rs2 seeds sk1 where b: "skip_branches bs ?rs1 [i] [] = (rs2, seeds, sk1)"
    using prod_cases3 by blast
  from skip_branches_inv [OF wf inv1 st1 b]
  have b2: "excludes ?rs1 rs2 (map SkTaskID sk1)" "seq_block (seq ?rs1) sk1"
    "set (map SkTaskID sk1) = set bs \<inter> {j. is_open ?rs1 j}"
    "rs_inv_lag tp (pend tp [] seeds) rs2" "settled rs2" by auto
  obtain rs3 rdy sk2 where a: "advance_loop seeds rs2 [] [] = (rs3, rdy, sk2)"
    using prod_cases3 by blast
  from advance_loop_inv [OF wf b2(4,5) a]
  have a2: "advances rs2 rs3 (map SkTaskID sk2) rdy" "seq_block (seq rs2) sk2" "rs_inv tp rs3" "settled rs3"
    by auto
  have "seq_block (seq rs + 1) (sk1 @ sk2)"
    using b2(1,2) a2(2) by (intro seq_block_append) (simp_all add: markTerminal_open [OF op] excludes_def)
  moreover have "rs' = rs3" "ResTerminalSequence res = seq rs + 1" "ResSkipped res = sk1 @ sk2"
    "ResComplete res = IsComplete rs3" "ResReady res = rdy"
    using run by (auto simp: ApplyCompletion_unfold [OF op] b a)
  moreover note a2(1,3,4) b2(1) b2(3) [unfolded is_open_markTerminal [OF op trm]]
  ultimately show thesis by (intro that) simp_all
qed

lemma completion_effect_phases:
  assumes op: "is_open rs i" and trm: "IsTerminal s" and inv: "rs_inv tp rs" "rs_inv tp rs'"
    and res: "ResTerminalSequence res = seq rs + 1" "ResSkipped res = sk1 @ sk2" "ResComplete res = IsComplete rs'"
    and ex: "excludes (fst (markTerminal rs i s)) rs2 (map SkTaskID sk1)"
    and bs: "set (map SkTaskID sk1) = set bs \<inter> {j. j \<noteq> i \<and> is_open rs j}"
    and adv: "advances rs2 rs' (map SkTaskID sk2) (ResReady res)"
    and blk: "seq_block (seq rs + 1) (sk1 @ sk2)"
  shows "completion_effect rs i s bs rs' res"
proof -
  let ?rs1 = "fst (markTerminal rs i s)"
  have op1: "is_open ?rs1 j \<longleftrightarrow> j \<noteq> i \<and> is_open rs j" for j
    by (rule is_open_markTerminal [OF op trm])
  have dj: "is_open rs2 j \<Longrightarrow> j \<notin> SkTaskID ` set sk1 \<and> is_open ?rs1 j" for j
    using ex by (auto simp: excludes_def is_open_status split: if_splits)
  have "distinct (ready rs)" "\<And>j. inReady rs j \<longleftrightarrow> j \<in> set (ready rs)"
    using inv(1) by (auto simp: rs_inv_def inv_defs)
  then have "set (ready ?rs1) = set (ready rs) - {i}" by (simp add: markTerminal_open [OF op])
  then have r3: "set (ready rs') = set (ready rs) - {i} - SkTaskID ` set sk1 \<union> set (ResReady res)"
    "set (ResReady res) \<inter> (set (ready rs) - {i} - SkTaskID ` set sk1) = {}" "distinct (ResReady res)"
    using ex adv by (auto simp: advances_def excludes_def)
  have sk2r: "j \<notin> set (ready rs')" if "j \<in> SkTaskID ` set sk2" for j
  proof -
    have "task_status_of rs' j = Some TaskStatusSkipped" using that adv by (simp add: advances_def)
    moreover have "\<forall>j \<in> set (ready rs'). task_status_of rs' j = Some TaskStatusPending"
      using inv(2) by (simp add: rs_inv_def rs_inv_lag_def queue_ok_def)
    ultimately show ?thesis by auto
  qed
  have sq: "seq rs' = seq rs + 1 + (int (length sk1) + int (length sk2))"
    using ex adv by (simp add: advances_def excludes_def markTerminal_open [OF op])
  have stat: "task_status_of rs' j = (if j = i then Some s
      else if j \<in> SkTaskID ` set sk1 \<union> SkTaskID ` set sk2 then Some TaskStatusSkipped
      else task_status_of rs j)" for j
  proof (cases "j \<in> SkTaskID ` set sk2")
    case True
    then have "is_open rs2 j" using adv by (auto simp: advances_def)
    with True dj [of j] op1 [of j] adv show ?thesis by (simp add: advances_def)
  next
    case False
    then have "task_status_of rs' j = task_status_of rs2 j" using adv by (simp add: advances_def)
    moreover have "i \<notin> SkTaskID ` set sk1" using bs by auto
    ultimately show ?thesis using False ex by (auto simp: excludes_def markTerminal_open [OF op])
  qed
  have opn2: "j \<noteq> i \<and> is_open rs j \<and> j \<notin> SkTaskID ` set sk1" if "j \<in> SkTaskID ` set sk2" for j
    using that adv dj [of j] op1 [of j] by (auto simp: advances_def)
  have opn: "\<forall>j \<in> SkTaskID ` set sk1 \<union> SkTaskID ` set sk2. is_open rs j \<and> (j \<in> set bs \<or> refused rs' j)"
    using opn2 bs adv by (auto simp: advances_def)
  have dist: "distinct (i # map SkTaskID (sk1 @ sk2))"
    using ex adv bs opn2 by (auto simp: advances_def excludes_def)
  have tpo: "topo rs' = topo rs"
    using ex adv by (simp add: advances_def excludes_def markTerminal_open [OF op])
  have sqs: "map SkTerminalSequence (sk1 @ sk2) = [seq rs + 2 .. seq rs']"
    using blk sq by (simp add: seq_block_def add.commute)
  have rd: "set (ready rs') - set (ResReady res) = set (ready rs) - insert i (SkTaskID ` set (sk1 @ sk2))"
    "set (ResReady res) \<subseteq> set (ready rs')"
    using r3(1,2) sk2r by auto
  have brs: "b = i \<or> b \<in> SkTaskID ` set (sk1 @ sk2)" if "b \<in> set bs" "is_open rs b" for b
    using bs that by auto
  show ?thesis
    unfolding completion_effect_def Let_def res set_map
    using stat dist opn tpo sq sqs rd brs r3(3) by (simp add: image_Un)
qed

lemma ApplyCompletion_inv:
  assumes "topo_wf tp" "rs_inv tp rs" "settled rs" "is_open rs i" "IsTerminal s"
    "ApplyCompletion rs i s bs = (rs', res)"
  shows "rs_inv tp rs'" "settled rs'" "completion_effect rs i s bs rs' res"
  by (rule ApplyCompletion_phases [OF assms], assumption)
     (rule ApplyCompletion_phases [OF assms], assumption,
      rule ApplyCompletion_phases [OF assms], rule completion_effect_phases [OF assms(4,5,2)], assumption+)

lemma ApplyCompletion_keeps:
  assumes "topo_wf tp" "rs_inv tp rs" "settled rs" "IsTerminal s"
  shows "rs_inv tp (fst (ApplyCompletion rs i s bs)) \<and> settled (fst (ApplyCompletion rs i s bs))"
proof (cases "is_open rs i")
  case True
  from ApplyCompletion_inv [OF assms(1-3) True assms(4) prod.collapse [symmetric]]
  show ?thesis by simp
next
  case False
  with assms show ?thesis by (simp add: ApplyCompletion_closed)
qed

section \<open>Dispatch and requeue\<close>

definition live :: "run_state \<Rightarrow> uuid \<Rightarrow> bool" where
  "live rs i \<longleftrightarrow> i \<in> set (ready rs) \<or> task_status_of rs i = Some TaskStatusRunning"

text \<open>
  Dispatch and requeue move a live task between the ready queue and the running tasks;
  the counters, the outcomes and hence the rules stay as they are.
\<close>

lemma rs_inv_relabel:
  assumes inv: "rs_inv_lag tp D rs" and live: "live rs i"
    and same: "topo rs' = topo rs" "indegree rs' = indegree rs" "outcomes rs' = outcomes rs"
      "terminalCount rs' = terminalCount rs" "total rs' = total rs"
    and upd: "tasks rs' = AList.update i ts' (tasks rs)"
    and qu: "queue_ok rs'"
    and st: "(Status ts' = TaskStatusPending \<and> set (ready rs') = insert i (set (ready rs)))
       \<or> (Status ts' = TaskStatusRunning \<and> set (ready rs') = set (ready rs) - {i})"
  shows "rs_inv_lag tp D rs'" "settled rs' \<longleftrightarrow> settled rs" "live rs' = live rs" "is_open rs' = is_open rs"
proof -
  have op: "is_open rs i"
    using live queue_ok_pending [OF rs_inv_lagD(5) [OF inv]] by (auto simp: live_def is_open_status)
  then obtain ts where ts: "map_of (tasks rs) i = Some ts" "\<not> IsTerminal (Status ts)"
    by (auto simp: is_open_def2)
  have stat: "task_status_of rs' = (task_status_of rs)(i \<mapsto> Status ts')"
    by (auto simp: task_status_of_def upd fun_eq_iff)
  have new: "Status ts' = TaskStatusPending \<or> Status ts' = TaskStatusRunning" using st by blast
  then have nt: "\<not> IsTerminal (Status ts')" by auto
  show open_eq: "is_open rs' = is_open rs"
    using op nt by (auto simp: is_open_status stat fun_eq_iff)
  then have opp: "open_preds rs' = open_preds rs" by (intro ext) (simp add: open_preds_def same)
  have rule_eq: "rule_holds rs' = rule_holds rs" by (simp add: rule_holds_def fun_eq_iff same)
  show live_eq: "live rs' = live rs"
    using st live by (auto simp: live_def stat fun_eq_iff)
  have "keys_ok tp rs'"
    using inv AList_update_keys_in [OF map_of_in_keys [OF ts(1)], of ts']
    by (auto simp: inv_defs same upd simp flip: set_map)
  moreover have "status_ok rs'" using rs_inv_lagD(2) [OF inv] new by (auto simp: status_ok_def stat)
  moreover have "outcomes_ok rs'"
    using rs_inv_lagD(3) [OF inv] ts nt by (simp add: outcomes_ok_def stat same task_status_of_def)
  moreover have "counts_ok tp rs'"
    using inv nt ts(2) count_vals_update [OF ts(1), of "\<lambda>ts. IsTerminal (Status ts)" ts']
    by (simp add: inv_defs same upd)
  moreover have "degree_ok D rs'"
    using inv by (simp add: rs_inv_lag_def degree_ok_def same opp open_eq)
  moreover have "ready_ok rs'"
  proof -
    have "ready_ok rs" using inv by (simp add: rs_inv_lag_def)
    then show ?thesis
      using live_eq unfolding ready_ok_def live_def fun_eq_iff by (simp add: open_eq same rule_eq)
  qed
  ultimately show "rs_inv_lag tp D rs'" using qu by (simp add: rs_inv_lag_def)
  show "settled rs' \<longleftrightarrow> settled rs" by (simp add: settled_def open_eq same rule_eq)
qed

definition relabels :: "run_topology \<Rightarrow> run_state \<Rightarrow> run_state \<Rightarrow> bool" where
  "relabels tp rs rs' \<longleftrightarrow> rs_inv tp rs' \<and> (settled rs' \<longleftrightarrow> settled rs) \<and> live rs' = live rs
     \<and> is_open rs' = is_open rs \<and> outcomes rs' = outcomes rs \<and> seq rs' = seq rs"

lemma relabels_refl: "rs_inv tp rs \<Longrightarrow> relabels tp rs rs"
  by (simp add: relabels_def)

lemma relabels_trans: "relabels tp rs rs1 \<Longrightarrow> relabels tp rs1 rs2 \<Longrightarrow> relabels tp rs rs2"
  by (simp add: relabels_def)

lemma MarkDispatched_closed: "\<not> is_open rs i \<Longrightarrow> MarkDispatched rs i c a l = rs"
  by (auto simp: MarkDispatched_def is_open_def split: option.splits)

lemma live_open: "rs_inv tp rs \<Longrightarrow> live rs i \<Longrightarrow> is_open rs i"
  using queue_ok_pending [OF rs_inv_lagD(5)] by (auto simp: rs_inv_def live_def is_open_status)

lemma MarkDispatched_live:
  assumes inv: "rs_inv tp rs" and live: "live rs i"
  shows "relabels tp rs (MarkDispatched rs i c a l)"
    "task_status_of (MarkDispatched rs i c a l) = (task_status_of rs)(i \<mapsto> TaskStatusRunning)"
proof -
  let ?rs = "MarkDispatched rs i c a l"
  obtain ts where ts: "map_of (tasks rs) i = Some ts" "\<not> IsTerminal (Status ts)"
    using live_open [OF inv live] by (auto simp: is_open_def2)
  define ts' where "ts' = ts\<lparr>Status := TaskStatusRunning, ClaimedBy := c, Attempt := a, LeaseExpiresAtMs := l\<rparr>"
  have eq: "?rs = removeReady (rs\<lparr>tasks := AList.update i ts' (tasks rs)\<rparr>) i"
    using ts by (simp add: MarkDispatched_def ts'_def)
  have qu0: "queue_ok rs" using inv by (simp add: rs_inv_def rs_inv_lag_def)
  show stat: "task_status_of ?rs = (task_status_of rs)(i \<mapsto> TaskStatusRunning)"
    by (auto simp: eq task_status_of_def ts'_def fun_eq_iff)
  have rdy: "set (ready ?rs) = set (ready rs) - {i}"
    using qu0 by (simp add: eq ready_removeReady queue_ok_def)
  have "distinct (ready ?rs)" "sorted (map (order_of (topo rs)) (ready ?rs))"
    "\<And>j. inReady ?rs j \<longleftrightarrow> j \<in> set (ready ?rs)"
    using qu0 by (simp_all add: eq ready_removeReady inReady_removeReady queue_ok_def sorted_map_remove1)
  then have qu: "queue_ok ?rs"
    using queue_ok_pending [OF qu0] by (simp add: queue_ok_def rdy stat) (simp add: eq)
  note R = rs_inv_relabel [OF inv [unfolded rs_inv_def] live, of ?rs ts']
  have "rs_inv_lag tp (\<lambda>_. 0) ?rs" "settled ?rs \<longleftrightarrow> settled rs" "live ?rs = live rs" "is_open ?rs = is_open rs"
    using R [OF _ _ _ _ _ _ qu] rdy by (simp_all add: eq ts'_def)
  then show "relabels tp rs ?rs"
    by (simp add: relabels_def rs_inv_def eq)
qed

lemma MarkDispatched_inv:
  assumes "rs_inv tp rs" and "is_open rs i \<Longrightarrow> live rs i"
  shows "relabels tp rs (MarkDispatched rs i c a l)"
  using assms MarkDispatched_live(1) relabels_refl
  by (cases "is_open rs i") (auto simp: MarkDispatched_closed)

lemma requeue_one_live:
  assumes inv: "rs_inv tp rs" and live: "live rs i"
  shows "relabels tp rs (requeue_one rs i)"
    "task_status_of (requeue_one rs i) = (task_status_of rs)(i \<mapsto> TaskStatusPending)"
proof -
  let ?rs = "requeue_one rs i"
  obtain ts where ts: "map_of (tasks rs) i = Some ts" "\<not> IsTerminal (Status ts)"
    using live_open [OF inv live] by (auto simp: is_open_def2)
  define ts' where "ts' = ts\<lparr>Status := TaskStatusPending, Attempt := Attempt ts + 1, ClaimedBy := '''', LeaseExpiresAtMs := 0\<rparr>"
  define rs1 where "rs1 = rs\<lparr>tasks := AList.update i ts' (tasks rs)\<rparr>"
  have eq: "?rs = pushReady rs1 i"
    using ts by (simp add: requeue_one_def ts'_def rs1_def)
  have op: "is_open rs1 i" by (simp add: rs1_def is_open_def ts'_def)
  have rs1: "topo rs1 = topo rs" "ready rs1 = ready rs" "inReady rs1 = inReady rs" by (simp_all add: rs1_def)
  have qu0: "queue_ok rs" using inv by (simp add: rs_inv_def rs_inv_lag_def)
  show stat: "task_status_of ?rs = (task_status_of rs)(i \<mapsto> TaskStatusPending)"
    by (auto simp: eq rs1_def task_status_of_def ts'_def fun_eq_iff)
  have rdy: "set (ready ?rs) = insert i (set (ready rs))"
    using qu0 op by (auto simp: eq ready_pushReady rs1 queue_ok_def)
  have "distinct (ready ?rs)" "sorted (map (order_of (topo rs)) (ready ?rs))"
    "\<And>j. inReady ?rs j \<longleftrightarrow> j \<in> set (ready ?rs)"
    using qu0 op by (auto simp: eq ready_pushReady inReady_pushReady rs1 queue_ok_def)
  then have qu: "queue_ok ?rs"
    using queue_ok_pending [OF qu0] by (simp add: queue_ok_def rdy stat) (simp add: eq rs1)
  note R = rs_inv_relabel [OF inv [unfolded rs_inv_def] live, of ?rs ts']
  have "rs_inv_lag tp (\<lambda>_. 0) ?rs" "settled ?rs \<longleftrightarrow> settled rs" "live ?rs = live rs" "is_open ?rs = is_open rs"
    using R [OF _ _ _ _ _ _ qu] rdy by (simp_all add: eq ts'_def rs1_def)
  then show "relabels tp rs ?rs"
    by (simp add: relabels_def rs_inv_def eq rs1_def)
qed

lemma foldl_requeue:
  assumes "rs_inv tp rs" "\<forall>i \<in> set is. live rs i"
  shows "relabels tp rs (foldl requeue_one rs is)
    \<and> (\<forall>j. task_status_of (foldl requeue_one rs is) j
         = (if j \<in> set is then Some TaskStatusPending else task_status_of rs j))"
  using assms
proof (induction "is" arbitrary: rs)
  case Nil
  then show ?case by (simp add: relabels_refl)
next
  case (Cons i "is")
  have 1: "relabels tp rs (requeue_one rs i)"
    "task_status_of (requeue_one rs i) = (task_status_of rs)(i \<mapsto> TaskStatusPending)"
    using requeue_one_live Cons.prems by simp_all
  then have "relabels tp (requeue_one rs i) (foldl requeue_one (requeue_one rs i) is)
    \<and> (\<forall>j. task_status_of (foldl requeue_one (requeue_one rs i) is) j
         = (if j \<in> set is then Some TaskStatusPending else task_status_of (requeue_one rs i) j))"
    using Cons.prems by (intro Cons.IH) (auto simp: relabels_def)
  with 1 show ?case using relabels_trans [OF 1(1)] by auto
qed

lemma set_RunningTasks:
  assumes "keys_ok tp rs"
  shows "set (RunningTasks rs) = {i. task_status_of rs i = Some TaskStatusRunning}"
proof -
  have "distinct (map fst (tasks rs))" using assms by (simp add: keys_ok_def)
  then have "map_of (tasks rs) i = Some ts \<longleftrightarrow> (i, ts) \<in> set (tasks rs)" for i ts
    by (simp add: map_of_eq_Some_iff)
  then show ?thesis by (force simp: RunningTasks_def task_status_of_def)
qed

text \<open>Requeueing leaves no task running, puts all live tasks in the ready queue and changes nothing else.\<close>

lemma requeueRunning_inv:
  assumes "rs_inv tp rs" "requeueRunning rs = (rs', out)"
  shows "relabels tp rs rs'" "\<And>j. task_status_of rs' j \<noteq> Some TaskStatusRunning"
    "set (ready rs') = {i. live rs i}" "set out = {i. task_status_of rs i = Some TaskStatusRunning}"
proof -
  have out: "out = RunningTasks rs" "rs' = foldl requeue_one rs (RunningTasks rs)"
    using assms(2) by (auto simp: requeueRunning_def Let_def)
  show run: "set out = {i. task_status_of rs i = Some TaskStatusRunning}"
    using set_RunningTasks assms(1) out by (auto simp: rs_inv_def rs_inv_lag_def)
  have f: "relabels tp rs rs' \<and> (\<forall>j. task_status_of rs' j
         = (if j \<in> set out then Some TaskStatusPending else task_status_of rs j))"
    unfolding out(2) out(1) [symmetric]
    by (rule foldl_requeue [OF assms(1)]) (simp add: run live_def)
  then show "relabels tp rs rs'" by simp
  show nr: "task_status_of rs' j \<noteq> Some TaskStatusRunning" for j
    using f run by simp
  show "set (ready rs') = {i. live rs i}"
    using f nr by (auto simp: relabels_def live_def fun_eq_iff)
qed

section \<open>Construction\<close>

definition fresh_task :: owner_task_state where
  "fresh_task = \<lparr>Status = TaskStatusPending, Attempt = 1, ClaimedBy = '''', LeaseExpiresAtMs = 0\<rparr>"

lemma AList_update_fresh: "k \<notin> fst ` set al \<Longrightarrow> AList.update k v al = al @ [(k, v)]"
  by (induction al) auto

lemma CollectPredecessorStatuses_empty [simp]: "CollectPredecessorStatuses ps Map.empty = []"
  by (induction ps) auto

lemma map_of_const: "map_of (map (\<lambda>i. (i, c)) ks) i = (if i \<in> set ks then Some c else None)"
  by (induction ks) auto

lemma foldl_new_task:
  assumes "distinct ks" "set ks \<inter> fst ` set (tasks rs) = {}"
  shows "foldl (new_task tp) rs ks = rs\<lparr>
    tasks := tasks rs @ map (\<lambda>i. (i, fresh_task)) ks,
    indegree := (\<lambda>i. if i \<in> set ks then int (length (Predecessors tp i)) else indegree rs i),
    total := total rs + int (length ks)\<rparr>"
  using assms
proof (induction ks arbitrary: rs)
  case Nil
  then show ?case by simp
next
  case (Cons k ks)
  have n: "new_task tp rs k = rs\<lparr>tasks := tasks rs @ [(k, fresh_task)],
      indegree := (indegree rs)(k := int (length (Predecessors tp k))), total := total rs + 1\<rparr>"
    using Cons.prems by (simp add: new_task_def AList_update_fresh fresh_task_def)
  have "foldl (new_task tp) (new_task tp rs k) ks = (new_task tp rs k)\<lparr>
    tasks := tasks (new_task tp rs k) @ map (\<lambda>i. (i, fresh_task)) ks,
    indegree := (\<lambda>i. if i \<in> set ks then int (length (Predecessors tp i)) else indegree (new_task tp rs k) i),
    total := total (new_task tp rs k) + int (length ks)\<rparr>"
    using Cons.prems by (intro Cons.IH) (auto simp: n)
  then show ?case using Cons.prems by (auto simp: n fun_eq_iff)
qed

lemma foldl_seed_ready:
  assumes "queue_ok rs" "\<forall>i \<in> set ks. task_status_of rs i = Some TaskStatusPending"
  shows "\<exists>r f. foldl seed_ready rs ks = rs\<lparr>ready := r, inReady := f\<rparr> \<and> queue_ok (foldl seed_ready rs ks)
    \<and> set r = set (ready rs) \<union> {i \<in> set ks. indegree rs i = 0}"
  using assms
proof (induction ks arbitrary: rs)
  case Nil
  then show ?case by (intro exI [of _ "ready rs"] exI [of _ "inReady rs"]) simp
next
  case (Cons k ks)
  let ?rs = "seed_ready rs k"
  have op: "is_open rs k" using Cons.prems by (simp add: is_open_status)
  have eq: "?rs = rs\<lparr>ready := ready ?rs, inReady := inReady ?rs\<rparr>"
    by (simp add: seed_ready_def pushReady_def split: option.splits)
  have r: "set (ready ?rs) = set (ready rs) \<union> (if indegree rs k = 0 then {k} else {})"
    using Cons.prems op by (auto simp: seed_ready_def ready_pushReady queue_ok_def)
  have stat: "task_status_of ?rs = task_status_of rs" by (simp add: seed_ready_def)
  have "queue_ok ?rs"
    using Cons.prems op by (auto simp: seed_ready_def queue_ok_def ready_pushReady inReady_pushReady)
  with Cons.IH [of ?rs] Cons.prems
  obtain r' f' where "foldl seed_ready ?rs ks = ?rs\<lparr>ready := r', inReady := f'\<rparr>"
    "queue_ok (foldl seed_ready ?rs ks)" "set r' = set (ready ?rs) \<union> {i \<in> set ks. indegree ?rs i = 0}"
    by (auto simp: stat)
  moreover have "?rs\<lparr>ready := r', inReady := f'\<rparr> = rs\<lparr>ready := r', inReady := f'\<rparr>"
    by (subst eq) simp
  moreover have "indegree ?rs = indegree rs" by (simp add: seed_ready_def)
  ultimately show ?case using r by (intro exI [of _ r'] exI [of _ f']) auto
qed

lemma NewRunState_shape:
  assumes "topo_wf tp"
  obtains r f where "NewRunState tp n = \<lparr>topo = tp, tasks = map (\<lambda>i. (i, fresh_task)) (map fst (Order tp)),
      indegree = (\<lambda>i. if i \<in> topo_keys tp then int (length (Predecessors tp i)) else 0),
      outcomes = [], ready = r, inReady = f, seq = n, terminalCount = 0, total = int (length (Order tp))\<rparr>"
    "queue_ok (NewRunState tp n)" "set r = {i \<in> topo_keys tp. Predecessors tp i = []}"
proof -
  define rs0 where "rs0 = \<lparr>topo = tp, tasks = [], indegree = (\<lambda>_. 0), outcomes = [], ready = [],
                 inReady = (\<lambda>_. False), seq = n, terminalCount = 0, total = 0\<rparr>"
  define rs1 where "rs1 = foldl (new_task tp) rs0 (map fst (Order tp))"
  have eq: "NewRunState tp n = foldl seed_ready rs1 (map fst (tasks rs1))"
    by (simp add: NewRunState_def Let_def rs0_def rs1_def)
  have rs1: "rs1 = rs0\<lparr>tasks := map (\<lambda>i. (i, fresh_task)) (map fst (Order tp)),
      indegree := (\<lambda>i. if i \<in> topo_keys tp then int (length (Predecessors tp i)) else 0),
      total := int (length (Order tp))\<rparr>"
    using assms unfolding rs1_def by (subst foldl_new_task) (simp_all add: rs0_def topo_wf_def topo_keys_def cong: if_cong)
  have keys: "map fst (tasks rs1) = map fst (Order tp)" by (simp add: rs1 comp_def)
  have pend: "\<forall>i \<in> set (map fst (Order tp)). task_status_of rs1 i = Some TaskStatusPending"
    by (simp add: rs1 task_status_of_def map_of_const fresh_task_def del: map_map)
  have "queue_ok rs1" by (simp add: rs1 rs0_def queue_ok_def)
  from foldl_seed_ready [OF this pend]
  obtain r f where rf: "NewRunState tp n = rs1\<lparr>ready := r, inReady := f\<rparr>" "queue_ok (NewRunState tp n)"
    "set r = set (ready rs1) \<union> {i \<in> set (map fst (Order tp)). indegree rs1 i = 0}"
    unfolding eq keys by blast
  have "set r = {i \<in> topo_keys tp. Predecessors tp i = []}"
    unfolding rf(3) by (auto simp: rs1 rs0_def topo_keys_def)
  with rf(1,2) show thesis by (intro that [of r f]) (simp_all add: rs1 rs0_def)
qed

lemma NewRunState_inv:
  assumes wf: "topo_wf tp"
  shows "rs_inv tp (NewRunState tp n)" "settled (NewRunState tp n)"
    "\<And>i. task_status_of (NewRunState tp n) i = (if i \<in> topo_keys tp then Some TaskStatusPending else None)"
    "outcomes (NewRunState tp n) = []" "seq (NewRunState tp n) = n" "topo (NewRunState tp n) = tp"
proof -
  obtain r f where eq: "NewRunState tp n = \<lparr>topo = tp, tasks = map (\<lambda>i. (i, fresh_task)) (map fst (Order tp)),
      indegree = (\<lambda>i. if i \<in> topo_keys tp then int (length (Predecessors tp i)) else 0),
      outcomes = [], ready = r, inReady = f, seq = n, terminalCount = 0, total = int (length (Order tp))\<rparr>"
    and qu: "queue_ok (NewRunState tp n)" and r: "set r = {i \<in> topo_keys tp. Predecessors tp i = []}"
    using NewRunState_shape [OF wf] by blast
  let ?rs = "NewRunState tp n"
  show stat: "task_status_of ?rs i = (if i \<in> topo_keys tp then Some TaskStatusPending else None)" for i
    by (simp add: eq task_status_of_def map_of_const fresh_task_def topo_keys_def del: map_map)
  show "outcomes ?rs = []" "seq ?rs = n" "topo ?rs = tp" by (simp_all add: eq)
  have op: "is_open ?rs i \<longleftrightarrow> i \<in> topo_keys tp" for i by (simp add: is_open_status stat)
  have preds: "set (Predecessors tp i) \<subseteq> topo_keys tp" for i using wf by (simp add: topo_wf_def)
  have opp: "open_preds ?rs i = length (Predecessors tp i)" for i
    using preds [of i] by (auto simp: open_preds_def op eq [THEN arg_cong [where f = topo]] intro!: arg_cong [where f = length] filter_True)
  have rule: "rule_holds ?rs i" for i
    by (simp add: rule_holds_def eq)
  have "keys_ok tp ?rs"
    using wf by (auto simp: keys_ok_def eq topo_wf_def topo_keys_def comp_def image_image)
  moreover have "status_ok ?rs" by (auto simp: status_ok_def stat)
  moreover have "outcomes_ok ?rs" by (simp add: outcomes_ok_def stat) (simp add: eq)
  moreover have "counts_ok tp ?rs" by (simp add: counts_ok_def eq count_vals_zero fresh_task_def)
  moreover have "degree_ok (\<lambda>_. 0) ?rs" by (simp add: degree_ok_def op opp) (simp add: eq)
  moreover have "ready_ok ?rs"
    by (simp add: ready_ok_def op stat rule) (simp add: eq r)
  ultimately show "rs_inv tp ?rs" using qu by (simp add: rs_inv_def rs_inv_lag_def)
  show "settled ?rs" by (simp add: settled_def rule)
qed

section \<open>Replay of a stored terminal row\<close>

lemma rs_inv_lag_seq [simp]: "rs_inv_lag tp D (rs\<lparr>seq := n\<rparr>) \<longleftrightarrow> rs_inv_lag tp D rs"
proof -
  have "task_status_of (rs\<lparr>seq := n\<rparr>) = task_status_of rs" "is_open (rs\<lparr>seq := n\<rparr>) = is_open rs"
    by (simp_all add: task_status_of_def is_open_def fun_eq_iff)
  then show ?thesis
    by (simp add: inv_defs open_preds_def rule_holds_def)
qed

lemma replay_succs_closed: "\<not> is_open rs i \<Longrightarrow> replay_succs (i # rest) rs rdy = replay_succs rest rs rdy"
  by (auto simp: is_open_def split: option.splits)

lemma replay_succs_dec:
  "is_open rs i \<Longrightarrow> 0 < indegree rs i \<Longrightarrow> indegree rs i \<noteq> 1 \<or> \<not> rule_holds rs i \<Longrightarrow>
     replay_succs (i # rest) rs rdy = replay_succs rest (dec_indegree rs i) rdy"
  by (auto simp: is_open_def Let_def dec_indegree_def rule_holds_def split: option.splits)

lemma replay_succs_ready:
  "is_open rs i \<Longrightarrow> indegree rs i = 1 \<Longrightarrow> rule_holds rs i \<Longrightarrow>
     replay_succs (i # rest) rs rdy = replay_succs rest (pushReady (dec_indegree rs i) i) (rdy @ [i])"
  by (auto simp: is_open_def dec_indegree_def rule_holds_def split: option.splits)

declare replay_succs.simps(2) [simp del]

lemma replay_succs_inv:
  assumes "rs_inv_lag tp (pend tp ss []) rs" "replay_succs ss rs rdy = (rs', rdy')"
  shows "rs_inv tp rs' \<and> task_status_of rs' = task_status_of rs \<and> outcomes rs' = outcomes rs \<and> seq rs' = seq rs"
  using assms
proof (induction ss arbitrary: rs rdy)
  case Nil
  then show ?case by (auto simp: rs_inv_def pend_def [abs_def])
next
  case (Cons i rest)
  note inv = Cons.prems(1) and run = Cons.prems(2)
  show ?case
  proof (cases "is_open rs i")
    case False
    have "rs_inv_lag tp (pend tp rest []) rs"
      by (rule iffD1 [OF rs_inv_lag_cong inv]) (use False in \<open>auto simp: pend_Cons\<close>)
    from Cons.IH [OF this] run show ?thesis by (simp add: replay_succs_closed [OF False])
  next
    case op: True
    have D: "pend tp (i # rest) [] i = Suc (pend tp rest [] i)"
      "\<And>j. j \<noteq> i \<Longrightarrow> pend tp (i # rest) [] j = pend tp rest [] j" by (simp_all add: pend_Cons)
    note lp = lag_positive [OF inv op, unfolded D(1), OF zero_less_Suc]
    show ?thesis
    proof (cases "indegree rs i = 1 \<and> rule_holds rs i")
      case True
      then have "rs_inv_lag tp (pend tp rest []) (pushReady (dec_indegree rs i) i)"
        using rs_inv_lag_dec_push [OF inv op, of "pend tp rest []"] D by simp
      from Cons.IH [OF this] run True op show ?thesis by (simp add: replay_succs_ready)
    next
      case False
      then have "rs_inv_lag tp (pend tp rest []) (dec_indegree rs i)"
        using rs_inv_lag_dec [OF inv op, of "pend tp rest []"] D by simp
      from Cons.IH [OF this] run False op lp(1) show ?thesis by (simp add: replay_succs_dec)
    qed
  qed
qed

text \<open>
  Replaying the row of a task that is not yet terminal: the task takes the stored status,
  no other status changes, and the sequence counter is at least the stored number.
\<close>

lemma ApplyTerminalRow_open:
  assumes wf: "topo_wf tp" and inv: "rs_inv tp rs" and op: "is_open rs i" and trm: "IsTerminal s"
    and run: "ApplyTerminalRow rs i s n = (rs', rdy)"
  shows "rs_inv tp rs'" "task_status_of rs' = (task_status_of rs)(i \<mapsto> s)" "seq rs' = max (seq rs) n"
    "map_of (outcomes rs') = (map_of (outcomes rs))(i \<mapsto> s)"
proof -
  define m where "m = max (seq rs) n"
  define rs0 where "rs0 = (fst (markTerminal rs i s))\<lparr>seq := m\<rparr>"
  have tp: "topo rs = tp" using inv by (simp add: rs_inv_def inv_defs)
  have "ApplyTerminalRow rs i s n = replay_succs (Adjacency tp i) rs0 []"
    using op tp by (auto simp: ApplyTerminalRow_def is_open_def2 rs0_def m_def markTerminal_def Let_def
        removeReady_def max_def intro!: arg_cong [where f = "\<lambda>r. replay_succs _ r []"] run_state.equality)
  with run have run0: "replay_succs (Adjacency tp i) rs0 [] = (rs', rdy)" by simp
  have "rs_inv_lag tp (pend tp (Adjacency tp i) []) rs0"
    using rs_inv_lag_markTerminal [OF inv [unfolded rs_inv_def] op trm] wf
    by (simp add: rs0_def pend_def [abs_def] topo_wf_mirror)
  note R = replay_succs_inv [OF this run0]
  have st0: "task_status_of rs0 = (task_status_of rs)(i \<mapsto> s)"
    using markTerminal_open(10) [OF op, of s] by (simp add: rs0_def task_status_of_def fun_eq_iff)
  from R st0 show "rs_inv tp rs'" "task_status_of rs' = (task_status_of rs)(i \<mapsto> s)" by simp_all
  from R show "seq rs' = max (seq rs) n" by (simp add: rs0_def m_def)
  from R show "map_of (outcomes rs') = (map_of (outcomes rs))(i \<mapsto> s)"
    by (simp add: rs0_def markTerminal_open [OF op])
qed

end
