(* ===== verification/Run_State_Progress.thy ===== *)
theory Run_State_Progress
  imports Run_State_Ops
begin

text \<open>
  The run owner's state machine as a transition system. A step is a dispatch, a worker's
  completion of a live task, a repeated or late message for a task that is already terminal,
  or the requeue of running tasks. Workers' results are given by \<open>w\<close> (the reported status of
  each task) and \<open>excl\<close> (the successors its branch decision excludes), so that two different
  schedules of the same run can be compared.
\<close>

section \<open>The transition system\<close>

inductive run_step ::
    "(uuid \<Rightarrow> task_status) \<Rightarrow> (uuid \<Rightarrow> uuid list) \<Rightarrow> run_state \<Rightarrow> run_state \<Rightarrow> bool" for w excl where
  dispatch: "i \<in> set (ready rs) \<Longrightarrow> run_step w excl rs (MarkDispatched rs i node att lease)"
| complete: "live rs i \<Longrightarrow> ApplyCompletion rs i (w i) (excl i) = (rs', res) \<Longrightarrow> run_step w excl rs rs'"
| repeated: "\<not> is_open rs i \<Longrightarrow> ApplyCompletion rs i s bs = (rs', res) \<Longrightarrow> run_step w excl rs rs'"
| late: "\<not> is_open rs i \<Longrightarrow> run_step w excl rs (MarkDispatched rs i node att lease)"
| requeue: "requeueRunning rs = (rs', out) \<Longrightarrow> run_step w excl rs rs'"

text \<open>
  What a worker may report (\<open>ValidCompleteStatuses\<close>) and what a branch decision may exclude
  (of the tasks of the run, \<open>ResolveBranchSkips\<close> returns successors of the task only).
\<close>

definition results_ok :: "run_topology \<Rightarrow> (uuid \<Rightarrow> task_status) \<Rightarrow> (uuid \<Rightarrow> uuid list) \<Rightarrow> bool" where
  "results_ok tp w excl \<longleftrightarrow>
     (\<forall>i. w i \<in> {TaskStatusSucceeded, TaskStatusFailed, TaskStatusCached})
     \<and> (\<forall>i. set (excl i) \<inter> topo_keys tp \<subseteq> set (Adjacency tp i))"

lemma results_ok_terminal:
  assumes "results_ok tp w excl"
  shows "IsTerminal (w i)" "w i \<noteq> TaskStatusSkipped"
proof -
  have "w i = TaskStatusSucceeded \<or> w i = TaskStatusFailed \<or> w i = TaskStatusCached"
    using assms by (simp add: results_ok_def)
  then show "IsTerminal (w i)" "w i \<noteq> TaskStatusSkipped" by auto
qed

section \<open>Why a task has its status\<close>

definition excluded :: "(uuid \<Rightarrow> uuid list) \<Rightarrow> run_state \<Rightarrow> uuid \<Rightarrow> bool" where
  "excluded excl rs i \<longleftrightarrow> (\<exists>p s. i \<in> set (excl p) \<and> p \<in> set (Predecessors (topo rs) i)
     \<and> task_status_of rs p = Some s \<and> IsTerminal s \<and> s \<noteq> TaskStatusSkipped)"

text \<open>
  The justification of every status: a skipped task was excluded by a branch decision or
  refused by its rule; any other terminal task has the status its worker reported, after all
  its predecessors were done and satisfied its rule; an open task is not excluded.
\<close>

definition justified :: "(uuid \<Rightarrow> task_status) \<Rightarrow> (uuid \<Rightarrow> uuid list) \<Rightarrow> run_state \<Rightarrow> bool" where
  "justified w excl rs \<longleftrightarrow> (\<forall>i s. task_status_of rs i = Some s \<longrightarrow>
     (if IsTerminal s then
        (if s = TaskStatusSkipped then excluded excl rs i \<or> refused rs i
         else s = w i \<and> preds_done rs i \<and> pred_rule rs i \<and> \<not> excluded excl rs i)
      else \<not> excluded excl rs i))"

lemma excluded_extends: "extends rs rs' \<Longrightarrow> excluded excl rs i \<Longrightarrow> excluded excl rs' i"
  unfolding excluded_def extends_def is_open_status by fastforce

lemma excluded_extends_done:
  assumes "extends rs rs'" "preds_done rs i"
  shows "excluded excl rs' i \<longleftrightarrow> excluded excl rs i"
proof
  assume "excluded excl rs' i"
  then obtain p s where p: "i \<in> set (excl p)" "p \<in> set (Predecessors (topo rs) i)"
    "task_status_of rs' p = Some s" "IsTerminal s" "s \<noteq> TaskStatusSkipped"
    using assms(1) by (auto simp: excluded_def extends_def)
  moreover have "task_status_of rs p = Some s"
    using p assms by (auto simp: preds_done_def extends_def)
  ultimately show "excluded excl rs i" by (auto simp: excluded_def)
qed (rule excluded_extends [OF assms(1)])

lemma rs_inv_indegree:
  "rs_inv tp rs \<Longrightarrow> is_open rs i \<Longrightarrow> indegree rs i = 0 \<longleftrightarrow> preds_done rs i"
  using indegree_zero_preds_done [of "\<lambda>_. 0" rs i] by (simp add: rs_inv_def rs_inv_lag_def)

lemma live_iff:
  assumes "rs_inv tp rs" "is_open rs i"
  shows "live rs i \<longleftrightarrow> preds_done rs i \<and> pred_rule rs i"
  using assms rs_inv_indegree [OF assms] rule_holds_preds_done [of rs i]
  by (auto simp: rs_inv_def rs_inv_lag_def ready_ok_def live_def)

lemma completion_extends:
  "completion_effect rs i s bs rs' res \<Longrightarrow> is_open rs i \<Longrightarrow> extends rs rs'"
  by (auto simp: completion_effect_def Let_def extends_def)

lemma excluded_completion:
  assumes inv: "rs_inv tp rs" and live: "live rs i"
    and eff: "completion_effect rs i (w i) (excl i) rs' res"
    and j: "is_open rs j" and ex: "excluded excl rs' j" "\<not> excluded excl rs j"
  shows "j \<in> SkTaskID ` set (ResSkipped res)"
proof -
  have op: "is_open rs i" by (rule live_open [OF inv live])
  have ext: "extends rs rs'" by (rule completion_extends [OF eff op])
  obtain p s where p: "j \<in> set (excl p)" "p \<in> set (Predecessors (topo rs) j)"
    "task_status_of rs' p = Some s" "IsTerminal s" "s \<noteq> TaskStatusSkipped"
    using ex(1) ext by (auto simp: excluded_def extends_def)
  have "p = i"
    using p ex(2) eff by (auto simp: excluded_def completion_effect_def Let_def split: if_splits)
  have "\<not> preds_done rs j" using excluded_extends_done [OF ext] ex by blast
  with live live_iff [OF inv, of i] op have "j \<noteq> i" by auto
  with eff j p(1) \<open>p = i\<close> show ?thesis by (auto simp: completion_effect_def Let_def)
qed

lemma justified_completion:
  assumes wf: "topo_wf tp" and ok: "results_ok tp w excl" and inv: "rs_inv tp rs"
    and jus: "justified w excl rs" and live: "live rs i"
    and eff: "completion_effect rs i (w i) (excl i) rs' res"
  shows "justified w excl rs'"
  unfolding justified_def
proof (intro allI impI)
  fix j s assume st: "task_status_of rs' j = Some s"
  let ?ids = "SkTaskID ` set (ResSkipped res)"
  have op: "is_open rs i" by (rule live_open [OF inv live])
  have ext: "extends rs rs'" by (rule completion_extends [OF eff op])
  have tp: "topo rs = tp" "topo rs' = tp"
    using inv ext by (simp_all add: rs_inv_def inv_defs extends_def)
  have st': "task_status_of rs' j = (if j = i then Some (w i) else if j \<in> ?ids
      then Some TaskStatusSkipped else task_status_of rs j)"
    and ids: "j \<in> ?ids \<Longrightarrow> is_open rs j \<and> (j \<in> set (excl i) \<or> refused rs' j)" and ni: "i \<notin> ?ids"
    using completion_effectD [OF eff] by blast+
  have jus': "task_status_of rs j = Some s \<Longrightarrow> (if IsTerminal s then
        (if s = TaskStatusSkipped then excluded excl rs j \<or> refused rs j
         else s = w j \<and> preds_done rs j \<and> pred_rule rs j \<and> \<not> excluded excl rs j)
      else \<not> excluded excl rs j)" for s
    using jus by (simp add: justified_def)
  have ie: "\<not> excluded excl rs i"
    using jus op by (auto simp: justified_def is_open_status)
  have ld: "preds_done rs i" "pred_rule rs i" using live_iff [OF inv op] live by simp_all
  note tm = results_ok_terminal [OF ok]
  consider "j = i" | "j \<noteq> i" "j \<in> ?ids" | "j \<noteq> i" "j \<notin> ?ids" by blast
  then show "if IsTerminal s then
        (if s = TaskStatusSkipped then excluded excl rs' j \<or> refused rs' j
         else s = w j \<and> preds_done rs' j \<and> pred_rule rs' j \<and> \<not> excluded excl rs' j)
      else \<not> excluded excl rs' j"
  proof cases
    case 1
    with st st' ie ld tm [of i] ext show ?thesis
      by (simp add: extends_preds excluded_extends_done)
  next
    case 2
    have "excluded excl rs' j" if "j \<in> set (excl i)"
    proof -
      have "task_status_of rs j \<noteq> None" using ids [OF 2(2)] by (auto simp: is_open_status)
      then have "j \<in> topo_keys tp"
        using inv map_of_eq_None_iff [of "tasks rs" j]
        by (auto simp: rs_inv_def rs_inv_lag_def keys_ok_def task_status_of_def)
      then have "j \<in> set (Adjacency tp i)" using ok that by (auto simp: results_ok_def)
      then have "i \<in> set (Predecessors tp j)" by (simp add: topo_wf_pred_iff [OF wf])
      moreover have "task_status_of rs' i = Some (w i)"
        using eff by (simp add: completion_effect_def Let_def)
      ultimately show ?thesis using that tm [of i] unfolding excluded_def tp by blast
    qed
    with 2 st st' ids show ?thesis by auto
  next
    case 3
    then have same: "task_status_of rs j = Some s" using st st' by simp
    have "is_open rs j \<Longrightarrow> \<not> excluded excl rs j \<Longrightarrow> \<not> excluded excl rs' j"
      using excluded_completion [OF inv live, of w excl rs' res j] eff 3 by blast
    with jus' [OF same] same ext show ?thesis
      by (auto simp: is_open_status extends_preds excluded_extends_done refused_stable
          dest: excluded_extends split: if_splits)
  qed
qed

section \<open>Reachable states\<close>

definition engine_inv ::
    "run_topology \<Rightarrow> (uuid \<Rightarrow> task_status) \<Rightarrow> (uuid \<Rightarrow> uuid list) \<Rightarrow> run_state \<Rightarrow> bool" where
  "engine_inv tp w excl rs \<longleftrightarrow> topo_wf tp \<and> results_ok tp w excl \<and> rs_inv tp rs \<and> settled rs
     \<and> justified w excl rs"

definition engine_start ::
    "run_topology \<Rightarrow> (uuid \<Rightarrow> task_status) \<Rightarrow> (uuid \<Rightarrow> uuid list) \<Rightarrow> run_state \<Rightarrow> bool" where
  "engine_start tp w excl rs \<longleftrightarrow> topo_wf tp \<and> results_ok tp w excl \<and> (\<exists>n. rs = NewRunState tp n)"

lemma relabels_extends:
  assumes "rs_inv tp rs" "relabels tp rs rs'"
  shows "extends rs rs'" "\<And>i s. IsTerminal s \<Longrightarrow> task_status_of rs' i = Some s \<longleftrightarrow> task_status_of rs i = Some s"
    "\<And>i. task_status_of rs' i = None \<longleftrightarrow> task_status_of rs i = None"
proof -
  have oc: "outcomes_ok rs" "outcomes_ok rs'" and oe: "outcomes rs' = outcomes rs"
    and op: "is_open rs' = is_open rs" and tp: "topo rs' = topo rs"
    using assms by (simp_all add: relabels_def rs_inv_def rs_inv_lag_def keys_ok_def)
  show t: "IsTerminal s \<Longrightarrow> task_status_of rs' i = Some s \<longleftrightarrow> task_status_of rs i = Some s" for i s
  proof -
    assume s: "IsTerminal s"
    have "map_of (outcomes r) i = Some s \<longleftrightarrow> task_status_of r i = Some s" if "outcomes_ok r" for r
      using that s by (auto simp: outcomes_ok_def split: option.splits)
    with oc oe show "task_status_of rs' i = Some s \<longleftrightarrow> task_status_of rs i = Some s" by metis
  qed
  have n: "task_status_of r i = None \<longleftrightarrow> i \<notin> topo_keys tp" if "keys_ok tp r" for r i
    using that map_of_eq_None_iff [of "tasks r" i] by (auto simp: task_status_of_def keys_ok_def)
  then show none: "task_status_of rs' i = None \<longleftrightarrow> task_status_of rs i = None" for i
    using assms by (simp add: relabels_def rs_inv_def rs_inv_lag_def)
  show "extends rs rs'"
    unfolding extends_def
  proof (intro conjI allI impI tp)
    fix i assume "\<not> is_open rs i"
    then show "task_status_of rs' i = task_status_of rs i"
      using t [of "the (task_status_of rs i)" i] none [of i]
      by (cases "task_status_of rs i") (auto simp: is_open_status)
  qed
qed

lemma justified_relabels:
  assumes inv: "rs_inv tp rs" and rel: "relabels tp rs rs'" and jus: "justified w excl rs"
  shows "justified w excl rs'"
proof -
  note X = relabels_extends [OF inv rel]
  have op: "is_open rs' = is_open rs" and tp: "topo rs' = topo rs"
    using rel X(1) by (simp_all add: relabels_def extends_def)
  have ex: "excluded excl rs' i \<longleftrightarrow> excluded excl rs i" for i
    using X(2) unfolding excluded_def tp by blast
  have pd: "preds_done rs' i \<longleftrightarrow> preds_done rs i" for i by (simp add: preds_done_def op tp)
  have rl: "preds_done rs i \<Longrightarrow> pred_rule rs' i \<longleftrightarrow> pred_rule rs i" for i
    by (rule extends_preds [OF X(1)])
  have rf: "refused rs' i \<longleftrightarrow> refused rs i" for i using rl [of i] by (auto simp: refused_def pd)
  show ?thesis unfolding justified_def ex pd rf
  proof (intro allI impI)
    fix i s assume st: "task_status_of rs' i = Some s"
    show "if IsTerminal s then if s = TaskStatusSkipped then excluded excl rs i \<or> refused rs i
             else s = w i \<and> preds_done rs i \<and> pred_rule rs' i \<and> \<not> excluded excl rs i
          else \<not> excluded excl rs i"
    proof (cases "IsTerminal s")
      case True
      with X(2) st have "task_status_of rs i = Some s" by blast
      with jus True rl [of i] show ?thesis by (auto simp: justified_def)
    next
      case False
      with st op have "is_open rs i" by (auto simp: is_open_status fun_eq_iff)
      with jus False show ?thesis by (auto simp: justified_def is_open_status)
    qed
  qed
qed

lemma engine_inv_relabels:
  assumes "engine_inv tp w excl rs" "relabels tp rs rs'"
  shows "engine_inv tp w excl rs'"
  using assms justified_relabels [of tp rs rs' w excl] by (auto simp: engine_inv_def relabels_def)

lemma engine_inv_complete:
  assumes inv: "engine_inv tp w excl rs" and live: "live rs i"
    and run: "ApplyCompletion rs i (w i) (excl i) = (rs', res)"
  shows "engine_inv tp w excl rs'" "completion_effect rs i (w i) (excl i) rs' res"
proof -
  have *: "topo_wf tp" "results_ok tp w excl" "rs_inv tp rs" "settled rs" "justified w excl rs"
    using inv by (simp_all add: engine_inv_def)
  note A = ApplyCompletion_inv [OF *(1,3,4) live_open [OF *(3) live] results_ok_terminal(1) [OF *(2)] run]
  from A(3) show "completion_effect rs i (w i) (excl i) rs' res" .
  from A * justified_completion [OF *(1,2,3,5) live A(3)] show "engine_inv tp w excl rs'"
    by (simp add: engine_inv_def)
qed

lemma engine_step_inv:
  assumes "engine_inv tp w excl rs" "run_step w excl rs rs'"
  shows "engine_inv tp w excl rs'"
  using assms(2,1)
proof (cases rule: run_step.cases)
  case (dispatch i node att lease)
  have "relabels tp rs rs'"
    unfolding dispatch(1) by (rule MarkDispatched_live) (use assms(1) dispatch(2) in \<open>auto simp: live_def engine_inv_def\<close>)
  then show ?thesis by (rule engine_inv_relabels [OF assms(1)])
next
  case (complete i res)
  then show ?thesis using engine_inv_complete(1) [OF assms(1)] by blast
next
  case (repeated i s bs res)
  then show ?thesis using assms(1) by (simp add: ApplyCompletion_closed)
next
  case (late i node att lease)
  then show ?thesis using assms(1) by (simp add: MarkDispatched_closed)
next
  case (requeue out)
  have "relabels tp rs rs'"
    by (rule requeueRunning_inv(1)) (use assms(1) requeue in \<open>auto simp: engine_inv_def\<close>)
  then show ?thesis by (rule engine_inv_relabels [OF assms(1)])
qed

lemma engine_start_inv: "engine_start tp w excl rs \<Longrightarrow> engine_inv tp w excl rs"
  using NewRunState_inv [of tp]
  by (auto simp: engine_start_def engine_inv_def justified_def excluded_def split: if_splits)

interpretation engine: step_machine "engine_start tp w excl" "run_step w excl" "engine_inv tp w excl"
  for tp w excl
  by unfold_locales (auto intro: engine_start_inv engine_step_inv)

section \<open>Counting\<close>

lemma terminalCount_card:
  assumes "rs_inv tp rs"
  shows "terminalCount rs = int (card {i. \<exists>s. task_status_of rs i = Some s \<and> IsTerminal s})"
    "open_count rs = card {i. is_open rs i}" "finite {i. is_open rs i}"
    "finite {i. \<exists>s. task_status_of rs i = Some s \<and> IsTerminal s}"
proof -
  have d: "distinct (map fst (tasks rs))" and c: "counts_ok tp rs"
    using assms by (simp_all add: rs_inv_def rs_inv_lag_def keys_ok_def)
  show "terminalCount rs = int (card {i. \<exists>s. task_status_of rs i = Some s \<and> IsTerminal s})"
    using c count_vals_card [OF d] by (auto simp: counts_ok_def task_status_of_def intro!: arg_cong [where f = card])
  show "open_count rs = card {i. is_open rs i}"
    using count_vals_card [OF d] by (simp add: open_count_def is_open_def2)
  show "finite {i. is_open rs i}"
    by (rule finite_subset [OF _ finite_dom_map_of [of "tasks rs"]]) (auto simp: is_open_def2)
  show "finite {i. \<exists>s. task_status_of rs i = Some s \<and> IsTerminal s}"
    by (rule finite_subset [OF _ finite_dom_map_of [of "tasks rs"]]) (auto simp: task_status_of_def)
qed

lemma IsComplete_iff:
  assumes "topo_wf tp" "rs_inv tp rs"
  shows "IsComplete rs \<longleftrightarrow> (\<forall>i. \<not> is_open rs i)"
proof -
  have k: "distinct (map fst (tasks rs))" "fst ` set (tasks rs) = topo_keys tp" and c: "counts_ok tp rs"
    using assms(2) by (simp_all add: rs_inv_def rs_inv_lag_def keys_ok_def)
  have "distinct (map fst (Order tp))" using assms(1) by (simp add: topo_wf_def)
  with k have len: "length (tasks rs) = length (Order tp)"
    by (metis distinct_card length_map set_map topo_keys_def)
  have "IsComplete rs \<longleftrightarrow> open_count rs = 0"
    using c count_vals_compl [of "\<lambda>ts. IsTerminal (Status ts)" "tasks rs"] len
    by (auto simp: IsComplete_def counts_ok_def open_count_def)
  also have "\<dots> \<longleftrightarrow> (\<forall>i. \<not> is_open rs i)"
    using terminalCount_card(2,3) [OF assms(2)] by auto
  finally show ?thesis .
qed

lemma completion_counts:
  assumes "rs_inv tp rs" "rs_inv tp rs'" "is_open rs i" "IsTerminal s"
    "completion_effect rs i s bs rs' res"
  shows "terminalCount rs' = terminalCount rs + 1 + int (length (ResSkipped res))"
    "seq rs' = seq rs + 1 + int (length (ResSkipped res))" "open_count rs' < open_count rs"
proof -
  let ?ids = "SkTaskID ` set (ResSkipped res)"
  let ?T = "\<lambda>rs. {i. \<exists>s. task_status_of rs i = Some s \<and> IsTerminal s}"
  have eff: "distinct (map SkTaskID (ResSkipped res))" "seq rs' = seq rs + 1 + int (length (ResSkipped res))"
    using assms(5) by (simp_all add: completion_effect_def Let_def)
  note E = completion_effectD [OF assms(5)]
  show "seq rs' = seq rs + 1 + int (length (ResSkipped res))" by (fact eff(2))
  have "?T rs' = insert i (?ids \<union> ?T rs)"
    using E(1) assms(4) by (auto split: if_splits)
  moreover have "i \<notin> ?ids \<union> ?T rs" "?ids \<inter> ?T rs = {}"
    using E(2,3) assms(3) by (fastforce simp: is_open_status)+
  ultimately have "card (?T rs') = Suc (card ?ids + card (?T rs))"
    using terminalCount_card(4) [OF assms(1)] by (simp add: card_Un_disjoint)
  moreover have "card ?ids = length (ResSkipped res)"
    using eff(1) by (metis distinct_card length_map set_map)
  ultimately show "terminalCount rs' = terminalCount rs + 1 + int (length (ResSkipped res))"
    using terminalCount_card(1) [OF assms(1)] terminalCount_card(1) [OF assms(2)] by simp
  have "{j. is_open rs' j} \<subset> {j. is_open rs j}"
    using E assms(3,4) by (auto simp: is_open_status split: if_splits)
  then show "open_count rs' < open_count rs"
    using terminalCount_card(2,3) [OF assms(1)] terminalCount_card(2) [OF assms(2)] by (simp add: psubset_card_mono)
qed

section \<open>Progress\<close>

lemma finite_topo_edges: "topo_wf tp \<Longrightarrow> finite (topo_edges tp)"
proof -
  assume wf: "topo_wf tp"
  have "topo_edges tp \<subseteq> topo_keys tp \<times> topo_keys tp"
    using wf topo_wf_pred_iff [OF wf] by (fastforce simp: topo_edges_def topo_wf_def)
  then show ?thesis by (rule finite_subset) (simp add: topo_keys_def)
qed

lemma topo_wf_edges: "topo_wf tp \<Longrightarrow> acyclic (topo_edges tp) \<Longrightarrow> wf (topo_edges tp)"
  by (simp add: finite_acyclic_wf finite_topo_edges)

lemma not_complete_live:
  assumes inv: "engine_inv tp w excl rs" and ac: "acyclic (topo_edges tp)" and nc: "\<not> IsComplete rs"
  shows "\<exists>i. live rs i"
proof -
  have *: "topo_wf tp" "rs_inv tp rs" "settled rs" using inv by (simp_all add: engine_inv_def)
  have tp: "topo rs = tp" using *(2) by (simp add: rs_inv_def rs_inv_lag_def keys_ok_def)
  obtain i0 where "is_open rs i0" using nc IsComplete_iff [OF *(1,2)] by blast
  then obtain i where i: "is_open rs i" "\<And>p. (p, i) \<in> topo_edges tp \<Longrightarrow> \<not> is_open rs p"
    using wfE_min [OF topo_wf_edges [OF *(1) ac], of i0 "{j. is_open rs j}"] by auto
  then have "preds_done rs i"
    by (auto simp: preds_done_def tp topo_edges_def topo_wf_pred_iff [OF *(1)])
  then have z: "indegree rs i = 0" using rs_inv_indegree [OF *(2) i(1)] by simp
  with *(3) i(1) have "rule_holds rs i" by (simp add: settled_def)
  with z i(1) *(2) show ?thesis by (auto simp: rs_inv_def rs_inv_lag_def ready_ok_def live_def)
qed

definition complete_step ::
    "(uuid \<Rightarrow> task_status) \<Rightarrow> (uuid \<Rightarrow> uuid list) \<Rightarrow> run_state \<Rightarrow> run_state \<Rightarrow> bool" where
  "complete_step w excl rs rs' \<longleftrightarrow>
     (\<exists>i res. live rs i \<and> ApplyCompletion rs i (w i) (excl i) = (rs', res))"

lemma complete_step_inv:
  assumes "engine_inv tp w excl rs" "complete_step w excl rs rs'"
  shows "engine_inv tp w excl rs'" "open_count rs' < open_count rs"
proof -
  obtain i res where i: "live rs i" "ApplyCompletion rs i (w i) (excl i) = (rs', res)"
    using assms(2) by (auto simp: complete_step_def)
  note E = engine_inv_complete [OF assms(1) i]
  show "engine_inv tp w excl rs'" by (fact E(1))
  show "open_count rs' < open_count rs"
    using assms(1) E i(1) by (intro completion_counts(3) [of tp _ _ i "w i" "excl i" res])
      (auto simp: engine_inv_def results_ok_terminal intro: live_open)
qed

lemma completions_bounded:
  assumes "(complete_step w excl ^^ m) rs rs'" "engine_inv tp w excl rs"
  shows "m + open_count rs' \<le> open_count rs \<and> engine_inv tp w excl rs'"
  using assms
proof (induction m arbitrary: rs')
  case 0
  then show ?case by simp
next
  case (Suc m)
  then obtain rs1 where 1: "(complete_step w excl ^^ m) rs rs1" "complete_step w excl rs1 rs'"
    by (auto simp: relpowp_Suc_right elim: relcomppE)
  from Suc.IH [OF 1(1) Suc.prems(2)] complete_step_inv [of tp w excl rs1 rs'] 1(2) show ?case by auto
qed

lemma completes:
  assumes "engine_inv tp w excl rs" "acyclic (topo_edges tp)"
  shows "\<exists>m rs'. m \<le> open_count rs \<and> (complete_step w excl ^^ m) rs rs' \<and> IsComplete rs'"
  using assms(1)
proof (induction "open_count rs" arbitrary: rs rule: less_induct)
  case less
  show ?case
  proof (cases "IsComplete rs")
    case True
    then show ?thesis by (intro exI [of _ 0] exI [of _ rs]) simp
  next
    case False
    then obtain i where "live rs i" using not_complete_live [OF less.prems assms(2)] by blast
    then obtain rs1 where s: "complete_step w excl rs rs1"
      unfolding complete_step_def by (meson surj_pair)
    note C = complete_step_inv [OF less.prems s]
    from less.hyps [OF C(2) C(1)] obtain m rs' where "m \<le> open_count rs1"
      "(complete_step w excl ^^ m) rs1 rs'" "IsComplete rs'" by blast
    with s C(2) show ?thesis
      by (intro exI [of _ "Suc m"] exI [of _ rs']) (auto simp del: relpowp.simps intro: relpowp_Suc_I2)
  qed
qed

section \<open>Schedule independence\<close>

text \<open>
  In a complete state a task's status is a function of its predecessors' statuses: the
  recursion below, which mentions no schedule. It determines all statuses, because the
  topology is acyclic.
\<close>

lemma complete_status:
  assumes inv: "engine_inv tp w excl rs" and c: "IsComplete rs" and i: "i \<in> topo_keys tp"
  shows "task_status_of rs i = Some (if excluded excl rs i \<or> \<not> pred_rule rs i then TaskStatusSkipped else w i)"
proof -
  have *: "topo_wf tp" "results_ok tp w excl" "rs_inv tp rs" "justified w excl rs"
    using inv by (simp_all add: engine_inv_def)
  have no: "\<not> is_open rs j" for j using IsComplete_iff [OF *(1,3)] c by blast
  then have pd: "preds_done rs i" by (simp add: preds_done_def)
  have "fst ` set (tasks rs) = topo_keys tp" using *(3) by (simp add: rs_inv_def rs_inv_lag_def keys_ok_def)
  then obtain s where s: "task_status_of rs i = Some s"
    using i map_of_eq_None_iff [of "tasks rs" i] by (cases "map_of (tasks rs) i") (auto simp: task_status_of_def)
  with no [of i] have "IsTerminal s" by (auto simp: is_open_status)
  with *(4) s results_ok_terminal(2) [OF *(2), of i] show ?thesis
    by (auto simp: justified_def refused_def pd split: if_splits)
qed

lemma complete_unique:
  assumes 1: "engine_inv tp w excl rs1" "IsComplete rs1" and 2: "engine_inv tp w excl rs2" "IsComplete rs2"
    and ac: "acyclic (topo_edges tp)"
  shows "task_status_of rs1 i = task_status_of rs2 i"
proof (cases "i \<in> topo_keys tp")
  case False
  have "task_status_of rs j = None" if "engine_inv tp w excl rs" "j \<notin> topo_keys tp" for rs j
    using that map_of_eq_None_iff [of "tasks rs" j]
    by (auto simp: engine_inv_def rs_inv_def rs_inv_lag_def keys_ok_def task_status_of_def)
  with False 1 2 show ?thesis by metis
next
  case True
  have wf: "topo_wf tp" and tp: "topo rs1 = tp" "topo rs2 = tp"
    using 1 2 by (simp_all add: engine_inv_def rs_inv_def rs_inv_lag_def keys_ok_def)
  show ?thesis using True
  proof (induction i rule: wf_induct_rule [OF topo_wf_edges [OF wf ac]])
    case (1 i)
    have eq: "task_status_of rs1 p = task_status_of rs2 p" if "p \<in> set (Predecessors tp i)" for p
    proof (rule "1.IH")
      show "(p, i) \<in> topo_edges tp" using that by (simp add: topo_edges_def topo_wf_pred_iff [OF wf])
      show "p \<in> topo_keys tp" using that wf unfolding topo_wf_def by blast
    qed
    have "excluded excl rs1 i \<longleftrightarrow> excluded excl rs2 i"
      unfolding excluded_def tp using eq by metis
    moreover have "pred_rule rs1 i \<longleftrightarrow> pred_rule rs2 i"
      using CollectPredecessorStatuses_cong [of "Predecessors tp i", OF eq] by (simp add: pred_rule_def tp)
    ultimately show ?case
      using complete_status [OF assms(1,2) "1.prems"] complete_status [OF assms(3,4) "1.prems"] by simp
  qed
qed


section \<open>An example run\<close>

text \<open>
  A diamond: task 1 precedes 2 and 3, which precede 4; task 3 fails, so that the default
  rule skips task 4.
\<close>

definition diamond :: run_topology where
  "diamond = \<lparr>Adjacency = (\<lambda>i. if i = 1 then [2, 3] else if i = 2 \<or> i = 3 then [4] else []),
     Predecessors = (\<lambda>i. if i = 4 then [2, 3] else if i = 2 \<or> i = 3 then [1] else []),
     TriggerRule = (\<lambda>_. ''all_success''), Order = [(1, 0), (2, 1), (3, 2), (4, 3)]\<rparr>"

definition diamond_results :: "uuid \<Rightarrow> task_status" where
  "diamond_results i = (if i = 3 then TaskStatusFailed else TaskStatusSucceeded)"

definition diamond_one :: run_state where
  "diamond_one = fst (ApplyCompletion (NewRunState diamond 0) 1 TaskStatusSucceeded [])"

definition diamond_left :: run_state where
  "diamond_left = fst (ApplyCompletion (fst (ApplyCompletion diamond_one 2 TaskStatusSucceeded []))
     3 TaskStatusFailed [])"

definition diamond_right :: run_state where
  "diamond_right = fst (ApplyCompletion (fst (ApplyCompletion diamond_one 3 TaskStatusFailed []))
     2 TaskStatusSucceeded [])"

lemma diamond_wf: "topo_wf diamond"
  by (auto simp: topo_wf_def diamond_def topo_keys_def)

lemma diamond_ok: "results_ok diamond diamond_results (\<lambda>_. [])"
  by (auto simp: results_ok_def diamond_results_def)

lemma diamond_acyclic: "acyclic (topo_edges diamond)"
proof -
  have "topo_edges diamond \<subseteq> {(a, b). a < b}"
    by (auto simp: topo_edges_def diamond_def split: if_splits)
  moreover have "acyclic {(a, b :: nat). a < b}"
    using wf_acyclic [OF wf_less] by simp
  ultimately show ?thesis by (rule acyclic_subset [rotated])
qed

lemma reachable_complete:
  assumes "reachable_from (run_step w excl) s0 rs" "live rs i" "s = w i" "bs = excl i"
  shows "reachable_from (run_step w excl) s0 (fst (ApplyCompletion rs i s bs))"
  using assms by (auto intro!: reachable_step [OF assms(1)] run_step.complete simp: prod_eq_iff)

lemma diamond_live:
  "live (NewRunState diamond 0) 1" "live diamond_one 2" "live diamond_one 3"
  "live (fst (ApplyCompletion diamond_one 2 TaskStatusSucceeded [])) 3"
  "live (fst (ApplyCompletion diamond_one 3 TaskStatusFailed [])) 2"
  unfolding live_def task_status_of_def by code_simp+

lemma diamond_reachable:
  "reachable_from (run_step diamond_results (\<lambda>_. [])) (NewRunState diamond 0) diamond_one"
  "reachable_from (run_step diamond_results (\<lambda>_. [])) (NewRunState diamond 0) diamond_left"
  "reachable_from (run_step diamond_results (\<lambda>_. [])) (NewRunState diamond 0) diamond_right"
proof -
  show 1: "reachable_from (run_step diamond_results (\<lambda>_. [])) (NewRunState diamond 0) diamond_one"
    unfolding diamond_one_def
    by (rule reachable_complete [OF reachable_init diamond_live(1)]) (simp_all add: diamond_results_def)
  show "reachable_from (run_step diamond_results (\<lambda>_. [])) (NewRunState diamond 0) diamond_left"
    unfolding diamond_left_def
    by (rule reachable_complete [OF reachable_complete [OF 1 diamond_live(2)] diamond_live(4)])
       (simp_all add: diamond_results_def)
  show "reachable_from (run_step diamond_results (\<lambda>_. [])) (NewRunState diamond 0) diamond_right"
    unfolding diamond_right_def
    by (rule reachable_complete [OF reachable_complete [OF 1 diamond_live(3)] diamond_live(5)])
       (simp_all add: diamond_results_def)
qed

lemma diamond_complete: "\<not> IsComplete diamond_one" "IsComplete diamond_left" "IsComplete diamond_right"
  unfolding IsComplete_def by code_simp+

section \<open>Properties\<close>

text \<open>
  C1. In every state the engine reaches from a fresh run, under any order of dispatches,
  completions, duplicates and requeues, the bookkeeping is exact: statuses, outcomes, terminal
  counter and ready queue agree, every open task's counter is the number of its unfinished
  predecessors, a task is queued or running exactly when its predecessors are done and its
  trigger rule holds, and no open task is left whose predecessors are done and whose rule fails.
\<close>

theorem engine_reachable_inv:
  assumes "topo_wf tp" "results_ok tp w excl"
    and "reachable_from (run_step w excl) (NewRunState tp n) rs"
  shows "rs_inv tp rs \<and> settled rs"
  using engine.inv_reachable [of tp w excl "NewRunState tp n" rs] assms
  by (auto simp: engine_start_def engine_inv_def)

theorem engine_reachable_inv_witness:
  "rs_inv diamond diamond_left \<and> settled diamond_left"
  by (rule engine_reachable_inv [OF diamond_wf diamond_ok diamond_reachable(2)])


lemma engine_reachable:
  assumes "topo_wf tp" "results_ok tp w excl" "reachable_from (run_step w excl) (NewRunState tp n) rs"
  shows "engine_inv tp w excl rs"
  using engine.inv_reachable [of tp w excl "NewRunState tp n" rs] assms by (auto simp: engine_start_def)

text \<open>
  C2. The engine never deadlocks: on an acyclic topology, every reachable state that is not
  complete has a task that is in the ready queue or running, so that a dispatch or a worker's
  report can always move the run on.
\<close>

theorem engine_no_deadlock:
  assumes "topo_wf tp" "results_ok tp w excl" "acyclic (topo_edges tp)"
    and "reachable_from (run_step w excl) (NewRunState tp n) rs" "\<not> IsComplete rs"
  shows "\<exists>i. i \<in> set (ReadyTasks rs) \<or> i \<in> set (RunningTasks rs)"
proof -
  have inv: "engine_inv tp w excl rs" by (rule engine_reachable [OF assms(1,2,4)])
  then obtain i where "live rs i" using not_complete_live [OF _ assms(3,5)] by blast
  then show ?thesis using inv set_RunningTasks [of tp rs]
    by (auto simp: live_def ReadyTasks_def engine_inv_def rs_inv_def rs_inv_lag_def)
qed

theorem engine_no_deadlock_witness:
  "\<exists>i. i \<in> set (ReadyTasks diamond_one) \<or> i \<in> set (RunningTasks diamond_one)"
  by (rule engine_no_deadlock [OF diamond_wf diamond_ok diamond_acyclic diamond_reachable(1) diamond_complete(1)])

text \<open>
  C3. A run ends: from every reachable state, at most as many completions as there are open
  tasks finish the run, and no sequence of completions is longer than that. Skips included,
  each completion closes at least one task.
\<close>

theorem engine_completes:
  assumes "topo_wf tp" "results_ok tp w excl" "acyclic (topo_edges tp)"
    and "reachable_from (run_step w excl) (NewRunState tp n) rs"
  shows "(\<exists>m rs'. m \<le> open_count rs \<and> (complete_step w excl ^^ m) rs rs' \<and> IsComplete rs')
    \<and> (\<forall>m rs'. (complete_step w excl ^^ m) rs rs' \<longrightarrow> m \<le> open_count rs)"
  using completes [OF engine_reachable [OF assms(1,2,4)] assms(3)]
    completions_bounded [OF _ engine_reachable [OF assms(1,2,4)]]
  by (meson le_trans le_add1)

theorem engine_completes_witness:
  "(\<exists>m rs'. m \<le> open_count diamond_one
      \<and> (complete_step diamond_results (\<lambda>_. []) ^^ m) diamond_one rs' \<and> IsComplete rs')
    \<and> {m. \<exists>rs'. (complete_step diamond_results (\<lambda>_. []) ^^ m) diamond_one rs'} \<subseteq> {..3}"
proof -
  have "open_count diamond_one = 3" unfolding open_count_def by code_simp
  with engine_completes [OF diamond_wf diamond_ok diamond_acyclic diamond_reachable(1)] show ?thesis by auto
qed

text \<open>
  C4. The outcome does not depend on the schedule: two executions of the same run, with the
  same worker results and branch decisions but any interleaving of dispatches, completions,
  duplicate messages and requeues, agree on the status of every task once both are complete.
\<close>

theorem schedule_independence:
  assumes "topo_wf tp" "results_ok tp w excl" "acyclic (topo_edges tp)"
    and "reachable_from (run_step w excl) (NewRunState tp n1) rs1" "IsComplete rs1"
    and "reachable_from (run_step w excl) (NewRunState tp n2) rs2" "IsComplete rs2"
  shows "task_status_of rs1 i = task_status_of rs2 i"
  by (rule complete_unique [OF engine_reachable [OF assms(1,2,4)] assms(5)
        engine_reachable [OF assms(1,2,6)] assms(7,3)])

theorem schedule_independence_witness:
  "task_status_of diamond_left 4 = task_status_of diamond_right 4
   \<and> task_status_of diamond_right 4 = Some TaskStatusSkipped"
proof
  show "task_status_of diamond_left 4 = task_status_of diamond_right 4"
    by (rule schedule_independence [OF diamond_wf diamond_ok diamond_acyclic
          diamond_reachable(2) diamond_complete(2) diamond_reachable(3) diamond_complete(3)])
  show "task_status_of diamond_right 4 = Some TaskStatusSkipped" unfolding task_status_of_def by code_simp
qed

text \<open>
  C5. Every status has its reason. In a reachable state a skipped task was excluded by the
  branch decision of a predecessor that ran, or its predecessors are all done and do not
  satisfy its trigger rule; a task with any other terminal status has the status its worker
  reported, ran only after all its predecessors were done with its rule satisfied, and was not
  excluded by a branch decision.
\<close>

theorem statuses_justified:
  assumes "topo_wf tp" "results_ok tp w excl"
    and "reachable_from (run_step w excl) (NewRunState tp n) rs"
    and "task_status_of rs i = Some s" "IsTerminal s"
  shows "if s = TaskStatusSkipped then excluded excl rs i \<or> (preds_done rs i \<and> \<not> pred_rule rs i)
         else s = w i \<and> preds_done rs i \<and> pred_rule rs i \<and> \<not> excluded excl rs i"
proof -
  have "justified w excl rs" using engine_reachable [OF assms(1-3)] by (simp add: engine_inv_def)
  then show ?thesis using assms(4,5) unfolding justified_def refused_def by presburger
qed

theorem statuses_justified_witness:
  "if TaskStatusSkipped = TaskStatusSkipped
   then excluded (\<lambda>_. []) diamond_left 4 \<or> (preds_done diamond_left 4 \<and> \<not> pred_rule diamond_left 4)
   else TaskStatusSkipped = diamond_results 4 \<and> preds_done diamond_left 4 \<and> pred_rule diamond_left 4
     \<and> \<not> excluded (\<lambda>_. []) diamond_left 4"
proof (rule statuses_justified [OF diamond_wf diamond_ok diamond_reachable(2)])
  show "task_status_of diamond_left 4 = Some TaskStatusSkipped" unfolding task_status_of_def by code_simp
qed simp

text \<open>
  C6. Completing an open task closes it with the reported status and closes exactly the tasks
  it returns as skipped; the terminal sequence numbers handed out are consecutive (the task's
  own first, then one per skip), and the tasks reported ready, each once, are exactly the ones
  that joined the ready queue, which otherwise loses only the closed tasks. The completion flag
  is the one of the new state.
\<close>

theorem ApplyCompletion_effect:
  assumes "topo_wf tp" "rs_inv tp rs" "settled rs" "is_open rs i" "IsTerminal s"
    and "ApplyCompletion rs i s bs = (rs', res)"
  shows "rs_inv tp rs' \<and> settled rs'
    \<and> (\<forall>j. task_status_of rs' j = (if j = i then Some s
          else if j \<in> SkTaskID ` set (ResSkipped res) then Some TaskStatusSkipped else task_status_of rs j))
    \<and> ResTerminalSequence res # map SkTerminalSequence (ResSkipped res) = [seq rs + 1 .. seq rs']
    \<and> terminalCount rs' = terminalCount rs + 1 + int (length (ResSkipped res))
    \<and> distinct (ResReady res) \<and> set (ResReady res) = set (ready rs') - set (ready rs)
    \<and> set (ready rs') - set (ResReady res) = set (ready rs) - insert i (SkTaskID ` set (ResSkipped res))
    \<and> (ResComplete res \<longleftrightarrow> IsComplete rs')"
proof -
  note A = ApplyCompletion_inv [OF assms]
  note E = completion_effectD(1) [OF A(3)]
  have R: "distinct (ResReady res)" "set (ResReady res) \<subseteq> set (ready rs')" "ResComplete res \<longleftrightarrow> IsComplete rs'"
    "set (ready rs') - set (ResReady res) = set (ready rs) - insert i (SkTaskID ` set (ResSkipped res))"
    using A(3) by (simp_all add: completion_effect_def Let_def)
  have "x \<noteq> i \<and> x \<notin> SkTaskID ` set (ResSkipped res)" if "x \<in> set (ready rs')" for x
  proof -
    have "task_status_of rs' x = Some TaskStatusPending"
      using A(1) that queue_ok_pending by (simp add: rs_inv_def rs_inv_lag_def)
    then show ?thesis using E [of x] assms(5) by (auto split: if_splits)
  qed
  with R(2,4) have new: "set (ResReady res) = set (ready rs') - set (ready rs)" by blast
  have "[seq rs + 1 .. seq rs'] = (seq rs + 1) # [seq rs + 2 .. seq rs']"
    using completion_counts(2) [OF assms(2) A(1) assms(4,5) A(3)] by (simp add: upto.simps)
  moreover have "ResTerminalSequence res = seq rs + 1" "map SkTerminalSequence (ResSkipped res) = [seq rs + 2 .. seq rs']"
    using A(3) by (simp_all add: completion_effect_def Let_def)
  ultimately show ?thesis
    using A(1,2) E R new completion_counts(1) [OF assms(2) A(1) assms(4,5) A(3)] by simp
qed

theorem ApplyCompletion_effect_witness:
  "let rs = fst (ApplyCompletion diamond_one 2 TaskStatusSucceeded []);
       (rs', res) = ApplyCompletion rs 3 TaskStatusFailed []
   in task_status_of rs' 4 = Some TaskStatusSkipped
      \<and> ResTerminalSequence res # map SkTerminalSequence (ResSkipped res) = [seq rs + 1 .. seq rs']
      \<and> [seq rs + 1 .. seq rs'] = [3, 4]"
proof -
  let ?rs = "fst (ApplyCompletion diamond_one 2 TaskStatusSucceeded [])"
  let ?res = "snd (ApplyCompletion ?rs 3 TaskStatusFailed [])"
  have "reachable_from (run_step diamond_results (\<lambda>_. [])) (NewRunState diamond 0) ?rs"
    by (rule reachable_complete [OF diamond_reachable(1) diamond_live(2)]) (simp_all add: diamond_results_def)
  then have inv: "rs_inv diamond ?rs" "settled ?rs"
    using engine_reachable [OF diamond_wf diamond_ok] by (auto simp: engine_inv_def)
  have "is_open ?rs 3" unfolding is_open_def by code_simp
  from ApplyCompletion_effect [OF diamond_wf inv this, of TaskStatusFailed "[]" diamond_left ?res]
  have "ResTerminalSequence ?res # map SkTerminalSequence (ResSkipped ?res) = [seq ?rs + 1 .. seq diamond_left]"
    by (simp add: diamond_left_def)
  moreover have "task_status_of diamond_left 4 = Some TaskStatusSkipped" unfolding task_status_of_def by code_simp
  moreover have "[seq ?rs + 1 .. seq diamond_left] = [3, 4]" by code_simp
  ultimately show ?thesis by (simp add: Let_def diamond_left_def case_prod_beta)
qed

text \<open>
  C7. Delivering a completion again is harmless in memory: once a task is closed by a
  completion, every further report for it, whatever its status and branches, leaves the state
  as it is and returns sequence number 0, no ready task and no skip.
\<close>

theorem ApplyCompletion_idempotent:
  assumes "topo_wf tp" "rs_inv tp rs" "settled rs" "is_open rs i" "IsTerminal s"
    and "ApplyCompletion rs i s bs = (rs', res)"
  shows "ApplyCompletion rs' i s' bs' =
    (rs', \<lparr>ResTerminalSequence = 0, ResReady = [], ResSkipped = [], ResComplete = IsComplete rs'\<rparr>)"
proof -
  have "task_status_of rs' i = Some s"
    using completion_effectD(1) [OF ApplyCompletion_inv(3) [OF assms]] by simp
  then show ?thesis using assms(5) by (intro ApplyCompletion_closed) (simp add: is_open_status)
qed

theorem ApplyCompletion_idempotent_witness:
  "ApplyCompletion diamond_one 1 TaskStatusFailed [2] =
    (diamond_one, \<lparr>ResTerminalSequence = 0, ResReady = [], ResSkipped = [], ResComplete = IsComplete diamond_one\<rparr>)"
proof -
  have inv: "rs_inv diamond (NewRunState diamond 0)" "settled (NewRunState diamond 0)"
    using engine_reachable [OF diamond_wf diamond_ok reachable_init] by (auto simp: engine_inv_def)
  have "is_open (NewRunState diamond 0) 1" unfolding is_open_def by code_simp
  from ApplyCompletion_idempotent [OF diamond_wf inv this, of TaskStatusSucceeded "[]" diamond_one]
  show ?thesis by (simp add: diamond_one_def prod_eq_iff)
qed

end
