(* ===== verification/Store_DB.thy ===== *)
theory Store_DB
  imports Run_State
begin

text \<open>
  The tables the run store works on, and the SQL statements it issues, as functions on
  lists of row records. A table is the list of its rows in primary-key order, which is the
  order \<open>First\<close> reads them in; an \<open>UPDATE ... WHERE\<close> maps over the list and reports how
  many rows matched; a transaction is a function from the database to an error or the
  changed database, so that a failing transaction changes nothing. Times are integers
  (nanoseconds since the epoch), and the reading of the clock is an argument. Events carry
  their routing fields; their JSON payloads are not modelled, nor are metrics counters.
\<close>

type_synonym timestamp = int

section \<open>Rows\<close>

record edge_ref =
  RefTaskID :: uuid
  RefTaskName :: string

text \<open>The part of \<open>TaskExecutionDescriptor\<close> that scheduling a quarantined replay reads.\<close>

record task_execution_descriptor =
  SchemaVersion :: int
  DPredecessors :: "edge_ref list"
  DSuccessors :: "edge_ref list"
  DTriggerRule :: string
  DBranchBehavior :: string
  DTaskPosition :: int
  DTaskType :: string

datatype descriptor_column =
    NoDescriptor
  | UndecodableDescriptor string
  | Descriptor task_execution_descriptor

definition TaskExecutionDescriptorSchemaVersion :: int where
  "TaskExecutionDescriptorSchemaVersion = 1"

record task_run =
  TRJobRunID :: uuid
  TRTaskID :: uuid
  TRStatus :: task_status
  TRClaimedBy :: string
  TRClaimExpiresAt :: "timestamp option"
  TRClaimAttempt :: int
  TRRateLimitRetryAfter :: "timestamp option"
  TRAttempt :: int
  TRResult :: string
  TROutput :: "(string \<times> string) list"
  TRBranchSelections :: "string list"
  TRQuarantine :: bool
  TRCacheHit :: bool
  TRCacheOrigin :: "(uuid \<times> timestamp \<times> timestamp option) option"
  TRExecutionDescriptor :: descriptor_column
  TRError :: string
  TRRuntimeID :: string
  TROutstandingPredecessors :: int
  TROwnerGeneration :: int
  TRTerminalSequence :: int
  TRStartedAt :: "timestamp option"
  TRCompletedAt :: "timestamp option"
  TRCreatedAt :: timestamp

record job_run =
  JRID :: uuid
  JRJobID :: uuid
  JRBackfillID :: "uuid option"
  JRTriggerID :: uuid
  JRStatus :: run_status
  JRPriority :: int
  JRError :: string
  JRParams :: "(string \<times> string) list"
  JRQuarantine :: bool
  JRStartedAt :: timestamp
  JRCompletedAt :: "timestamp option"
  JRCreatedAt :: timestamp

record task_model =
  TMID :: uuid
  TMJobID :: uuid
  TMName :: string
  TMPosition :: int
  TMType :: string
  TMTriggerRule :: string
  TMCreatedAt :: timestamp
  TMRateLimitResource :: string
  TMRateLimitUnits :: int

record task_edge =
  TEJobID :: uuid
  TEFromTaskID :: uuid
  TEToTaskID :: uuid

text \<open>The \<open>concurrency\<close> column: absent, not decodable, or a limit with a strategy.\<close>

datatype concurrency_column =
    NoConcurrency
  | UndecodableConcurrency string
  | Concurrency int string

text \<open>The \<open>rate_limits\<close> column: absent, not decodable, or a list of declarations.\<close>

record rate_limit =
  RateResource :: string
  RateLimitMax :: int
  RateWindow :: string

datatype rate_limits_column =
    NoRateLimits
  | UndecodableRateLimits string
  | RateLimits "rate_limit list"

record job_model =
  JMID :: uuid
  JMAlias :: string
  JMPriority :: string
  JMPaused :: bool
  JMConcurrency :: concurrency_column
  JMRateLimits :: rate_limits_column

record run_lease =
  RLRunID :: uuid
  RLOwnerNode :: string
  RLAcquiredAt :: timestamp
  RLLeaseExpiresAt :: timestamp
  RLGeneration :: int

record run_queue_row =
  RQID :: uuid
  RQJobID :: uuid
  RQParams :: "(string \<times> string) list"
  RQPriority :: int
  RQClaimedBy :: string
  RQClaimedAt :: "timestamp option"
  RQCreatedAt :: timestamp

datatype event_type =
    TypeRunStarted | TypeRunCompleted | TypeRunFailed | TypeRunCancelled | TypeRunTerminal
  | TypeRunRetried | TypeTaskReady | TypeTaskStarted | TypeTaskSucceeded | TypeTaskFailed
  | TypeTaskSkipped | TypeTaskCached | TypeTaskRetrying

record execution_event =
  EVType :: event_type
  EVJobID :: uuid
  EVRunID :: uuid
  EVTaskID :: uuid
  EVQuarantine :: bool

record store_db =
  db_task_runs :: "task_run list"
  db_job_runs :: "job_run list"
  db_tasks :: "task_model list"
  db_task_edges :: "task_edge list"
  db_jobs :: "job_model list"
  db_run_leases :: "run_lease list"
  db_run_queue :: "run_queue_row list"
  db_events :: "execution_event list"

section \<open>Errors and transactions\<close>

datatype store_error =
    ErrTaskClaimMismatch
  | ErrRunSkipped
  | ErrRunQueued
  | ErrQueuedRunUnavailable
  | ErrQueuedRunNotFound
  | ErrMaxConcurrentRunsReached
  | ErrJobPaused
  | ErrRecordNotFound
  | errRunAlreadyTerminal
  | StoreErr string

type_synonym 'a tx = "store_db \<Rightarrow> store_error + 'a \<times> store_db"

definition tx_ok :: "'a \<Rightarrow> 'a tx" where
  "tx_ok x = (\<lambda>db. Inr (x, db))"

definition tx_fail :: "store_error \<Rightarrow> 'a tx" where
  "tx_fail e = (\<lambda>db. Inl e)"

definition tx_bind :: "'a tx \<Rightarrow> ('a \<Rightarrow> 'b tx) \<Rightarrow> 'b tx" where
  "tx_bind m f = (\<lambda>db. case m db of Inl e \<Rightarrow> Inl e | Inr (x, db') \<Rightarrow> f x db')"

definition tx_read :: "(store_db \<Rightarrow> 'a) \<Rightarrow> 'a tx" where
  "tx_read f = (\<lambda>db. Inr (f db, db))"

definition tx_modify :: "(store_db \<Rightarrow> store_db) \<Rightarrow> unit tx" where
  "tx_modify f = (\<lambda>db. Inr ((), f db))"

text \<open>\<open>First\<close>: the first matching row, or \<open>gorm.ErrRecordNotFound\<close>.\<close>

definition tx_first :: "(store_db \<Rightarrow> 'r list) \<Rightarrow> ('r \<Rightarrow> bool) \<Rightarrow> 'r tx" where
  "tx_first tab P = (\<lambda>db. case find P (tab db) of None \<Rightarrow> Inl ErrRecordNotFound | Some r \<Rightarrow> Inr (r, db))"

text \<open>A transaction whose error the caller only logs.\<close>

definition best_effort :: "'a tx \<Rightarrow> store_db \<Rightarrow> store_db" where
  "best_effort m db = (case m db of Inl e \<Rightarrow> db | Inr (x, db') \<Rightarrow> db')"

section \<open>Statements\<close>

definition update_where :: "('r \<Rightarrow> bool) \<Rightarrow> ('r \<Rightarrow> 'r) \<Rightarrow> 'r list \<Rightarrow> 'r list" where
  "update_where P f = map (\<lambda>r. if P r then f r else r)"

definition rows_affected :: "('r \<Rightarrow> bool) \<Rightarrow> 'r list \<Rightarrow> nat" where
  "rows_affected P rs = length (filter P rs)"

text \<open>An \<open>UPDATE\<close> of the task-run table; its value is the number of rows affected.\<close>

definition update_task_runs :: "(task_run \<Rightarrow> bool) \<Rightarrow> (task_run \<Rightarrow> task_run) \<Rightarrow> nat tx" where
  "update_task_runs P f = (\<lambda>db. Inr (rows_affected P (db_task_runs db),
     db\<lparr>db_task_runs := update_where P f (db_task_runs db)\<rparr>))"

definition update_job_runs :: "(job_run \<Rightarrow> bool) \<Rightarrow> (job_run \<Rightarrow> job_run) \<Rightarrow> nat tx" where
  "update_job_runs P f = (\<lambda>db. Inr (rows_affected P (db_job_runs db),
     db\<lparr>db_job_runs := update_where P f (db_job_runs db)\<rparr>))"

definition append_event :: "execution_event \<Rightarrow> unit tx" where
  "append_event e = tx_modify (\<lambda>db. db\<lparr>db_events := db_events db @ [e]\<rparr>)"

definition is_row :: "uuid \<Rightarrow> uuid \<Rightarrow> task_run \<Rightarrow> bool" where
  "is_row runID taskID r \<longleftrightarrow> TRJobRunID r = runID \<and> TRTaskID r = taskID"

section \<open>Lemmas on statements\<close>

lemma update_where_simps [simp]:
  "update_where P f [] = []"
  "update_where P f (r # rs) = (if P r then f r else r) # update_where P f rs"
  by (simp_all add: update_where_def)

lemma length_update_where [simp]: "length (update_where P f rs) = length rs"
  by (simp add: update_where_def)

lemma rows_affected_zero: "rows_affected P rs = 0 \<longleftrightarrow> (\<forall>r \<in> set rs. \<not> P r)"
  by (auto simp: rows_affected_def filter_empty_conv)

lemma update_where_none: "\<forall>r \<in> set rs. \<not> P r \<Longrightarrow> update_where P f rs = rs"
  by (simp add: update_where_def map_idI)

lemma set_update_where:
  "set (update_where P f rs) = {r \<in> set rs. \<not> P r} \<union> f ` {r \<in> set rs. P r}"
  by (auto simp: update_where_def)

lemma in_update_where: "r \<in> set (update_where P f rs) \<Longrightarrow> \<exists>q \<in> set rs. r = (if P q then f q else q)"
  by (auto simp: update_where_def)

lemma map_update_where:
  "(\<And>r. P r \<Longrightarrow> g (f r) = g r) \<Longrightarrow> map g (update_where P f rs) = map g rs"
  by (simp add: update_where_def)

lemma find_update_where:
  assumes "\<And>r. P r \<Longrightarrow> Q (f r) = Q r"
  shows "find Q (update_where P f rs) = map_option (\<lambda>r. if P r then f r else r) (find Q rs)"
  using assms by (induction rs) auto

named_theorems tx_simps \<open>evaluation of transactions\<close>

lemmas [tx_simps] = tx_ok_def tx_fail_def tx_bind_def tx_read_def tx_modify_def tx_first_def
  update_task_runs_def update_job_runs_def append_event_def

section \<open>Sample rows\<close>

text \<open>Rows and tables that the concrete instances of the theorems are built from.\<close>

definition sample_row :: "uuid \<Rightarrow> uuid \<Rightarrow> task_status \<Rightarrow> task_run" where
  "sample_row runID t s = \<lparr>TRJobRunID = runID, TRTaskID = t, TRStatus = s, TRClaimedBy = '''', TRClaimExpiresAt = None,
     TRClaimAttempt = 1, TRRateLimitRetryAfter = None, TRAttempt = 1, TRResult = '''', TROutput = [],
     TRBranchSelections = [], TRQuarantine = False, TRCacheHit = False, TRCacheOrigin = None,
     TRExecutionDescriptor = NoDescriptor, TRError = '''', TRRuntimeID = '''', TROutstandingPredecessors = 0,
     TROwnerGeneration = 0, TRTerminalSequence = 0, TRStartedAt = None, TRCompletedAt = None, TRCreatedAt = int t\<rparr>"

definition sample_run :: "uuid \<Rightarrow> uuid \<Rightarrow> job_run" where
  "sample_run runID jobID = \<lparr>JRID = runID, JRJobID = jobID, JRBackfillID = None, JRTriggerID = 0,
     JRStatus = StatusRunning, JRPriority = 2, JRError = '''', JRParams = [], JRQuarantine = False,
     JRStartedAt = int runID, JRCompletedAt = None, JRCreatedAt = int runID\<rparr>"

definition sample_task :: "uuid \<Rightarrow> uuid \<Rightarrow> string \<Rightarrow> string \<Rightarrow> task_model" where
  "sample_task jobID t name ty = \<lparr>TMID = t, TMJobID = jobID, TMName = name, TMPosition = int t, TMType = ty,
     TMTriggerRule = '''', TMCreatedAt = 0, TMRateLimitResource = '''', TMRateLimitUnits = 0\<rparr>"

definition sample_db :: "job_run list \<Rightarrow> task_run list \<Rightarrow> store_db" where
  "sample_db runs rows = \<lparr>db_task_runs = rows, db_job_runs = runs, db_tasks = [], db_task_edges = [],
     db_jobs = [], db_run_leases = [], db_run_queue = [], db_events = []\<rparr>"

lemmas sample_defs = sample_row_def sample_run_def sample_task_def sample_db_def

end
