(* ===== verification/Run_Recovery.thy ===== *)
theory Run_Recovery
  imports Run_State_Progress Store_DB
begin

text \<open>
  Checkpoints and failure recovery of an owned run: \<open>Snapshot\<close> and \<open>Restore\<close>
  (\<open>owner_state.go\<close>), the checkpoint table (\<open>checkpoint_store.go\<close>), the cadence of the
  checkpoint writer (\<open>checkpoint_writer.go\<close>) and \<open>RecoverRunState\<close> (\<open>recovery.go\<close>), with
  the theorem that recovery from a checkpoint and the terminal rows after it gives back the
  owner's state.
\<close>

section \<open>Snapshots\<close>

text \<open>
  The JSON value of a checkpoint. The text of a value is written and read by \<open>encoding/json\<close>; a
  blob is the value of its text, or bytes that are no JSON. A UUID stands for its text form, in
  an array or as the key of a map. The members of a struct are named by the tags of its fields.
\<close>

datatype json_value =
    JsNull
  | JsInt int
  | JsText string
  | JsId uuid
  | JsArray "json_value list"
  | JsMap "(uuid \<times> json_value) list"
  | JsStruct "(string \<times> json_value) list"

datatype state_blob = JsonBlob json_value | UndecodableBlob string

subsection \<open>Writing\<close>

fun status_text :: "task_status \<Rightarrow> string" where
  "status_text TaskStatusPending = ''pending''"
| "status_text TaskStatusRunning = ''running''"
| "status_text TaskStatusSucceeded = ''succeeded''"
| "status_text TaskStatusFailed = ''failed''"
| "status_text TaskStatusSkipped = ''skipped''"
| "status_text TaskStatusCached = ''cached''"
| "status_text TaskStatusCancelled = ''cancelled''"
| "status_text (TaskStatusOther s) = s"

text \<open>The tag \<open>omitempty\<close> leaves out a field that has the zero value.\<close>

definition marshal_task :: "owner_task_state \<Rightarrow> json_value" where
  "marshal_task ts = JsStruct
     ([(''status'', JsText (status_text (Status ts))), (''attempt'', JsInt (Attempt ts))]
      @ (if ClaimedBy ts = '''' then [] else [(''claimed_by'', JsText (ClaimedBy ts))])
      @ (if LeaseExpiresAtMs ts = 0 then [] else [(''lease_expires_at_ms'', JsInt (LeaseExpiresAtMs ts))]))"

text \<open>The map of in-degrees has an entry for every task.\<close>

definition Snapshot :: "run_state \<Rightarrow> state_blob" where
  "Snapshot rs = JsonBlob (JsStruct
     [(''tasks'', JsMap (map (\<lambda>(i, ts). (i, marshal_task ts)) (tasks rs))),
      (''indegree'', JsMap (map (\<lambda>i. (i, JsInt (indegree rs i))) (map fst (tasks rs)))),
      (''outcomes'', JsMap (map (\<lambda>(i, st). (i, JsText (status_text st))) (outcomes rs))),
      (''ready'', JsArray (map JsId (ready rs))),
      (''sequence'', JsInt (seq rs)),
      (''terminal_count'', JsInt (terminalCount rs)),
      (''total'', JsInt (total rs))])"

subsection \<open>Reading\<close>

definition status_of_text :: "string \<Rightarrow> task_status" where
  "status_of_text t =
     (if t = ''pending'' then TaskStatusPending else if t = ''running'' then TaskStatusRunning
      else if t = ''succeeded'' then TaskStatusSucceeded else if t = ''failed'' then TaskStatusFailed
      else if t = ''skipped'' then TaskStatusSkipped else if t = ''cached'' then TaskStatusCached
      else if t = ''cancelled'' then TaskStatusCancelled else TaskStatusOther t)"

text \<open>
  A member is found by its tag, in any case of letters; of several the last one counts. An absent
  member and \<open>null\<close> leave the zero value, and a value of another type is an error. Two inputs that
  no snapshot produces are cut short: the entries of a map that is given twice are not merged,
  and a \<open>null\<close> in the place of a task, which the code would keep as a nil pointer, is an error.
\<close>

definition js_member :: "string \<Rightarrow> (string \<times> json_value) list \<Rightarrow> json_value" where
  "js_member tag ms = (case map_of (rev (map (\<lambda>(k, v). (ToLower k, v)) ms)) tag of None \<Rightarrow> JsNull | Some v \<Rightarrow> v)"

definition js_mismatch :: "string + 'a" where
  "js_mismatch = Inl ''json: cannot unmarshal value into Go struct field''"

fun js_struct :: "json_value \<Rightarrow> string + (string \<times> json_value) list" where
  "js_struct (JsStruct ms) = Inr ms"
| "js_struct _ = js_mismatch"

fun js_int :: "json_value \<Rightarrow> string + int" where
  "js_int (JsInt n) = Inr n"
| "js_int JsNull = Inr 0"
| "js_int _ = js_mismatch"

fun js_text :: "json_value \<Rightarrow> string + string" where
  "js_text (JsText t) = Inr t"
| "js_text JsNull = Inr ''''"
| "js_text _ = js_mismatch"

fun js_id :: "json_value \<Rightarrow> string + uuid" where
  "js_id (JsId i) = Inr i"
| "js_id _ = js_mismatch"

definition js_bind :: "string + 'a \<Rightarrow> ('a \<Rightarrow> string + 'b) \<Rightarrow> string + 'b" where
  "js_bind m f = (case m of Inl e \<Rightarrow> Inl e | Inr x \<Rightarrow> f x)"

fun js_entries :: "(json_value \<Rightarrow> string + 'a) \<Rightarrow> ('k \<times> json_value) list \<Rightarrow> string + ('k \<times> 'a) list" where
  "js_entries f [] = Inr []"
| "js_entries f ((k, v) # kvs) = js_bind (f v) (\<lambda>x. js_bind (js_entries f kvs) (\<lambda>xs. Inr ((k, x) # xs)))"

text \<open>A map: \<open>null\<close> is the nil map, and of several entries for a key the last one counts.\<close>

fun js_map :: "(json_value \<Rightarrow> string + 'a) \<Rightarrow> json_value \<Rightarrow> string + (uuid \<times> 'a) list option" where
  "js_map f (JsMap kvs) = js_bind (js_entries f kvs) (\<lambda>xs. Inr (Some (foldl (\<lambda>m (k, x). AList.update k x m) [] xs)))"
| "js_map f JsNull = Inr None"
| "js_map f _ = js_mismatch"

fun js_ids :: "json_value \<Rightarrow> string + uuid list" where
  "js_ids (JsArray vs) = js_bind (js_entries js_id (map (Pair ()) vs)) (\<lambda>xs. Inr (map snd xs))"
| "js_ids JsNull = Inr []"
| "js_ids _ = js_mismatch"

definition unmarshal_task :: "json_value \<Rightarrow> string + owner_task_state" where
  "unmarshal_task v =
     js_bind (js_struct v) (\<lambda>ms.
     js_bind (js_text (js_member ''status'' ms)) (\<lambda>status.
     js_bind (js_int (js_member ''attempt'' ms)) (\<lambda>attempt.
     js_bind (js_text (js_member ''claimed_by'' ms)) (\<lambda>claimedBy.
     js_bind (js_int (js_member ''lease_expires_at_ms'' ms)) (\<lambda>lease.
       Inr \<lparr>Status = status_of_text status, Attempt = attempt, ClaimedBy = claimedBy, LeaseExpiresAtMs = lease\<rparr>)))))"

record run_state_snapshot =
  SnTasks :: "(uuid \<times> owner_task_state) list option"
  SnIndegree :: "(uuid \<times> int) list option"
  SnOutcomes :: "(uuid \<times> task_status) list option"
  SnReady :: "uuid list"
  SnSequence :: int
  SnTerminalCount :: int
  SnTotal :: int

definition unmarshal_snapshot :: "json_value \<Rightarrow> string + run_state_snapshot" where
  "unmarshal_snapshot v =
     js_bind (js_struct v) (\<lambda>ms.
     js_bind (js_map unmarshal_task (js_member ''tasks'' ms)) (\<lambda>ts.
     js_bind (js_map js_int (js_member ''indegree'' ms)) (\<lambda>ind.
     js_bind (js_map (\<lambda>v. js_bind (js_text v) (\<lambda>t. Inr (status_of_text t))) (js_member ''outcomes'' ms)) (\<lambda>out.
     js_bind (js_ids (js_member ''ready'' ms)) (\<lambda>rdy.
     js_bind (js_int (js_member ''sequence'' ms)) (\<lambda>sq.
     js_bind (js_int (js_member ''terminal_count'' ms)) (\<lambda>tc.
     js_bind (js_int (js_member ''total'' ms)) (\<lambda>tot.
       Inr \<lparr>SnTasks = ts, SnIndegree = ind, SnOutcomes = out, SnReady = rdy, SnSequence = sq,
            SnTerminalCount = tc, SnTotal = tot\<rparr>))))))))"

definition Restore :: "run_topology \<Rightarrow> state_blob \<Rightarrow> string + run_state" where
  "Restore tp blob =
     (case (case blob of UndecodableBlob e \<Rightarrow> Inl e | JsonBlob v \<Rightarrow> unmarshal_snapshot v) of
       Inl e \<Rightarrow> Inl (''run state: unmarshal checkpoint: '' @ e)
     | Inr snap \<Rightarrow> Inr
         \<lparr>topo = tp,
          tasks = (case SnTasks snap of None \<Rightarrow> [] | Some m \<Rightarrow> m),
          indegree = (case SnIndegree snap of None \<Rightarrow> (\<lambda>_. 0)
                      | Some m \<Rightarrow> (\<lambda>i. case map_of m i of None \<Rightarrow> 0 | Some n \<Rightarrow> n)),
          outcomes = (case SnOutcomes snap of None \<Rightarrow> [] | Some m \<Rightarrow> m),
          ready = SnReady snap,
          inReady = foldl (\<lambda>f i. f(i := True)) (\<lambda>_. False) (SnReady snap),
          seq = SnSequence snap, terminalCount = SnTerminalCount snap, total = SnTotal snap\<rparr>)"

section \<open>The checkpoint table\<close>

record run_checkpoint =
  CPRunID :: uuid
  SequenceHigh :: int
  OwnerGeneration :: int
  StateBlob :: state_blob
  IsIncremental :: bool
  CPCreatedAt :: timestamp

type_synonym checkpoint_table = "run_checkpoint list"

definition WriteCheckpoint ::
    "checkpoint_table \<Rightarrow> uuid \<Rightarrow> int \<Rightarrow> int \<Rightarrow> state_blob \<Rightarrow> bool \<Rightarrow> timestamp \<Rightarrow> checkpoint_table" where
  "WriteCheckpoint tab runID sequenceHigh ownerGeneration blob incremental now =
     (let cp = \<lparr>CPRunID = runID, SequenceHigh = sequenceHigh, OwnerGeneration = ownerGeneration,
                StateBlob = blob, IsIncremental = incremental, CPCreatedAt = now\<rparr>;
          same = (\<lambda>c. CPRunID c = runID \<and> SequenceHigh c = sequenceHigh)
      in if list_ex same tab then update_where same (\<lambda>_. cp) tab else tab @ [cp])"

definition full_checkpoints :: "checkpoint_table \<Rightarrow> uuid \<Rightarrow> run_checkpoint list" where
  "full_checkpoints tab runID =
     sort_key (\<lambda>c. - SequenceHigh c) (filter (\<lambda>c. CPRunID c = runID \<and> \<not> IsIncremental c) tab)"

definition LatestFullCheckpoint :: "checkpoint_table \<Rightarrow> uuid \<Rightarrow> run_checkpoint option" where
  "LatestFullCheckpoint tab runID =
     (case full_checkpoints tab runID of [] \<Rightarrow> None | cp # _ \<Rightarrow> Some cp)"

definition CheckpointDeltasSince :: "checkpoint_table \<Rightarrow> uuid \<Rightarrow> int \<Rightarrow> run_checkpoint list" where
  "CheckpointDeltasSince tab runID fromSeq = sort_key SequenceHigh
     (filter (\<lambda>c. CPRunID c = runID \<and> IsIncremental c \<and> SequenceHigh c > fromSeq) tab)"

definition PruneCheckpoints :: "checkpoint_table \<Rightarrow> uuid \<Rightarrow> int \<Rightarrow> checkpoint_table" where
  "PruneCheckpoints tab runID keepFulls0 =
     (let keepFulls = (if keepFulls0 < 1 then 1 else keepFulls0);
          fullSeqs = take (nat keepFulls) (map SequenceHigh (full_checkpoints tab runID))
      in if int (length fullSeqs) < keepFulls then tab
         else let threshold = fullSeqs ! (length fullSeqs - 1)
              in filter (\<lambda>c. \<not> (CPRunID c = runID \<and> SequenceHigh c < threshold)) tab)"

definition TerminalTaskRunsSince :: "task_run list \<Rightarrow> uuid \<Rightarrow> int \<Rightarrow> task_run list" where
  "TerminalTaskRunsSince rows runID afterSeq = sort_key TRTerminalSequence
     (filter (\<lambda>r. TRJobRunID r = runID \<and> TRTerminalSequence r > afterSeq
        \<and> TRStatus r \<in> set [TaskStatusSucceeded, TaskStatusFailed, TaskStatusSkipped,
                            TaskStatusCached, TaskStatusCancelled]) rows)"

definition DeleteCheckpoints :: "checkpoint_table \<Rightarrow> uuid \<Rightarrow> checkpoint_table" where
  "DeleteCheckpoints tab runID = filter (\<lambda>c. CPRunID c \<noteq> runID) tab"

section \<open>The checkpoint writer\<close>

record checkpoint_config =
  Events :: int
  Interval :: int
  KeepFulls :: int

record checkpoint_writer =
  CWRunID :: uuid
  CWCfg :: checkpoint_config
  lastSeq :: int
  lastAt :: timestamp

definition NewCheckpointWriter :: "uuid \<Rightarrow> checkpoint_config \<Rightarrow> timestamp \<Rightarrow> checkpoint_writer" where
  "NewCheckpointWriter runID cfg now =
     (let cfg1 = (if Events cfg \<le> 0 then cfg\<lparr>Events := 100\<rparr> else cfg);
          cfg2 = (if Interval cfg1 \<le> 0 then cfg1\<lparr>Interval := 2 * 1000000000\<rparr> else cfg1);
          cfg3 = (if KeepFulls cfg2 \<le> 0 then cfg2\<lparr>KeepFulls := 3\<rparr> else cfg2)
      in \<lparr>CWRunID = runID, CWCfg = cfg3, lastSeq = 0, lastAt = now\<rparr>)"

definition due :: "checkpoint_writer \<Rightarrow> int \<Rightarrow> timestamp \<Rightarrow> bool" where
  "due w sq now =
     (if sq \<le> lastSeq w then False
      else if sq - lastSeq w \<ge> Events (CWCfg w) then True
      else now - lastAt w \<ge> Interval (CWCfg w))"

definition Force ::
    "checkpoint_writer \<Rightarrow> checkpoint_table \<Rightarrow> run_state \<Rightarrow> int \<Rightarrow> timestamp
       \<Rightarrow> checkpoint_writer \<times> checkpoint_table" where
  "Force w tab rs ownerGeneration now =
     (let blob = Snapshot rs;
          sq = Sequence rs;
          tab1 = WriteCheckpoint tab (CWRunID w) sq ownerGeneration blob False now;
          w1 = w\<lparr>lastSeq := sq, lastAt := now\<rparr>
      in (w1, PruneCheckpoints tab1 (CWRunID w) (KeepFulls (CWCfg w))))"

definition Maybe ::
    "checkpoint_writer \<Rightarrow> checkpoint_table \<Rightarrow> run_state \<Rightarrow> int \<Rightarrow> timestamp
       \<Rightarrow> checkpoint_writer \<times> checkpoint_table" where
  "Maybe w tab rs ownerGeneration now =
     (if \<not> due w (Sequence rs) now then (w, tab) else Force w tab rs ownerGeneration now)"

section \<open>Recovery\<close>

record recovery_result =
  RcReady :: "uuid list"
  RcReDispatch :: "uuid list"
  MaxSequence :: int
  SequenceGaps :: "int list"
  RcComplete :: bool

function gap_loop :: "int \<Rightarrow> int \<Rightarrow> int list \<Rightarrow> int \<times> int list" where
  "gap_loop expected target gaps =
     (if expected < target then gap_loop (expected + 1) target (gaps @ [expected]) else (expected, gaps))"
  by pat_completeness auto
termination
  by (relation "measure (\<lambda>(expected, target, gaps). nat (target - expected))") auto

declare gap_loop.simps [simp del]

fun replay_rows :: "task_run list \<Rightarrow> run_state \<Rightarrow> int \<Rightarrow> int list \<Rightarrow> run_state \<times> int \<times> int list" where
  "replay_rows [] rs expected gaps = (rs, expected, gaps)"
| "replay_rows (row # rows) rs expected gaps =
     (let rs1 = fst (ApplyTerminalRow rs (TRTaskID row) (TRStatus row) (TRTerminalSequence row));
          (expected1, gaps1) = gap_loop expected (TRTerminalSequence row) gaps;
          expected2 = (if TRTerminalSequence row \<ge> expected1 then TRTerminalSequence row + 1 else expected1)
      in replay_rows rows rs1 expected2 gaps1)"

definition RecoverRunState ::
    "run_topology \<Rightarrow> run_checkpoint option \<Rightarrow> task_run list \<Rightarrow> run_state \<times> recovery_result" where
  "RecoverRunState tp checkpoint terminalRows =
     (let (rs, start) =
            (case checkpoint of
               None \<Rightarrow> (NewRunState tp 0, 0)
             | Some cp \<Rightarrow>
                 (case Restore tp (StateBlob cp) of
                    Inl e \<Rightarrow> (NewRunState tp 0, 0)
                  | Inr rs \<Rightarrow> (rs, SequenceHigh cp)));
          (rs1, expected, gaps) = replay_rows terminalRows rs (start + 1) [];
          (rs2, redispatch) = requeueRunning rs1
      in (rs2, \<lparr>RcReady = ReadyTasks rs2, RcReDispatch = redispatch, MaxSequence = Sequence rs1,
                SequenceGaps = gaps, RcComplete = IsComplete rs2\<rparr>))"

section \<open>Snapshot round trip\<close>

lemma foldl_inReady: "foldl (\<lambda>f i. f(i := True)) f0 is = (\<lambda>i. i \<in> set is \<or> f0 i)"
  by (induction "is" arbitrary: f0) auto

lemma js_bind_simps [simp]: "js_bind (Inl e) f = Inl e" "js_bind (Inr x) f = f x"
  by (simp_all add: js_bind_def)

lemma ToLower_tags [simp]:
  "ToLower ''status'' = ''status''" "ToLower ''attempt'' = ''attempt''" "ToLower ''claimed_by'' = ''claimed_by''"
  "ToLower ''lease_expires_at_ms'' = ''lease_expires_at_ms''" "ToLower ''tasks'' = ''tasks''"
  "ToLower ''indegree'' = ''indegree''" "ToLower ''outcomes'' = ''outcomes''" "ToLower ''ready'' = ''ready''"
  "ToLower ''sequence'' = ''sequence''" "ToLower ''terminal_count'' = ''terminal_count''" "ToLower ''total'' = ''total''"
  by code_simp+

lemma status_text_back: "(\<And>t. s \<noteq> TaskStatusOther t) \<Longrightarrow> status_of_text (status_text s) = s"
  by (cases s) (simp_all add: status_of_text_def)

lemma unmarshal_marshal_task:
  "(\<And>t. Status ts \<noteq> TaskStatusOther t) \<Longrightarrow> unmarshal_task (marshal_task ts) = Inr ts"
  by (simp add: unmarshal_task_def marshal_task_def js_member_def status_text_back)

lemma js_entries_map:
  "(\<And>k x. (k, x) \<in> set xs \<Longrightarrow> f (g x) = Inr x) \<Longrightarrow> js_entries f (map (\<lambda>(k, x). (k, g x)) xs) = Inr xs"
proof (induction xs)
  case (Cons kx xs)
  obtain k x where kx: "kx = (k, x)" by fastforce
  have "f (g x) = Inr x" using Cons.prems [of k x] by (simp add: kx)
  moreover have "js_entries f (map (\<lambda>(k, x). (k, g x)) xs) = Inr xs" by (rule Cons.IH) (rule Cons.prems, rule list.set_intros(2))
  ultimately show ?case by (simp add: kx)
qed simp

lemma map_of_graph: "map_of (map (\<lambda>i. (i, f i)) ks) i = (if i \<in> set ks then Some (f i) else None)"
  by (induction ks) auto

lemma foldl_update_distinct:
  "distinct (map fst (m @ xs)) \<Longrightarrow> foldl (\<lambda>m (k, x). AList.update k x m) m xs = m @ xs"
proof (induction xs arbitrary: m)
  case (Cons kx xs)
  obtain k x where kx: "kx = (k, x)" by fastforce
  have "AList.update k x m = m @ [(k, x)]" using Cons.prems by (intro AList_update_fresh) (auto simp: kx)
  with Cons.IH [of "m @ [(k, x)]"] Cons.prems show ?case by (simp add: kx)
qed simp

lemma js_map_map:
  assumes "\<And>k x. (k, x) \<in> set xs \<Longrightarrow> f (g x) = Inr x" "distinct (map fst xs)"
  shows "js_map f (JsMap (map (\<lambda>(k, x). (k, g x)) xs)) = Inr (Some xs)"
  using js_entries_map [of xs f g] assms foldl_update_distinct [of "[]" xs] by simp

lemma js_ids_map: "js_ids (JsArray (map JsId is)) = Inr is"
proof -
  have "map (Pair ()) (map JsId is) = map (\<lambda>(k, x). (k, JsId x)) (map (Pair ()) is)" by simp
  then show ?thesis using js_entries_map [of "map (Pair ()) is" js_id JsId] by (simp add: o_def)
qed

lemma Restore_Snapshot:
  assumes "rs_inv tp rs"
  shows "Restore tp (Snapshot rs) = Inr rs"
proof -
  have k: "topo rs = tp" "distinct (map fst (tasks rs))" "fst ` set (tasks rs) = topo_keys tp"
      "distinct (map fst (outcomes rs))" "\<And>i. i \<notin> topo_keys tp \<Longrightarrow> indegree rs i = 0"
    and st: "status_ok rs" and out: "outcomes_ok rs" and q: "queue_ok rs"
    using assms by (simp_all add: rs_inv_def rs_inv_lag_def keys_ok_def)
  have known: "Status ts \<noteq> TaskStatusOther t" if "(i, ts) \<in> set (tasks rs)" for i ts t
    using st that k(2) by (auto simp: status_ok_def task_status_of_def dest!: spec [of _ i])
  have outc: "x \<noteq> TaskStatusOther t" if "(i, x) \<in> set (outcomes rs)" for i x t
  proof -
    have "map_of (outcomes rs) i = Some x" using that k(4) by simp
    with out have "IsTerminal x" by (auto simp: outcomes_ok_def split: option.splits if_splits)
    then show ?thesis by auto
  qed
  have ts: "js_map unmarshal_task (JsMap (map (\<lambda>(i, ts). (i, marshal_task ts)) (tasks rs))) = Inr (Some (tasks rs))"
    using known k(2) by (intro js_map_map) (auto intro!: unmarshal_marshal_task)
  have "js_map js_int (JsMap (map (\<lambda>(i, n). (i, JsInt n)) (map (\<lambda>i. (i, indegree rs i)) (map fst (tasks rs)))))
      = Inr (Some (map (\<lambda>i. (i, indegree rs i)) (map fst (tasks rs))))"
    using k(2) by (intro js_map_map) (auto simp: o_def)
  then have ind: "js_map js_int (JsMap (map (\<lambda>i. (i, JsInt (indegree rs i))) (map fst (tasks rs))))
      = Inr (Some (map (\<lambda>i. (i, indegree rs i)) (map fst (tasks rs))))" by (simp add: o_def)
  have ot: "js_map (\<lambda>v. js_bind (js_text v) (\<lambda>t. Inr (status_of_text t)))
      (JsMap (map (\<lambda>(i, st). (i, JsText (status_text st))) (outcomes rs))) = Inr (Some (outcomes rs))"
    using outc k(4) js_map_map [of "outcomes rs" "\<lambda>v. js_bind (js_text v) (\<lambda>t. Inr (status_of_text t))" "\<lambda>st. JsText (status_text st)"]
    by (auto simp: status_text_back)
  have deg: "(case map_of (map (\<lambda>i. (i, indegree rs i)) (map fst (tasks rs))) i of None \<Rightarrow> 0 | Some n \<Rightarrow> n) = indegree rs i" for i
    using k(3,5) by (auto simp: map_of_graph simp del: map_map)
  have "(\<lambda>i. i \<in> set (ready rs)) = inReady rs" using q by (simp add: queue_ok_def fun_eq_iff)
  with k(1) deg show ?thesis
    by (simp add: Restore_def Snapshot_def unmarshal_snapshot_def js_member_def ts ind ot js_ids_map foldl_inReady del: js_map.simps js_ids.simps map_map)
qed

section \<open>Gap detection\<close>

lemma gap_loop_eq: "gap_loop e t g = (max e t, g @ [e .. t - 1])"
proof (induction e t g rule: gap_loop.induct)
  case (1 e t g)
  show ?case
  proof (cases "e < t")
    case True
    then have "[e .. t - 1] = e # [e + 1 .. t - 1]" by (simp add: upto.simps)
    with True 1 show ?thesis by (subst gap_loop.simps) simp
  next
    case False
    then show ?thesis by (subst gap_loop.simps) simp
  qed
qed

lemma replay_rows_state:
  "fst (replay_rows rows rs e g) =
     foldl (\<lambda>rs r. fst (ApplyTerminalRow rs (TRTaskID r) (TRStatus r) (TRTerminalSequence r))) rs rows"
  by (induction rows arbitrary: rs e g) (simp_all add: gap_loop_eq Let_def)

lemma sorted_less_below: "sorted_wrt (<) (x # xs) \<Longrightarrow> (\<And>y. y \<in> set xs \<Longrightarrow> (x::int) < y)"
  by simp

text \<open>
  On rows in strictly ascending sequence order, the reported gaps are exactly the numbers
  from the start to the last row that no row carries.
\<close>

lemma replay_rows_gaps:
  assumes "sorted_wrt (<) (map TRTerminalSequence rows)" "\<forall>r \<in> set rows. e \<le> TRTerminalSequence r"
  shows "snd (snd (replay_rows rows rs e g)) =
    g @ filter (\<lambda>n. n \<notin> TRTerminalSequence ` set rows)
          [e .. (if rows = [] then e - 1 else TRTerminalSequence (last rows))]"
  using assms
proof (induction rows arbitrary: rs e g)
  case Nil
  then show ?case by simp
next
  case (Cons r rows)
  let ?n = "TRTerminalSequence r"
  have en: "e \<le> ?n" using Cons.prems by simp
  have lt: "\<forall>q \<in> set rows. ?n < TRTerminalSequence q" using Cons.prems(1) by simp
  then have le: "\<forall>q \<in> set rows. ?n + 1 \<le> TRTerminalSequence q" by auto
  define m where "m = (if rows = [] then ?n else TRTerminalSequence (last rows))"
  have nm: "?n \<le> m" using lt by (auto simp: m_def intro: less_imp_le)
  have "snd (snd (replay_rows (r # rows) rs e g)) =
      (g @ [e .. ?n - 1]) @ filter (\<lambda>n. n \<notin> TRTerminalSequence ` set rows)
          [?n + 1 .. (if rows = [] then ?n + 1 - 1 else TRTerminalSequence (last rows))]"
    using Cons.IH [of "?n + 1"] Cons.prems(1) le en by (simp add: gap_loop_eq Let_def)
  also have "\<dots> = g @ filter (\<lambda>n. n \<notin> TRTerminalSequence ` set (r # rows)) ([e .. ?n - 1] @ [?n] @ [?n + 1 .. m])"
  proof -
    have "filter (\<lambda>n. n \<notin> TRTerminalSequence ` set (r # rows)) [e .. ?n - 1] = [e .. ?n - 1]"
      using lt by (intro filter_True) fastforce
    moreover have "filter (\<lambda>n. n \<notin> TRTerminalSequence ` set (r # rows)) [?n + 1 .. m]
        = filter (\<lambda>n. n \<notin> TRTerminalSequence ` set rows) [?n + 1 .. m]"
      by (intro filter_cong) auto
    ultimately show ?thesis by (simp add: m_def)
  qed
  also have "[e .. ?n - 1] @ [?n] @ [?n + 1 .. m] = [e .. m]"
    using upto_split3 [of e ?n m] en nm by simp
  finally show ?case by (simp add: m_def split: if_splits)
qed

section \<open>The recovered state\<close>

text \<open>
  The invariant determines the state from the terminal statuses: two states of the same
  topology that agree on them have the same open tasks, the same counters on those, the same
  live tasks and the same rule results.
\<close>

lemma rs_inv_determined:
  assumes inv: "rs_inv tp rs1" "rs_inv tp rs2"
    and agree: "\<And>i s. IsTerminal s \<Longrightarrow> task_status_of rs1 i = Some s \<longleftrightarrow> task_status_of rs2 i = Some s"
  shows "is_open rs1 = is_open rs2" "live rs1 = live rs2" "settled rs1 = settled rs2"
    "terminalCount rs1 = terminalCount rs2"
    "\<And>i. is_open rs1 i \<Longrightarrow> indegree rs1 i = indegree rs2 i"
proof -
  have tp: "topo rs1 = tp" "topo rs2 = tp" using inv by (simp_all add: rs_inv_def rs_inv_lag_def keys_ok_def)
  have known: "task_status_of r i = None \<longleftrightarrow> i \<notin> topo_keys tp" if "rs_inv tp r" for r i
    using that map_of_eq_None_iff [of "tasks r" i]
    by (auto simp: rs_inv_def rs_inv_lag_def keys_ok_def task_status_of_def)
  show op: "is_open rs1 = is_open rs2"
  proof
    fix i
    have "is_open r i \<longleftrightarrow> i \<in> topo_keys tp \<and> (\<forall>s. IsTerminal s \<longrightarrow> task_status_of r i \<noteq> Some s)"
      if "rs_inv tp r" for r
      using known [OF that, of i] by (cases "task_status_of r i") (auto simp: is_open_status)
    with inv agree show "is_open rs1 i = is_open rs2 i" by blast
  qed
  have pd: "preds_done rs1 = preds_done rs2" by (simp add: preds_done_def fun_eq_iff op tp)
  have pr: "pred_rule rs1 i = pred_rule rs2 i" if "preds_done rs1 i" for i
  proof -
    have "task_status_of rs1 p = task_status_of rs2 p" if "\<not> is_open rs1 p" for p
      using that known [OF inv(1), of p] known [OF inv(2), of p] agree [of "the (task_status_of rs1 p)" p]
      by (cases "task_status_of rs1 p") (auto simp: is_open_status)
    then have "CollectPredecessorStatuses (Predecessors tp i) (task_status_of rs1)
        = CollectPredecessorStatuses (Predecessors tp i) (task_status_of rs2)"
      using that by (intro CollectPredecessorStatuses_cong) (auto simp: preds_done_def tp)
    then show ?thesis by (simp add: pred_rule_def tp)
  qed
  show "live rs1 = live rs2"
  proof
    fix i show "live rs1 i = live rs2 i"
      using live_iff [OF inv(1), of i] live_iff [OF inv(2), of i] live_open [OF inv(1), of i]
        live_open [OF inv(2), of i] op [THEN fun_cong, of i] pd [THEN fun_cong, of i] pr [of i] by argo
  qed
  have set1: "settled r \<longleftrightarrow> (\<forall>i. is_open r i \<and> preds_done r i \<longrightarrow> pred_rule r i)" if "rs_inv tp r" for r
  proof -
    have "outcomes_ok r" using that by (simp add: rs_inv_def rs_inv_lag_def)
    with rs_inv_indegree [OF that] rule_holds_preds_done [of r] show ?thesis
      unfolding settled_def by metis
  qed
  show "settled rs1 = settled rs2"
    unfolding set1 [OF inv(1)] set1 [OF inv(2)] op [symmetric] pd [symmetric] using pr by blast
  have "{i. \<exists>s. task_status_of rs1 i = Some s \<and> IsTerminal s} = {i. \<exists>s. task_status_of rs2 i = Some s \<and> IsTerminal s}"
    using agree by blast
  then show "terminalCount rs1 = terminalCount rs2"
    using terminalCount_card(1) [OF inv(1)] terminalCount_card(1) [OF inv(2)] by simp
  show "indegree rs1 i = indegree rs2 i" if "is_open rs1 i" for i
    using inv that by (simp add: rs_inv_def rs_inv_lag_def degree_ok_def open_preds_def tp op)
qed

lemma replay_open_rows:
  assumes wf: "topo_wf tp" and inv: "rs_inv tp rs" and dist: "distinct (map TRTaskID rows)"
    and rows: "\<forall>r \<in> set rows. is_open rs (TRTaskID r) \<and> IsTerminal (TRStatus r)"
    and run: "replay_rows rows rs e g = (rs', e', g')"
  shows "rs_inv tp rs'"
    "task_status_of rs' = task_status_of rs ++ map_of (map (\<lambda>r. (TRTaskID r, TRStatus r)) rows)"
    "seq rs' = foldl max (seq rs) (map TRTerminalSequence rows)"
proof (atomize (full), insert assms(2-), induction rows arbitrary: rs e g)
  case Nil
  then show ?case by simp
next
  case (Cons r rows)
  let ?n = "TRTerminalSequence r"
  obtain rs1 rdy where a: "ApplyTerminalRow rs (TRTaskID r) (TRStatus r) ?n = (rs1, rdy)" by fastforce
  have op: "is_open rs (TRTaskID r)" "IsTerminal (TRStatus r)" using Cons.prems by simp_all
  note A = ApplyTerminalRow_open [OF wf Cons.prems(1) op a]
  have "\<forall>q \<in> set rows. is_open rs1 (TRTaskID q) \<and> IsTerminal (TRStatus q)"
  proof
    fix q assume q: "q \<in> set rows"
    then have "TRTaskID q \<noteq> TRTaskID r" using Cons.prems(2) by (metis distinct.simps(2) imageI list.simps(9) set_map)
    with q Cons.prems(3) A(2) show "is_open rs1 (TRTaskID q) \<and> IsTerminal (TRStatus q)"
      by (simp add: is_open_status)
  qed
  moreover have "distinct (map TRTaskID rows)" using Cons.prems(2) by simp
  moreover have "\<exists>e1 g1. replay_rows rows rs1 e1 g1 = (rs', e', g')"
    using Cons.prems(4) by (simp add: Let_def gap_loop_eq a) blast
  then obtain e1 g1 where "replay_rows rows rs1 e1 g1 = (rs', e', g')" by blast
  ultimately have IH: "rs_inv tp rs' \<and>
    task_status_of rs' = task_status_of rs1 ++ map_of (map (\<lambda>r. (TRTaskID r, TRStatus r)) rows) \<and>
    seq rs' = foldl max (seq rs1) (map TRTerminalSequence rows)"
    by (intro Cons.IH [OF A(1)])
  have "TRTaskID r \<notin> dom (map_of (map (\<lambda>r. (TRTaskID r, TRStatus r)) rows))"
    using Cons.prems(2) by (auto simp: dom_map_of_conv_image_fst)
  then have eq: "task_status_of rs ++ map_of (map (\<lambda>r. (TRTaskID r, TRStatus r)) (r # rows))
      = (task_status_of rs)(TRTaskID r \<mapsto> TRStatus r) ++ map_of (map (\<lambda>r. (TRTaskID r, TRStatus r)) rows)"
    by (simp add: map_add_upd_left)
  show ?case using IH unfolding eq A(2,3) by (simp only: list.map foldl_Cons)
qed

text \<open>
  What the recovering owner reads: \<open>rs0\<close> is the state it starts from (a fresh state, or the
  state of the checkpoint), \<open>rs\<close> the state of the owner that crashed, and the rows are those
  of the tasks that turned terminal in between, in sequence order.
\<close>

definition recovery_input ::
    "run_topology \<Rightarrow> run_state \<Rightarrow> run_state \<Rightarrow> run_checkpoint option \<Rightarrow> task_run list \<Rightarrow> bool" where
  "recovery_input tp rs0 rs cp rows \<longleftrightarrow>
     (case cp of None \<Rightarrow> rs0 = NewRunState tp 0
       | Some c \<Rightarrow> StateBlob c = Snapshot rs0 \<and> SequenceHigh c = seq rs0)
     \<and> extends rs0 rs
     \<and> distinct (map TRTaskID rows)
     \<and> (\<forall>r \<in> set rows. is_open rs0 (TRTaskID r) \<and> IsTerminal (TRStatus r)
           \<and> task_status_of rs (TRTaskID r) = Some (TRStatus r))
     \<and> (\<forall>i. is_open rs0 i \<and> \<not> is_open rs i \<longrightarrow> i \<in> TRTaskID ` set rows)
     \<and> seq rs0 \<le> seq rs \<and> map TRTerminalSequence rows = [seq rs0 + 1 .. seq rs]"

text \<open>The recovered state is the crashed owner's state with its running tasks back in the queue.\<close>

definition recovered ::
    "run_topology \<Rightarrow> run_state \<Rightarrow> run_state \<Rightarrow> recovery_result \<Rightarrow> bool" where
  "recovered tp rs rs' res \<longleftrightarrow> rs_inv tp rs' \<and> settled rs'
     \<and> (\<forall>i s. IsTerminal s \<longrightarrow> (task_status_of rs' i = Some s \<longleftrightarrow> task_status_of rs i = Some s))
     \<and> (\<forall>i. task_status_of rs' i \<noteq> Some TaskStatusRunning)
     \<and> set (ready rs') = {i. live rs i} \<and> RcReady res = ready rs'
     \<and> seq rs' = seq rs \<and> MaxSequence res = seq rs \<and> SequenceGaps res = []
     \<and> terminalCount rs' = terminalCount rs \<and> (RcComplete res \<longleftrightarrow> IsComplete rs)"

lemma foldl_max_upto: "m \<le> n \<Longrightarrow> foldl max m [m + 1 .. n] = (n::int)"
proof (induction "nat (n - m)" arbitrary: m)
  case 0
  then show ?case by simp
next
  case (Suc k)
  then have "[m + 1 .. n] = (m + 1) # [m + 1 + 1 .. n]" by (simp add: upto.simps)
  moreover have "foldl max (m + 1) [m + 1 + 1 .. n] = n" using Suc by (intro Suc.hyps) simp_all
  ultimately show ?case by simp
qed

lemma recovery_input_start:
  assumes "recovery_input tp rs0 rs cp rows" "rs_inv tp rs0"
  shows "RecoverRunState tp cp rows =
    (let (rs1, expected, gaps) = replay_rows rows rs0 (seq rs0 + 1) [];
         (rs2, redispatch) = requeueRunning rs1
      in (rs2, \<lparr>RcReady = ReadyTasks rs2, RcReDispatch = redispatch, MaxSequence = Sequence rs1,
                SequenceGaps = gaps, RcComplete = IsComplete rs2\<rparr>))"
proof (cases cp)
  case None
  then have "rs0 = NewRunState tp 0" using assms(1) by (simp add: recovery_input_def)
  moreover have "seq (foldl seed_ready r ks) = seq r" for r ks
    by (induction ks arbitrary: r) (simp_all add: seed_ready_def)
  moreover have "seq (foldl (new_task tp) r ks) = seq r" for r ks
    by (induction ks arbitrary: r) (simp_all add: new_task_def)
  ultimately have "seq rs0 = 0" by (simp add: NewRunState_def Let_def)
  with None \<open>rs0 = NewRunState tp 0\<close> show ?thesis by (simp add: RecoverRunState_def)
next
  case (Some c)
  moreover have "topo rs0 = tp" "queue_ok rs0"
    using assms(2) by (simp_all add: rs_inv_def rs_inv_lag_def keys_ok_def)
  ultimately show ?thesis
    using assms(1) Restore_Snapshot [OF assms(2)] by (simp add: RecoverRunState_def recovery_input_def)
qed

lemma replay_gives_state:
  assumes wf: "topo_wf tp" and inv0: "rs_inv tp rs0" and inv: "rs_inv tp rs"
    and inp: "recovery_input tp rs0 rs cp rows"
    and run: "replay_rows rows rs0 (seq rs0 + 1) [] = (rs1, e, g)"
  shows "rs_inv tp rs1" "seq rs1 = seq rs" "g = []"
    "\<And>i s. IsTerminal s \<Longrightarrow> task_status_of rs1 i = Some s \<longleftrightarrow> task_status_of rs i = Some s"
proof -
  have rows: "distinct (map TRTaskID rows)"
    "\<forall>r \<in> set rows. is_open rs0 (TRTaskID r) \<and> IsTerminal (TRStatus r)"
    "\<And>r. r \<in> set rows \<Longrightarrow> task_status_of rs (TRTaskID r) = Some (TRStatus r)"
    "\<And>i. is_open rs0 i \<Longrightarrow> \<not> is_open rs i \<Longrightarrow> i \<in> TRTaskID ` set rows"
    "seq rs0 \<le> seq rs" "map TRTerminalSequence rows = [seq rs0 + 1 .. seq rs]" "extends rs0 rs"
    using inp by (simp_all add: recovery_input_def)
  note R = replay_open_rows [OF wf inv0 rows(1,2) run]
  show "rs_inv tp rs1" by (fact R(1))
  show "seq rs1 = seq rs" using R(3) rows(5,6) by (simp add: foldl_max_upto)
  let ?m = "map_of (map (\<lambda>r. (TRTaskID r, TRStatus r)) rows)"
  have m: "?m i = (if i \<in> TRTaskID ` set rows then task_status_of rs i else None)" for i
  proof (cases "i \<in> TRTaskID ` set rows")
    case True
    then obtain r where r: "r \<in> set rows" "TRTaskID r = i" by blast
    then have "?m i = Some (TRStatus r)"
      using rows(1) by (intro map_of_is_SomeI) (auto simp: comp_def)
    with rows(3) [OF r(1)] r(2) True show ?thesis by simp
  next
    case False
    then show ?thesis by (auto simp: map_of_eq_None_iff)
  qed
  show "task_status_of rs1 i = Some s \<longleftrightarrow> task_status_of rs i = Some s" if "IsTerminal s" for i s
  proof (cases "i \<in> TRTaskID ` set rows")
    case True
    then obtain t where "task_status_of rs i = Some t" using rows(3) by auto
    with True show ?thesis by (simp add: R(2) map_add_def m)
  next
    case False
    then have same: "task_status_of rs1 i = task_status_of rs0 i" by (simp add: R(2) map_add_def m)
    show ?thesis
    proof (cases "is_open rs0 i")
      case True
      with rows(4) False have "is_open rs i" by blast
      with True same that show ?thesis by (auto simp: is_open_status)
    next
      case False
      with rows(7) same show ?thesis by (simp add: extends_def)
    qed
  qed
  have srt: "sorted_wrt (<) (map TRTerminalSequence rows)" unfolding rows(6) by simp
  have ge: "\<forall>r \<in> set rows. seq rs0 + 1 \<le> TRTerminalSequence r"
  proof
    fix r assume "r \<in> set rows"
    then have "TRTerminalSequence r \<in> set [seq rs0 + 1 .. seq rs]" unfolding rows(6) [symmetric] by simp
    then show "seq rs0 + 1 \<le> TRTerminalSequence r" by simp
  qed
  have img: "TRTerminalSequence ` set rows = {seq rs0 + 1 .. seq rs}"
    using arg_cong [OF rows(6), of set] by simp
  have "rows \<noteq> [] \<Longrightarrow> TRTerminalSequence (last rows) \<le> seq rs"
    using img last_in_set by fastforce
  then show "g = []"
    using replay_rows_gaps [OF srt ge, of rs0 "[]"] run by (auto simp: img filter_empty_conv)
qed

lemma RecoverRunState_exact:
  assumes wf: "topo_wf tp" and inv0: "rs_inv tp rs0" and inv: "rs_inv tp rs" and st: "settled rs"
    and inp: "recovery_input tp rs0 rs cp rows" and run: "RecoverRunState tp cp rows = (rs', res)"
  shows "recovered tp rs rs' res"
proof -
  obtain rs1 e g where r: "replay_rows rows rs0 (seq rs0 + 1) [] = (rs1, e, g)" using prod_cases3 by blast
  obtain rs2 out where q: "requeueRunning rs1 = (rs2, out)" by fastforce
  have res: "rs' = rs2" "res = \<lparr>RcReady = ready rs2, RcReDispatch = out, MaxSequence = seq rs1,
      SequenceGaps = g, RcComplete = IsComplete rs2\<rparr>"
    using run by (auto simp: recovery_input_start [OF inp inv0] r q ReadyTasks_def Sequence_def)
  note R = replay_gives_state [OF wf inv0 inv inp r]
  note D = rs_inv_determined [OF R(1) inv R(4)]
  note Q = requeueRunning_inv [OF R(1) q]
  have inv2: "rs_inv tp rs2" using Q(1) by (simp add: relabels_def)
  have "task_status_of rs2 i = Some s \<longleftrightarrow> task_status_of rs i = Some s" if "IsTerminal s" for i s
    using relabels_extends(2) [OF R(1) Q(1) that] R(4) [OF that] by simp
  moreover note D2 = rs_inv_determined [OF inv2 inv this]
  moreover have "settled rs2" using D2(3) st by simp
  moreover have "seq rs2 = seq rs" using Q(1) R(2) by (simp add: relabels_def)
  moreover have "IsComplete rs2 \<longleftrightarrow> IsComplete rs"
    using IsComplete_iff [OF wf inv2] IsComplete_iff [OF wf inv] D2(1) by simp
  ultimately show ?thesis
    using inv2 Q(2,3) R(2,3) D(2) D2(4) by (simp add: recovered_def res)
qed

section \<open>The contract of the checkpoint store\<close>

text \<open>
  What the writer relies on: the highest full checkpoint is found again after it was
  written, pruning never removes it, and other runs are not touched.
\<close>

locale checkpoint_log =
  fixes ok :: "'tab \<Rightarrow> bool"
    and put :: "'tab \<Rightarrow> uuid \<Rightarrow> int \<Rightarrow> int \<Rightarrow> state_blob \<Rightarrow> bool \<Rightarrow> timestamp \<Rightarrow> 'tab"
    and prune :: "'tab \<Rightarrow> uuid \<Rightarrow> int \<Rightarrow> 'tab"
    and latest :: "'tab \<Rightarrow> uuid \<Rightarrow> run_checkpoint option"
  assumes ok_write: "ok tab \<Longrightarrow> ok (put tab r n g b i t)"
    and ok_prune: "ok tab \<Longrightarrow> ok (prune tab r k)"
    and latest_write: "ok tab \<Longrightarrow> (\<And>c. latest tab r = Some c \<Longrightarrow> SequenceHigh c \<le> n) \<Longrightarrow>
      latest (put tab r n g b False t) r = Some \<lparr>CPRunID = r, SequenceHigh = n, OwnerGeneration = g,
        StateBlob = b, IsIncremental = False, CPCreatedAt = t\<rparr>"
    and latest_write_old: "ok tab \<Longrightarrow> latest tab r = Some c \<Longrightarrow> n < SequenceHigh c \<Longrightarrow>
      latest (put tab r n g b i t) r = Some c"
    and latest_prune: "ok tab \<Longrightarrow> latest (prune tab r k) r = latest tab r"
    and other_write: "r' \<noteq> r \<Longrightarrow> latest (put tab r n g b i t) r' = latest tab r'"
    and other_prune: "r' \<noteq> r \<Longrightarrow> latest (prune tab r k) r' = latest tab r'"
begin

lemma latest_force:
  assumes "ok tab" "\<And>c. latest tab r = Some c \<Longrightarrow> SequenceHigh c \<le> n"
  shows "latest (prune (put tab r n g b False t) r k) r' =
    (if r' = r then Some \<lparr>CPRunID = r, SequenceHigh = n, OwnerGeneration = g,
        StateBlob = b, IsIncremental = False, CPCreatedAt = t\<rparr> else latest tab r')"
  using assms by (simp add: latest_prune latest_write ok_write other_prune other_write)

lemma latest_force_old:
  assumes "ok tab" "latest tab r = Some c" "n < SequenceHigh c"
  shows "latest (prune (put tab r n g b i t) r k) r = Some c"
  using assms by (simp add: latest_prune latest_write_old ok_write)

end

lemma filter_update_where_other:
  "(\<And>r. P r \<Longrightarrow> \<not> Q r \<and> \<not> Q (f r)) \<Longrightarrow> filter Q (update_where P f rs) = filter Q rs"
  by (induction rs) auto

definition checkpoint_key :: "run_checkpoint \<Rightarrow> uuid \<times> int" where
  "checkpoint_key c = (CPRunID c, SequenceHigh c)"

definition checkpoints_ok :: "checkpoint_table \<Rightarrow> bool" where
  "checkpoints_ok tab \<longleftrightarrow> distinct (map checkpoint_key tab)"

lemma checkpoints_ok_inj:
  "checkpoints_ok tab \<Longrightarrow> c \<in> set tab \<Longrightarrow> d \<in> set tab \<Longrightarrow> checkpoint_key c = checkpoint_key d \<Longrightarrow> c = d"
  by (auto simp: checkpoints_ok_def distinct_map dest: inj_onD)

definition is_full :: "uuid \<Rightarrow> run_checkpoint \<Rightarrow> bool" where
  "is_full r c \<longleftrightarrow> CPRunID c = r \<and> \<not> IsIncremental c"

lemma full_checkpoints_eq: "full_checkpoints tab r = sort_key (\<lambda>c. - SequenceHigh c) (filter (is_full r) tab)"
  by (simp add: full_checkpoints_def is_full_def [abs_def])

lemma LatestFullCheckpoint_eqI:
  assumes "checkpoints_ok tab" "c \<in> set tab" "is_full r c"
    "\<And>d. d \<in> set tab \<Longrightarrow> is_full r d \<Longrightarrow> SequenceHigh d \<le> SequenceHigh c"
  shows "LatestFullCheckpoint tab r = Some c"
proof -
  let ?fs = "full_checkpoints tab r"
  have s: "set ?fs = {d \<in> set tab. is_full r d}" by (auto simp: full_checkpoints_eq)
  then obtain d ds where d: "?fs = d # ds" using assms(2,3) by (cases ?fs) auto
  have "sorted (map (\<lambda>c. - SequenceHigh c) (d # ds))"
    unfolding d [symmetric] full_checkpoints_eq by (rule sorted_sort_key)
  then have "\<forall>x \<in> set ?fs. SequenceHigh x \<le> SequenceHigh d" unfolding d by auto
  then have "SequenceHigh c \<le> SequenceHigh d" using s assms(2,3) by auto
  moreover have "d \<in> set tab" "is_full r d" using s d by auto
  ultimately have "c = d"
    using assms by (intro checkpoints_ok_inj) (auto simp: checkpoint_key_def is_full_def intro: antisym)
  with d show ?thesis by (simp add: LatestFullCheckpoint_def)
qed

lemma LatestFullCheckpoint_SomeD:
  assumes "LatestFullCheckpoint tab r = Some c"
  shows "c \<in> set tab" "is_full r c" "\<And>d. d \<in> set tab \<Longrightarrow> is_full r d \<Longrightarrow> SequenceHigh d \<le> SequenceHigh c"
proof -
  let ?fs = "full_checkpoints tab r"
  have s: "set ?fs = {d \<in> set tab. is_full r d}" by (auto simp: full_checkpoints_eq)
  obtain ds where d: "?fs = c # ds"
    using assms by (auto simp: LatestFullCheckpoint_def split: list.splits)
  with s show "c \<in> set tab" "is_full r c" by auto
  have "sorted (map (\<lambda>c. - SequenceHigh c) (c # ds))"
    unfolding d [symmetric] full_checkpoints_eq by (rule sorted_sort_key)
  then have "\<forall>x \<in> set ?fs. SequenceHigh x \<le> SequenceHigh c" unfolding d by auto
  with s show "\<And>d. d \<in> set tab \<Longrightarrow> is_full r d \<Longrightarrow> SequenceHigh d \<le> SequenceHigh c" by auto
qed

lemma LatestFullCheckpoint_None:
  "LatestFullCheckpoint tab r = None \<longleftrightarrow> (\<forall>d \<in> set tab. \<not> is_full r d)"
proof -
  have "set (full_checkpoints tab r) = {d \<in> set tab. is_full r d}" by (auto simp: full_checkpoints_eq)
  then show ?thesis by (cases "full_checkpoints tab r") (auto simp: LatestFullCheckpoint_def)
qed

lemma WriteCheckpoint_set:
  "set (WriteCheckpoint tab r n g b i t) =
     insert \<lparr>CPRunID = r, SequenceHigh = n, OwnerGeneration = g, StateBlob = b, IsIncremental = i, CPCreatedAt = t\<rparr>
       {c \<in> set tab. checkpoint_key c \<noteq> (r, n)}"
  by (auto simp: WriteCheckpoint_def Let_def set_update_where checkpoint_key_def list_ex_iff)

lemma WriteCheckpoint_ok: "checkpoints_ok tab \<Longrightarrow> checkpoints_ok (WriteCheckpoint tab r n g b i t)"
proof -
  assume ok: "checkpoints_ok tab"
  let ?cp = "\<lparr>CPRunID = r, SequenceHigh = n, OwnerGeneration = g, StateBlob = b, IsIncremental = i, CPCreatedAt = t\<rparr>"
  have "map checkpoint_key (update_where (\<lambda>c. CPRunID c = r \<and> SequenceHigh c = n) (\<lambda>_. ?cp) tab) = map checkpoint_key tab"
    by (rule map_update_where) (simp add: checkpoint_key_def)
  moreover have "(r, n) \<notin> set (map checkpoint_key tab)" if "\<not> list_ex (\<lambda>c. CPRunID c = r \<and> SequenceHigh c = n) tab"
    using that by (auto simp: checkpoint_key_def list_ex_iff)
  ultimately show ?thesis
    using ok by (simp add: checkpoints_ok_def WriteCheckpoint_def Let_def checkpoint_key_def [of ?cp])
qed

lemma PruneCheckpoints_set:
  "set (PruneCheckpoints tab r k) \<subseteq> set tab"
  "c \<in> set tab \<Longrightarrow> CPRunID c \<noteq> r \<Longrightarrow> c \<in> set (PruneCheckpoints tab r k)"
  by (auto simp: PruneCheckpoints_def Let_def split: if_splits)

lemma PruneCheckpoints_keeps_latest:
  assumes "LatestFullCheckpoint tab r = Some c"
  shows "c \<in> set (PruneCheckpoints tab r k)"
proof -
  note L = LatestFullCheckpoint_SomeD [OF assms]
  define kk where "kk = (if k < 1 then 1 else k)"
  define ks where "ks = take (nat kk) (map SequenceHigh (full_checkpoints tab r))"
  have "x \<le> SequenceHigh c" if "x \<in> set ks" for x
  proof -
    from that obtain d where "d \<in> set (full_checkpoints tab r)" "x = SequenceHigh d"
      unfolding ks_def by (auto dest!: in_set_takeD)
    then show ?thesis using L(3) [of d] by (auto simp: full_checkpoints_eq)
  qed
  then have last: "ks \<noteq> [] \<Longrightarrow> ks ! (length ks - 1) \<le> SequenceHigh c" by (metis last_conv_nth last_in_set)
  have eq: "PruneCheckpoints tab r k = (if int (length ks) < kk then tab
      else filter (\<lambda>c. \<not> (CPRunID c = r \<and> SequenceHigh c < ks ! (length ks - 1))) tab)"
    by (simp only: PruneCheckpoints_def Let_def kk_def [symmetric] ks_def [symmetric])
  have "1 \<le> kk" by (simp add: kk_def)
  then show ?thesis
    using L(1) last by (cases "ks = []") (simp_all add: eq not_less)
qed

interpretation checkpoints: checkpoint_log checkpoints_ok WriteCheckpoint PruneCheckpoints LatestFullCheckpoint
proof
  fix tab :: checkpoint_table and r r' :: uuid and n g k :: int and b :: state_blob and i :: bool and t :: timestamp
  show "checkpoints_ok tab \<Longrightarrow> checkpoints_ok (WriteCheckpoint tab r n g b i t)" by (rule WriteCheckpoint_ok)
  show prune_ok: "checkpoints_ok tab \<Longrightarrow> checkpoints_ok (PruneCheckpoints tab r k)"
    by (auto simp: checkpoints_ok_def PruneCheckpoints_def Let_def distinct_map_filter)
  show "LatestFullCheckpoint (WriteCheckpoint tab r n g b False t) r = Some \<lparr>CPRunID = r, SequenceHigh = n,
      OwnerGeneration = g, StateBlob = b, IsIncremental = False, CPCreatedAt = t\<rparr>"
    if "checkpoints_ok tab" "\<And>c. LatestFullCheckpoint tab r = Some c \<Longrightarrow> SequenceHigh c \<le> n"
  proof (rule LatestFullCheckpoint_eqI)
    fix d assume "d \<in> set (WriteCheckpoint tab r n g b False t)" "is_full r d"
    then consider "SequenceHigh d = n" | "d \<in> set tab" "is_full r d" by (auto simp: WriteCheckpoint_set)
    then show "SequenceHigh d \<le> SequenceHigh \<lparr>CPRunID = r, SequenceHigh = n, OwnerGeneration = g,
        StateBlob = b, IsIncremental = False, CPCreatedAt = t\<rparr>"
    proof cases
      case 2
      then obtain c where c: "LatestFullCheckpoint tab r = Some c"
        using LatestFullCheckpoint_None [of tab r] by auto
      from LatestFullCheckpoint_SomeD(3) [OF c 2] that(2) [OF c] show ?thesis by simp
    qed simp
  qed (use that(1) in \<open>auto simp: WriteCheckpoint_ok WriteCheckpoint_set is_full_def\<close>)
  show "LatestFullCheckpoint (WriteCheckpoint tab r n g b i t) r = Some c"
    if "checkpoints_ok tab" "LatestFullCheckpoint tab r = Some c" "n < SequenceHigh c" for c
  proof (rule LatestFullCheckpoint_eqI)
    note c = LatestFullCheckpoint_SomeD [OF that(2)]
    show "checkpoints_ok (WriteCheckpoint tab r n g b i t)" by (rule WriteCheckpoint_ok [OF that(1)])
    show "c \<in> set (WriteCheckpoint tab r n g b i t)" using c that(3) by (auto simp: WriteCheckpoint_set checkpoint_key_def)
    show "is_full r c" by (rule c(2))
    show "SequenceHigh d \<le> SequenceHigh c" if "d \<in> set (WriteCheckpoint tab r n g b i t)" "is_full r d" for d
      using that c(3) \<open>n < SequenceHigh c\<close> by (auto simp: WriteCheckpoint_set)
  qed
  show "LatestFullCheckpoint (PruneCheckpoints tab r k) r = LatestFullCheckpoint tab r" if "checkpoints_ok tab"
  proof (cases "LatestFullCheckpoint tab r")
    case None
    then have "LatestFullCheckpoint (PruneCheckpoints tab r k) r = None"
      using PruneCheckpoints_set(1) [of tab r k] unfolding LatestFullCheckpoint_None by blast
    with None show ?thesis by simp
  next
    case (Some c)
    have "LatestFullCheckpoint (PruneCheckpoints tab r k) r = Some c"
      using LatestFullCheckpoint_SomeD [OF Some] PruneCheckpoints_set(1) [of tab r k]
      by (intro LatestFullCheckpoint_eqI prune_ok [OF that] PruneCheckpoints_keeps_latest [OF Some]) blast+
    with Some show ?thesis by simp
  qed
  show "LatestFullCheckpoint (WriteCheckpoint tab r n g b i t) r' = LatestFullCheckpoint tab r'" if "r' \<noteq> r"
  proof -
    have "filter (is_full r') (WriteCheckpoint tab r n g b i t) = filter (is_full r') tab"
      using that by (auto simp: WriteCheckpoint_def Let_def is_full_def intro!: filter_update_where_other)
    then show ?thesis by (simp add: LatestFullCheckpoint_def full_checkpoints_eq)
  qed
  show "LatestFullCheckpoint (PruneCheckpoints tab r k) r' = LatestFullCheckpoint tab r'" if "r' \<noteq> r"
  proof -
    have "filter (is_full r') (PruneCheckpoints tab r k) = filter (is_full r') tab"
      using that by (auto simp: PruneCheckpoints_def Let_def is_full_def intro!: filter_cong)
    then show ?thesis by (simp add: LatestFullCheckpoint_def full_checkpoints_eq)
  qed
qed

lemma Write_other_runs:
  "filter (\<lambda>c. CPRunID c \<noteq> r) (WriteCheckpoint tab r n g b i t) = filter (\<lambda>c. CPRunID c \<noteq> r) tab"
  by (auto simp: WriteCheckpoint_def Let_def intro!: filter_update_where_other)

lemma Prune_other_runs:
  "filter (\<lambda>c. CPRunID c \<noteq> r) (PruneCheckpoints tab r k) = filter (\<lambda>c. CPRunID c \<noteq> r) tab"
  by (auto simp: PruneCheckpoints_def Let_def intro!: filter_cong)


section \<open>Properties\<close>

text \<open>
  C21. A checkpoint can be read back: the JSON value that a snapshot writes for a state of the
  engine, member by member under the tags of the structs, the empty claim and lease of a task left
  out, decodes and restores to exactly that state. The topology, which is not written, comes from
  the caller, and the membership index of the ready queue, which is not written either, is rebuilt.
\<close>

theorem snapshot_roundtrip:
  assumes "rs_inv tp rs"
  shows "Restore tp (Snapshot rs) = Inr rs"
  by (rule Restore_Snapshot [OF assms])

theorem snapshot_roundtrip_witness: "Restore diamond (Snapshot diamond_left) = Inr diamond_left"
  by (rule snapshot_roundtrip)
     (use engine_reachable [OF diamond_wf diamond_ok diamond_reachable(2)] in \<open>simp add: engine_inv_def\<close>)

text \<open>
  C22. Gap detection is exact: when the rows carry strictly ascending sequence numbers above the
  checkpoint's, the reported gaps are, in order, exactly the numbers between the checkpoint and
  the last row that no row carries.
\<close>

theorem recovery_gaps_exact:
  assumes "Restore tp (StateBlob cp) = Inr rs0"
    and "sorted_wrt (<) (map TRTerminalSequence rows)" "rows \<noteq> []"
    and "SequenceHigh cp < TRTerminalSequence (hd rows)"
  shows "SequenceGaps (snd (RecoverRunState tp (Some cp) rows)) =
    filter (\<lambda>n. n \<notin> TRTerminalSequence ` set rows) [SequenceHigh cp + 1 .. TRTerminalSequence (last rows)]"
proof -
  obtain r rs where rows: "rows = r # rs" using assms(3) by (cases rows) auto
  have ge: "\<forall>q \<in> set rows. SequenceHigh cp + 1 \<le> TRTerminalSequence q"
    using assms(2,4) by (auto simp: rows)
  from replay_rows_gaps [OF assms(2) ge, of rs0 "[]"] assms(3) show ?thesis
    by (simp add: RecoverRunState_def assms(1) Let_def case_prod_beta)
qed

definition gap_row :: "int \<Rightarrow> uuid \<Rightarrow> task_run" where
  "gap_row n t = (sample_row 10 t TaskStatusSucceeded)\<lparr>TRTerminalSequence := n\<rparr>"

theorem recovery_gaps_exact_witness:
  "let cp = \<lparr>CPRunID = 10, SequenceHigh = 1, OwnerGeneration = 1, StateBlob = Snapshot diamond_one,
             IsIncremental = False, CPCreatedAt = 0\<rparr>
   in SequenceGaps (snd (RecoverRunState diamond (Some cp) [gap_row 3 2, gap_row 6 3])) = [2, 4, 5]"
proof -
  let ?cp = "\<lparr>CPRunID = 10, SequenceHigh = 1, OwnerGeneration = 1, StateBlob = Snapshot diamond_one,
             IsIncremental = False, CPCreatedAt = 0\<rparr> :: run_checkpoint"
  have "rs_inv diamond diamond_one"
    using engine_reachable [OF diamond_wf diamond_ok diamond_reachable(1)] by (simp add: engine_inv_def)
  then have "Restore diamond (StateBlob ?cp) = Inr diamond_one" using Restore_Snapshot by simp
  from recovery_gaps_exact [OF this, of "[gap_row 3 2, gap_row 6 3]"] show ?thesis
    by (simp add: gap_row_def upto.simps)
qed

text \<open>
  C23. What a forced checkpoint leaves for recovery, in a table whose primary key (run and
  sequence) is unique. An owner that is up to date replaces the latest full checkpoint of its run:
  the snapshot just taken is the one recovery finds, whatever the retention. A stale owner, whose
  state is behind the latest full checkpoint, does not: recovery still finds that one. Every
  checkpoint of every other run is left as it was.
\<close>

theorem forced_checkpoint_found:
  assumes "checkpoints_ok tab"
  shows "LatestFullCheckpoint (snd (Force w tab rs g now)) (CWRunID w) = Some
      (let cp = \<lparr>CPRunID = CWRunID w, SequenceHigh = seq rs, OwnerGeneration = g, StateBlob = Snapshot rs,
                 IsIncremental = False, CPCreatedAt = now\<rparr>
       in case LatestFullCheckpoint tab (CWRunID w) of None \<Rightarrow> cp
          | Some c \<Rightarrow> if seq rs < SequenceHigh c then c else cp)
    \<and> filter (\<lambda>c. CPRunID c \<noteq> CWRunID w) (snd (Force w tab rs g now))
      = filter (\<lambda>c. CPRunID c \<noteq> CWRunID w) tab"
proof (rule conjI)
  show "LatestFullCheckpoint (snd (Force w tab rs g now)) (CWRunID w) = Some
      (let cp = \<lparr>CPRunID = CWRunID w, SequenceHigh = seq rs, OwnerGeneration = g, StateBlob = Snapshot rs,
                 IsIncremental = False, CPCreatedAt = now\<rparr>
       in case LatestFullCheckpoint tab (CWRunID w) of None \<Rightarrow> cp
          | Some c \<Rightarrow> if seq rs < SequenceHigh c then c else cp)"
    using checkpoints.latest_force [OF assms, of "CWRunID w" "seq rs" _ _ _ _ "CWRunID w"]
      checkpoints.latest_force_old [OF assms, of "CWRunID w" _ "seq rs"]
    by (cases "LatestFullCheckpoint tab (CWRunID w)") (auto simp: Force_def Let_def Sequence_def)
  show "filter (\<lambda>c. CPRunID c \<noteq> CWRunID w) (snd (Force w tab rs g now)) = filter (\<lambda>c. CPRunID c \<noteq> CWRunID w) tab"
    by (simp add: Force_def Let_def Sequence_def Prune_other_runs Write_other_runs)
qed

theorem forced_checkpoint_found_witness:
  "LatestFullCheckpoint (snd (Force \<lparr>CWRunID = 10, CWCfg = \<lparr>Events = 1, Interval = 1, KeepFulls = 1\<rparr>, lastSeq = 0, lastAt = 0\<rparr>
     [] diamond_left 2 9)) 10 = Some \<lparr>CPRunID = 10, SequenceHigh = 4, OwnerGeneration = 2,
        StateBlob = Snapshot diamond_left, IsIncremental = False, CPCreatedAt = 9\<rparr>"
proof -
  have "seq diamond_left = 4" by code_simp
  with forced_checkpoint_found [of "[]" "\<lparr>CWRunID = 10, CWCfg = \<lparr>Events = 1, Interval = 1, KeepFulls = 1\<rparr>,
      lastSeq = 0, lastAt = 0\<rparr>" diamond_left 2 9]
  show ?thesis by (simp add: checkpoints_ok_def LatestFullCheckpoint_def full_checkpoints_def)
qed

end
