(* ===== verification/Task_Store.thy ===== *)
theory Task_Store
  imports Store_DB
begin

text \<open>
  The task operations of the run store on the SQL path (\<open>internal/run/store.go\<close>): claiming,
  starting, releasing, completing, caching, failing, retrying and skipping a task, with the
  propagation to its successors, and the durable write of the owner path
  (\<open>CompleteTaskOwner\<close>). Every operation is a transaction of \<open>Store_DB\<close>. The rendering of
  a UUID in messages is the third-party package's and appears as the argument \<open>ustr\<close>.
\<close>

section \<open>Events\<close>

definition the_job_run :: "uuid \<Rightarrow> job_run tx" where
  "the_job_run runID = tx_first db_job_runs (\<lambda>j. JRID j = runID)"

definition the_task_run :: "uuid \<Rightarrow> uuid \<Rightarrow> task_run tx" where
  "the_task_run runID taskID = tx_first db_task_runs (is_row runID taskID)"

definition recordTaskEventTx :: "event_type \<Rightarrow> uuid \<Rightarrow> uuid \<Rightarrow> unit tx" where
  "recordTaskEventTx eventType runID taskID =
     tx_bind (the_task_run runID taskID) (\<lambda>taskRun.
     tx_bind (the_job_run runID) (\<lambda>jobRun.
     append_event \<lparr>EVType = eventType, EVJobID = JRJobID jobRun, EVRunID = runID, EVTaskID = taskID,
                   EVQuarantine = (TRQuarantine taskRun \<or> JRQuarantine jobRun)\<rparr>))"

definition stampEventQuarantineTx :: "execution_event \<Rightarrow> execution_event tx" where
  "stampEventQuarantineTx evt =
     (if EVRunID evt = uuid_Nil then tx_ok evt
      else if EVTaskID evt \<noteq> uuid_Nil
        then tx_bind (the_task_run (EVRunID evt) (EVTaskID evt)) (\<lambda>r.
               tx_ok (evt\<lparr>EVQuarantine := TRQuarantine r\<rparr>))
      else tx_bind (the_job_run (EVRunID evt)) (\<lambda>j. tx_ok (evt\<lparr>EVQuarantine := JRQuarantine j\<rparr>)))"

definition appendTaskReadyEventTx :: "uuid \<Rightarrow> uuid \<Rightarrow> unit tx" where
  "appendTaskReadyEventTx runID taskID =
     tx_bind (the_job_run runID) (\<lambda>jobRun.
     tx_bind (stampEventQuarantineTx \<lparr>EVType = TypeTaskReady, EVJobID = JRJobID jobRun, EVRunID = runID,
                EVTaskID = taskID, EVQuarantine = False\<rparr>) append_event)"

text \<open>
  The batch form stamps all events from one read of the run rows and one read of the task
  rows per run; a run or task without a row aborts the transaction.
\<close>

definition stampBatchEventQuarantineTx :: "execution_event list \<Rightarrow> execution_event list tx" where
  "stampBatchEventQuarantineTx evts = (\<lambda>db.
     (let withRun = filter (\<lambda>e. EVRunID e \<noteq> uuid_Nil) evts;
          runIDs = remdups (map EVRunID withRun);
          taskIDs = (\<lambda>r. remdups (map EVTaskID (filter (\<lambda>e. EVRunID e = r \<and> EVTaskID e \<noteq> uuid_Nil) withRun)));
          taskRows = (\<lambda>r. filter (\<lambda>t. TRJobRunID t = r \<and> TRTaskID t \<in> set (taskIDs r)) (db_task_runs db));
          runQuarantine = (\<lambda>r. list_ex (\<lambda>j. JRID j = r \<and> JRQuarantine j) (db_job_runs db));
          taskQuarantine = (\<lambda>r t. list_ex (\<lambda>x. is_row r t x \<and> TRQuarantine x) (db_task_runs db))
      in if runIDs = [] then Inr (evts, db)
         else if list_ex (\<lambda>r. \<not> list_ex (\<lambda>j. JRID j = r) (db_job_runs db)) runIDs then Inl ErrRecordNotFound
         else if list_ex (\<lambda>r. length (taskRows r) \<noteq> length (taskIDs r)) runIDs then Inl ErrRecordNotFound
         else Inr (map (\<lambda>e. if EVRunID e = uuid_Nil then e
                            else e\<lparr>EVQuarantine := runQuarantine (EVRunID e)
                                   \<or> (EVTaskID e \<noteq> uuid_Nil \<and> taskQuarantine (EVRunID e) (EVTaskID e))\<rparr>) evts, db)))"

definition appendBatchEventsTx :: "execution_event list \<Rightarrow> unit tx" where
  "appendBatchEventsTx evts =
     (if evts = [] then tx_ok ()
      else tx_bind (stampBatchEventQuarantineTx evts) (\<lambda>stamped.
             tx_modify (\<lambda>db. db\<lparr>db_events := db_events db @ stamped\<rparr>)))"

section \<open>Claiming and starting\<close>

definition StartTask :: "uuid \<Rightarrow> uuid \<Rightarrow> string \<Rightarrow> timestamp \<Rightarrow> unit tx" where
  "StartTask runID taskID runtimeID now =
     tx_bind (update_task_runs
       (\<lambda>r. is_row runID taskID r \<and> TRStatus r \<notin> set terminalStatusStrings)
       (\<lambda>r. r\<lparr>TRStatus := TaskStatusRunning, TRRuntimeID := runtimeID, TRStartedAt := Some now,
              TRRateLimitRetryAfter := None\<rparr>)) (\<lambda>affected.
     if affected = 0 then tx_ok () else recordTaskEventTx TypeTaskStarted runID taskID)"

definition rate_limit_passed :: "timestamp \<Rightarrow> task_run \<Rightarrow> bool" where
  "rate_limit_passed now r \<longleftrightarrow> (case TRRateLimitRetryAfter r of None \<Rightarrow> True | Some t \<Rightarrow> t \<le> now)"

definition ClaimTaskForDispatch ::
    "uuid \<Rightarrow> uuid \<Rightarrow> string \<Rightarrow> int \<Rightarrow> int \<Rightarrow> bool \<Rightarrow> timestamp \<Rightarrow> unit tx" where
  "ClaimTaskForDispatch runID taskID workerNode ownerGeneration leaseTTL trustOwnerReadiness now =
     tx_bind (update_task_runs
       (\<lambda>r. is_row runID taskID r \<and> TRStatus r = TaskStatusPending \<and> TRClaimedBy r = ''''
            \<and> (trustOwnerReadiness \<or> TROutstandingPredecessors r = 0)
            \<and> TROwnerGeneration r \<le> ownerGeneration \<and> rate_limit_passed now r)
       (\<lambda>r. r\<lparr>TRStatus := TaskStatusRunning, TRClaimedBy := workerNode,
              TRClaimExpiresAt := Some (now + leaseTTL), TRClaimAttempt := TRClaimAttempt r + 1,
              TRStartedAt := Some now, TROwnerGeneration := ownerGeneration,
              TRRateLimitRetryAfter := None\<rparr>)) (\<lambda>affected.
     if affected = 0 then tx_fail ErrTaskClaimMismatch
     else recordTaskEventTx TypeTaskStarted runID taskID)"

definition PendingTasksForDispatch :: "store_db \<Rightarrow> uuid \<Rightarrow> int \<Rightarrow> timestamp \<Rightarrow> task_run list" where
  "PendingTasksForDispatch db runID limit0 now =
     (let limit = (if limit0 \<le> 0 then 64 else limit0)
      in take (nat limit) (sort_key TRCreatedAt (filter
           (\<lambda>r. TRJobRunID r = runID \<and> TRStatus r = TaskStatusPending \<and> TRClaimedBy r = ''''
                \<and> TROutstandingPredecessors r = 0 \<and> rate_limit_passed now r) (db_task_runs db))))"

definition LoadDispatchedTaskRun :: "store_db \<Rightarrow> uuid \<Rightarrow> uuid \<Rightarrow> string \<Rightarrow> store_error + task_run" where
  "LoadDispatchedTaskRun db runID taskID claimedBy =
     (case find (\<lambda>r. is_row runID taskID r \<and> TRClaimedBy r = claimedBy \<and> TRStatus r = TaskStatusRunning)
            (db_task_runs db) of
        None \<Rightarrow> Inl ErrTaskClaimMismatch
      | Some r \<Rightarrow> Inr r)"

definition ReleaseTaskClaim :: "uuid \<Rightarrow> uuid \<Rightarrow> string \<Rightarrow> int \<Rightarrow> unit tx" where
  "ReleaseTaskClaim runID taskID claimedBy ownerGeneration =
     tx_bind (update_task_runs
       (\<lambda>r. is_row runID taskID r \<and> TRClaimedBy r = claimedBy \<and> TRStatus r = TaskStatusRunning
            \<and> (TROwnerGeneration r = ownerGeneration \<or> TROwnerGeneration r = 0))
       (\<lambda>r. r\<lparr>TRStatus := TaskStatusPending, TRClaimedBy := '''', TRClaimExpiresAt := None,
              TRRuntimeID := '''', TRStartedAt := None\<rparr>)) (\<lambda>_. tx_ok ())"

definition RateLimitTask :: "uuid \<Rightarrow> uuid \<Rightarrow> timestamp option \<Rightarrow> timestamp \<Rightarrow> unit tx" where
  "RateLimitTask runID taskID retryAfter0 now =
     (let retryAfter = (case retryAfter0 of None \<Rightarrow> now | Some t \<Rightarrow> t)
      in tx_bind (update_task_runs
           (\<lambda>r. is_row runID taskID r \<and> TRStatus r \<in> set [TaskStatusPending, TaskStatusRunning])
           (\<lambda>r. r\<lparr>TRStatus := TaskStatusPending, TRClaimedBy := '''', TRClaimExpiresAt := None,
                  TRRuntimeID := '''', TRStartedAt := None, TRRateLimitRetryAfter := Some retryAfter\<rparr>))
           (\<lambda>_. tx_ok ()))"

definition StartTaskClaimed :: "uuid \<Rightarrow> uuid \<Rightarrow> string \<Rightarrow> string \<Rightarrow> timestamp \<Rightarrow> unit tx" where
  "StartTaskClaimed runID taskID runtimeID claimedBy now =
     tx_bind (update_task_runs
       (\<lambda>r. is_row runID taskID r \<and> TRClaimedBy r = claimedBy \<and> TRStatus r = TaskStatusRunning)
       (\<lambda>r. r\<lparr>TRRuntimeID := runtimeID, TRStartedAt := Some now, TRRateLimitRetryAfter := None\<rparr>))
     (\<lambda>affected. if affected = 0 then tx_fail ErrTaskClaimMismatch
                 else recordTaskEventTx TypeTaskStarted runID taskID)"

section \<open>Successors\<close>

fun firstNonEmpty :: "string list \<Rightarrow> string" where
  "firstNonEmpty [] = ''''"
| "firstNonEmpty (v # vs) = (if TrimSpace v \<noteq> '''' then v else firstNonEmpty vs)"

text \<open>
  The execution descriptor of a quarantined replay: absent unless the task row or its run is
  quarantined, an error when it is then missing, undecodable or of another version.
\<close>

definition replayTaskExecutionDescriptorTx :: "uuid \<Rightarrow> uuid \<Rightarrow> task_execution_descriptor option tx" where
  "replayTaskExecutionDescriptorTx runID taskID = (\<lambda>db.
     case find (\<lambda>(r, j). is_row runID taskID r \<and> JRID j = TRJobRunID r)
            (List.product (db_task_runs db) (db_job_runs db)) of
       None \<Rightarrow> Inr (None, db)
     | Some (r, j) \<Rightarrow>
         if \<not> TRQuarantine r \<and> \<not> JRQuarantine j then Inr (None, db)
         else (case TRExecutionDescriptor r of
             NoDescriptor \<Rightarrow> Inl (StoreErr ''run: replay task execution descriptor missing'')
           | UndecodableDescriptor e \<Rightarrow> Inl (StoreErr (''run: decode replay task execution descriptor: '' @ e))
           | Descriptor d \<Rightarrow>
               if SchemaVersion d \<noteq> TaskExecutionDescriptorSchemaVersion
               then Inl (StoreErr ''run: unsupported replay task execution descriptor version'')
               else Inr (Some d, db)))"

definition after_task :: "task_model \<Rightarrow> task_model \<Rightarrow> bool" where
  "after_task task t \<longleftrightarrow> TMJobID t = TMJobID task \<and>
     (TMPosition t > TMPosition task \<or> (TMPosition t = TMPosition task \<and> TMCreatedAt t > TMCreatedAt task))"

text \<open>
  The out-edges of a task; for a job without any edge, the next task by position and creation
  time (a stable sort on the creation time and then on the position).
\<close>

definition successorEdges :: "store_db \<Rightarrow> task_model \<Rightarrow> task_edge list" where
  "successorEdges db task =
     (let edges = filter (\<lambda>e. TEFromTaskID e = TMID task) (db_task_edges db)
      in if edges \<noteq> [] then edges
         else if list_ex (\<lambda>e. TEJobID e = TMJobID task) (db_task_edges db) then edges
         else (case sort_key TMPosition (sort_key TMCreatedAt (filter (after_task task) (db_tasks db))) of
                 [] \<Rightarrow> edges
               | next # _ \<Rightarrow> [\<lparr>TEJobID = uuid_Nil, TEFromTaskID = uuid_Nil, TEToTaskID = TMID next\<rparr>]))"

definition successorEdgesTx :: "task_model \<Rightarrow> task_edge list tx" where
  "successorEdgesTx task = tx_read (\<lambda>db. successorEdges db task)"

definition descriptor_edges :: "uuid \<Rightarrow> task_execution_descriptor \<Rightarrow> task_edge list" where
  "descriptor_edges taskID d = map
     (\<lambda>s. \<lparr>TEJobID = uuid_Nil, TEFromTaskID = taskID, TEToTaskID = RefTaskID s\<rparr>)
     (filter (\<lambda>s. RefTaskID s \<noteq> uuid_Nil) (DSuccessors d))"

definition successorEdgesForRunTx :: "uuid \<Rightarrow> uuid \<Rightarrow> task_model \<Rightarrow> task_edge list tx" where
  "successorEdgesForRunTx runID taskID task =
     tx_bind (replayTaskExecutionDescriptorTx runID taskID) (\<lambda>dsc.
       case dsc of Some d \<Rightarrow> tx_ok (descriptor_edges taskID d) | None \<Rightarrow> successorEdgesTx task)"

text \<open>
  Names of the successors of a branch task: the map from name to task (a later entry
  overwrites an earlier one) and the list of names for the error message.
\<close>

definition descriptor_names :: "(uuid \<Rightarrow> string) \<Rightarrow> task_execution_descriptor \<Rightarrow> (string \<times> uuid) list" where
  "descriptor_names ustr d = map (\<lambda>s. (firstNonEmpty [RefTaskName s, ustr (RefTaskID s)], RefTaskID s))
     (filter (\<lambda>s. RefTaskID s \<noteq> uuid_Nil) (DSuccessors d))"

definition catalog_names :: "store_db \<Rightarrow> task_edge list \<Rightarrow> (string \<times> uuid) list" where
  "catalog_names db edges =
     map (\<lambda>t. (TMName t, TMID t))
       (filter (\<lambda>t. TMID t \<in> set (map TEToTaskID edges) \<and> TMName t \<noteq> '''') (db_tasks db))"

definition name_map :: "(string \<times> uuid) list \<Rightarrow> string \<Rightarrow> uuid option" where
  "name_map names = map_of (rev names)"

definition successorNameMapTx ::
    "(uuid \<Rightarrow> string) \<Rightarrow> task_execution_descriptor option \<Rightarrow> task_edge list
       \<Rightarrow> ((string \<Rightarrow> uuid option) \<times> string list) tx" where
  "successorNameMapTx ustr dsc edges = (case dsc of
       Some d \<Rightarrow> (let names = descriptor_names ustr d in tx_ok (name_map names, map fst names))
     | None \<Rightarrow> tx_read (\<lambda>db. let names = catalog_names db edges in (name_map names, map fst names)))"

definition batchDecrementPredecessorsTx :: "uuid \<Rightarrow> uuid list \<Rightarrow> task_run list tx" where
  "batchDecrementPredecessorsTx runID successorIDs =
     (if successorIDs = [] then tx_ok []
      else tx_bind (update_task_runs
             (\<lambda>r. TRJobRunID r = runID \<and> TRTaskID r \<in> set successorIDs)
             (\<lambda>r. r\<lparr>TROutstandingPredecessors :=
                (if TROutstandingPredecessors r > 0 then TROutstandingPredecessors r - 1 else 0)\<rparr>)) (\<lambda>_.
           tx_read (\<lambda>db. filter (\<lambda>r. TRJobRunID r = runID \<and> TRTaskID r \<in> set successorIDs) (db_task_runs db))))"

definition statuses_of :: "store_db \<Rightarrow> uuid \<Rightarrow> uuid list \<Rightarrow> task_status list" where
  "statuses_of db runID predIDs =
     map TRStatus (filter (\<lambda>r. TRJobRunID r = runID \<and> TRTaskID r \<in> set predIDs) (db_task_runs db))"

definition predecessorStatusesTx :: "uuid \<Rightarrow> uuid \<Rightarrow> task_status list tx" where
  "predecessorStatusesTx runID taskID =
     tx_bind (replayTaskExecutionDescriptorTx runID taskID) (\<lambda>dsc.
       case dsc of
         Some d \<Rightarrow>
           (let predIDs = filter (\<lambda>i. i \<noteq> uuid_Nil) (map RefTaskID (DPredecessors d))
            in if predIDs = [] then tx_ok [] else tx_read (\<lambda>db. statuses_of db runID predIDs))
       | None \<Rightarrow> tx_read (\<lambda>db.
           let edges = filter (\<lambda>e. TEToTaskID e = taskID) (db_task_edges db)
           in if edges = [] then [] else statuses_of db runID (map TEFromTaskID edges)))"

definition shouldRunTaskTx :: "uuid \<Rightarrow> uuid \<Rightarrow> (bool \<times> string) tx" where
  "shouldRunTaskTx runID taskID =
     tx_bind (replayTaskExecutionDescriptorTx runID taskID) (\<lambda>dsc.
       case dsc of
         Some d \<Rightarrow>
           (let rule = normalizedTriggerRule (DTriggerRule d)
            in tx_bind (predecessorStatusesTx runID taskID) (\<lambda>ss.
                 tx_ok (store_satisfiesTriggerRule rule ss, rule)))
       | None \<Rightarrow>
           tx_bind (tx_first db_tasks (\<lambda>t. TMID t = taskID)) (\<lambda>task.
           tx_bind (predecessorStatusesTx runID taskID) (\<lambda>ss.
             tx_ok (store_satisfiesTriggerRule (TMTriggerRule task) ss,
                    normalizedTriggerRule (TMTriggerRule task)))))"

section \<open>Skipping\<close>

definition markTaskSkippedTx :: "uuid \<Rightarrow> uuid \<Rightarrow> string \<Rightarrow> timestamp \<Rightarrow> bool tx" where
  "markTaskSkippedTx runID taskID reason now =
     tx_bind (update_task_runs
       (\<lambda>r. is_row runID taskID r \<and> TRStatus r = TaskStatusPending)
       (\<lambda>r. r\<lparr>TRStatus := TaskStatusSkipped, TRCompletedAt := Some now, TRError := reason,
              TRCacheHit := False, TRCacheOrigin := None\<rparr>)) (\<lambda>affected.
     if affected = 0 then tx_ok False
     else tx_bind (recordTaskEventTx TypeTaskSkipped runID taskID) (\<lambda>_. tx_ok True))"

text \<open>
  The successor loop of the skip cascade: the value is the list of further tasks to skip, with
  their reasons. \<open>updated\<close> are the successor rows read right after the decrement; a later row
  of the same task overwrites an earlier one in the lookup map.
\<close>

fun skip_edges ::
    "uuid \<Rightarrow> task_run list \<Rightarrow> task_edge list \<Rightarrow> (uuid \<times> string) list tx" where
  "skip_edges runID updated [] = tx_ok []"
| "skip_edges runID updated (edge # edges) =
     (case find (\<lambda>r. TRTaskID r = TEToTaskID edge) (rev updated) of
        None \<Rightarrow> skip_edges runID updated edges
      | Some successor \<Rightarrow>
          if TRStatus successor \<noteq> TaskStatusPending \<or> TROutstandingPredecessors successor \<noteq> 0
          then skip_edges runID updated edges
          else tx_bind (shouldRunTaskTx runID (TEToTaskID edge)) (\<lambda>(shouldRun, rule).
            if shouldRun
            then tx_bind (appendTaskReadyEventTx runID (TEToTaskID edge)) (\<lambda>_. skip_edges runID updated edges)
            else tx_bind (skip_edges runID updated edges) (\<lambda>more.
              tx_ok ((TEToTaskID edge, ''trigger rule '' @ quoteQ rule @ '' not satisfied'') # more))))"

text \<open>One turn of the work list: \<open>None\<close> when the task was not pending.\<close>

definition skip_turn :: "uuid \<Rightarrow> uuid \<Rightarrow> string \<Rightarrow> timestamp \<Rightarrow> (uuid \<times> string) list option tx" where
  "skip_turn runID taskID reason now =
     tx_bind (markTaskSkippedTx runID taskID reason now) (\<lambda>marked.
     if \<not> marked then tx_ok None
     else
       tx_bind (replayTaskExecutionDescriptorTx runID taskID) (\<lambda>dsc.
       tx_bind (case dsc of
                  Some d \<Rightarrow> tx_ok \<lparr>TMID = taskID, TMJobID = uuid_Nil, TMName = '''', TMPosition = 0,
                                   TMType = '''', TMTriggerRule = '''', TMCreatedAt = 0, TMRateLimitResource = '''', TMRateLimitUnits = 0\<rparr>
                | None \<Rightarrow> tx_first db_tasks (\<lambda>t. TMID t = taskID)) (\<lambda>task.
       tx_bind (successorEdgesForRunTx runID taskID task) (\<lambda>edges.
       tx_bind (batchDecrementPredecessorsTx runID (map TEToTaskID edges)) (\<lambda>updated.
       tx_bind (skip_edges runID updated edges) (\<lambda>more. tx_ok (Some more)))))))"

definition pending_rows :: "store_db \<Rightarrow> nat" where
  "pending_rows db = length (filter (\<lambda>r. TRStatus r = TaskStatusPending) (db_task_runs db))"

section \<open>Row relations kept by transactions\<close>

text \<open>
  Most statements relate each task-run row to what it becomes. For a reflexive and transitive
  relation on rows, the interface below gives the rules of sequential composition once; it is
  used for the termination of the skip cascade and for the finality of terminal statuses.
\<close>

definition tx_rows :: "(task_run \<Rightarrow> task_run \<Rightarrow> bool) \<Rightarrow> 'a tx \<Rightarrow> bool" where
  "tx_rows Q m \<longleftrightarrow> (\<forall>db x db'. m db = Inr (x, db') \<longrightarrow> list_all2 Q (db_task_runs db) (db_task_runs db'))"

lemma tx_rowsD: "tx_rows Q m \<Longrightarrow> m db = Inr (x, db') \<Longrightarrow> list_all2 Q (db_task_runs db) (db_task_runs db')"
  by (simp add: tx_rows_def)

lemma tx_rows_update:
  assumes "\<And>r. P r \<Longrightarrow> Q r (f r)" "\<And>r. Q r r"
  shows "tx_rows Q (update_task_runs P f)"
  using assms by (auto simp: tx_rows_def update_task_runs_def update_where_def list_all2_conv_all_nth)

locale row_relation =
  fixes Q :: "task_run \<Rightarrow> task_run \<Rightarrow> bool"
  assumes row_refl: "Q r r" and row_trans: "Q r s \<Longrightarrow> Q s t \<Longrightarrow> Q r t"
begin

lemma rows_refl: "list_all2 Q rs rs"
  by (simp add: list_all2_conv_all_nth row_refl)

lemma rows_trans: "list_all2 Q rs ss \<Longrightarrow> list_all2 Q ss ts \<Longrightarrow> list_all2 Q rs ts"
  by (rule list_all2_trans [of Q Q Q]) (auto intro: row_trans)

lemma rows_bind:
  assumes "tx_rows Q m" "\<And>x. tx_rows Q (f x)"
  shows "tx_rows Q (tx_bind m f)"
proof -
  have "list_all2 Q (db_task_runs db) (db_task_runs db')" if run: "tx_bind m f db = Inr (y, db')" for db y db'
  proof -
    obtain x db1 where 1: "m db = Inr (x, db1)" "f x db1 = Inr (y, db')"
      using run by (auto simp: tx_bind_def split: sum.splits)
    from tx_rowsD [OF assms(1) 1(1)] tx_rowsD [OF assms(2) 1(2)] show ?thesis by (rule rows_trans)
  qed
  then show ?thesis by (auto simp: tx_rows_def)
qed

lemma rows_basic:
  "tx_rows Q (tx_ok x)" "tx_rows Q (tx_fail e)" "tx_rows Q (tx_read g)" "tx_rows Q (tx_first tab P)"
  "tx_rows Q (append_event ev)"
  by (auto simp: tx_rows_def tx_ok_def tx_fail_def tx_read_def tx_first_def append_event_def tx_modify_def
      rows_refl split: option.splits)

lemma rows_events:
  "tx_rows Q (recordTaskEventTx et runID taskID)"
  "tx_rows Q (stampEventQuarantineTx ev)"
  "tx_rows Q (appendTaskReadyEventTx runID taskID)"
  "tx_rows Q (stampBatchEventQuarantineTx evs)"
  "tx_rows Q (appendBatchEventsTx evs)"
proof -
  show "tx_rows Q (recordTaskEventTx et runID taskID)"
    by (auto simp: recordTaskEventTx_def the_task_run_def the_job_run_def intro!: rows_bind rows_basic)
  show st: "tx_rows Q (stampEventQuarantineTx ev)" for ev
    by (auto simp: stampEventQuarantineTx_def the_task_run_def the_job_run_def intro!: rows_bind rows_basic)
  show "tx_rows Q (appendTaskReadyEventTx runID taskID)"
    by (auto simp: appendTaskReadyEventTx_def the_job_run_def intro!: rows_bind rows_basic st)
  show sb: "tx_rows Q (stampBatchEventQuarantineTx evs)"
    by (auto simp: tx_rows_def stampBatchEventQuarantineTx_def Let_def rows_refl split: if_splits)
  show "tx_rows Q (appendBatchEventsTx evs)"
    by (auto simp: appendBatchEventsTx_def intro!: rows_bind rows_basic sb)
       (simp add: tx_rows_def tx_modify_def rows_refl)
qed

lemma rows_reads:
  "tx_rows Q (replayTaskExecutionDescriptorTx runID taskID)"
  "tx_rows Q (successorEdgesForRunTx runID taskID task)"
  "tx_rows Q (successorNameMapTx ustr dsc edges)"
  "tx_rows Q (predecessorStatusesTx runID taskID)"
  "tx_rows Q (shouldRunTaskTx runID taskID)"
proof -
  show d: "tx_rows Q (replayTaskExecutionDescriptorTx runID taskID)" for runID taskID
    by (auto simp: tx_rows_def replayTaskExecutionDescriptorTx_def rows_refl
        split: option.splits prod.splits if_splits descriptor_column.splits)
  show "tx_rows Q (successorEdgesForRunTx runID taskID task)"
    by (auto simp: successorEdgesForRunTx_def successorEdgesTx_def intro!: rows_bind rows_basic d split: option.splits)
  show "tx_rows Q (successorNameMapTx ustr dsc edges)"
    by (auto simp: successorNameMapTx_def Let_def intro!: rows_basic split: option.splits)
  show p: "tx_rows Q (predecessorStatusesTx runID taskID)" for runID taskID
    by (auto simp: predecessorStatusesTx_def Let_def intro!: rows_bind rows_basic d split: option.splits)
  show "tx_rows Q (shouldRunTaskTx runID taskID)"
    by (auto simp: shouldRunTaskTx_def Let_def intro!: rows_bind rows_basic d p split: option.splits)
qed

lemma rows_skip_edges: "tx_rows Q (skip_edges runID updated edges)"
  by (induction edges)
     (auto intro!: rows_bind rows_basic rows_reads rows_events split: option.splits)

end

locale decrement_relation = row_relation +
  assumes row_decrement: "Q r (r\<lparr>TROutstandingPredecessors := n\<rparr>)"
begin

lemma rows_decrement: "tx_rows Q (batchDecrementPredecessorsTx runID ids)"
  by (auto simp: batchDecrementPredecessorsTx_def
      intro!: rows_bind rows_basic tx_rows_update row_refl row_decrement)

end

definition same_status :: "task_run \<Rightarrow> task_run \<Rightarrow> bool" where
  "same_status r r' \<longleftrightarrow> TRStatus r' = TRStatus r"

interpretation same_status: decrement_relation same_status
  by unfold_locales (simp_all add: same_status_def)

lemma same_status_pending:
  "list_all2 same_status rs rs' \<Longrightarrow>
     length (filter (\<lambda>r. TRStatus r = TaskStatusPending) rs')
       = length (filter (\<lambda>r. TRStatus r = TaskStatusPending) rs)"
  by (induction rule: list_all2_induct) (auto simp: same_status_def)

lemma tx_rows_pending: "tx_rows same_status m \<Longrightarrow> m db = Inr (x, db') \<Longrightarrow> pending_rows db' = pending_rows db"
  using same_status_pending by (auto simp: pending_rows_def dest: tx_rowsD)

lemma pending_update_where:
  assumes "\<And>r. P r \<Longrightarrow> TRStatus r = TaskStatusPending" "\<And>r. TRStatus (f r) = TaskStatusSkipped"
  shows "length (filter (\<lambda>r. TRStatus r = TaskStatusPending) (update_where P f rs)) + rows_affected P rs
       = length (filter (\<lambda>r. TRStatus r = TaskStatusPending) rs)"
  using assms by (induction rs) (auto simp: rows_affected_def)

lemma markTaskSkipped_pending:
  assumes "markTaskSkippedTx runID taskID reason now db = Inr (marked, db')"
  shows "if marked then pending_rows db' < pending_rows db else db' = db"
proof -
  let ?P = "\<lambda>r. is_row runID taskID r \<and> TRStatus r = TaskStatusPending"
  let ?f = "\<lambda>r. r\<lparr>TRStatus := TaskStatusSkipped, TRCompletedAt := Some now, TRError := reason,
              TRCacheHit := False, TRCacheOrigin := None\<rparr>"
  let ?db = "db\<lparr>db_task_runs := update_where ?P ?f (db_task_runs db)\<rparr>"
  have eq: "pending_rows ?db + rows_affected ?P (db_task_runs db) = pending_rows db"
    using pending_update_where [of ?P ?f "db_task_runs db"] by (simp add: pending_rows_def)
  show ?thesis
  proof (cases "rows_affected ?P (db_task_runs db) = 0")
    case True
    then have "?db = db" by (simp add: rows_affected_zero update_where_none)
    with True assms show ?thesis by (auto simp: markTaskSkippedTx_def tx_simps)
  next
    case False
    then obtain u where "marked" "recordTaskEventTx TypeTaskSkipped runID taskID ?db = Inr (u, db')"
      using assms by (auto simp: markTaskSkippedTx_def tx_bind_def update_task_runs_def tx_ok_def split: sum.splits)
    with tx_rows_pending [OF same_status.rows_events(1)] eq False show ?thesis by fastforce
  qed
qed

lemma skip_turn_pending:
  assumes "skip_turn runID taskID reason now db = Inr (out, db')"
  shows "case out of None \<Rightarrow> db' = db | Some _ \<Rightarrow> pending_rows db' < pending_rows db"
proof -
  obtain marked db1 where m: "markTaskSkippedTx runID taskID reason now db = Inr (marked, db1)"
    using assms by (auto simp: skip_turn_def tx_bind_def split: sum.splits)
  show ?thesis
  proof (cases marked)
    case False
    with m assms markTaskSkipped_pending [OF m] show ?thesis by (auto simp: skip_turn_def tx_bind_def tx_ok_def)
  next
    case True
    let ?rest = "tx_bind (replayTaskExecutionDescriptorTx runID taskID) (\<lambda>dsc.
       tx_bind (case dsc of
                  Some d \<Rightarrow> tx_ok \<lparr>TMID = taskID, TMJobID = uuid_Nil, TMName = '''', TMPosition = 0,
                                   TMType = '''', TMTriggerRule = '''', TMCreatedAt = 0, TMRateLimitResource = '''', TMRateLimitUnits = 0\<rparr>
                | None \<Rightarrow> tx_first db_tasks (\<lambda>t. TMID t = taskID)) (\<lambda>task.
       tx_bind (successorEdgesForRunTx runID taskID task) (\<lambda>edges.
       tx_bind (batchDecrementPredecessorsTx runID (map TEToTaskID edges)) (\<lambda>updated.
       tx_bind (skip_edges runID updated edges) (\<lambda>more. tx_ok (Some more))))))"
    have r: "?rest db1 = Inr (out, db')" using assms m True by (simp add: skip_turn_def tx_bind_def [of "markTaskSkippedTx _ _ _ _"])
    have "tx_rows same_status ?rest"
      by (auto intro!: same_status.rows_bind same_status.rows_basic same_status.rows_reads
          same_status.rows_decrement same_status.rows_skip_edges split: option.splits)
    from tx_rows_pending [OF this r] markTaskSkipped_pending [OF m] True r show ?thesis
      by (auto simp: tx_bind_def tx_ok_def split: option.splits sum.splits)
  qed
qed

section \<open>The skip cascade\<close>

function skip_loop ::
    "uuid \<Rightarrow> timestamp \<Rightarrow> (uuid \<times> string) list \<Rightarrow> uuid list \<Rightarrow> uuid list tx" where
  "skip_loop runID now [] skipped db = Inr (skipped, db)"
| "skip_loop runID now ((taskID, reason) # queue) skipped db =
     (case skip_turn runID taskID reason now db of
        Inl e \<Rightarrow> Inl e
      | Inr (None, db1) \<Rightarrow> skip_loop runID now queue skipped db1
      | Inr (Some enq, db1) \<Rightarrow> skip_loop runID now (queue @ enq) (skipped @ [taskID]) db1)"
  by pat_completeness auto
termination
  by (relation "measures [\<lambda>(runID, now, queue, skipped, db). pending_rows db,
                          \<lambda>(runID, now, queue, skipped, db). length queue]")
     (auto dest!: skip_turn_pending)

definition skipTaskAndDescendantsTx :: "uuid \<Rightarrow> uuid \<Rightarrow> string \<Rightarrow> timestamp \<Rightarrow> uuid list tx" where
  "skipTaskAndDescendantsTx runID taskID reason now = skip_loop runID now [(taskID, reason)] []"

section \<open>Completing a task\<close>

definition claim_row :: "uuid \<Rightarrow> uuid \<Rightarrow> string \<Rightarrow> bool \<Rightarrow> task_run \<Rightarrow> bool" where
  "claim_row runID taskID claimedBy enforceClaim r \<longleftrightarrow>
     is_row runID taskID r \<and> (enforceClaim \<longrightarrow> TRClaimedBy r = claimedBy)"

text \<open>
  The column updates of a completion: output and branch selections only when present, the
  error only for a failure.
\<close>

definition completion_columns ::
    "task_status \<Rightarrow> string \<Rightarrow> (string \<times> string) list \<Rightarrow> string list \<Rightarrow> bool
       \<Rightarrow> (uuid \<times> timestamp \<times> timestamp option) option \<Rightarrow> timestamp \<Rightarrow> task_run \<Rightarrow> task_run" where
  "completion_columns status result output branchSelections cacheHit cacheOrigin now r =
     (let r1 = r\<lparr>TRStatus := status, TRCompletedAt := Some now, TRResult := result,
                 TRCacheHit := cacheHit, TRCacheOrigin := cacheOrigin\<rparr>;
          r2 = (if output \<noteq> [] then r1\<lparr>TROutput := output\<rparr> else r1);
          r3 = (if branchSelections \<noteq> [] then r2\<lparr>TRBranchSelections := branchSelections\<rparr> else r2)
      in if status = TaskStatusFailed then r3\<lparr>TRError := failureMessage result\<rparr> else r3)"

text \<open>The task model and type: from the descriptor of a replay, else from the catalog.\<close>

definition taskModelTx :: "uuid \<Rightarrow> task_execution_descriptor option \<Rightarrow> (task_model \<times> string) tx" where
  "taskModelTx taskID dsc = (case dsc of
       Some d \<Rightarrow> tx_ok (\<lparr>TMID = taskID, TMJobID = uuid_Nil, TMName = '''', TMPosition = 0,
                        TMType = '''', TMTriggerRule = '''', TMCreatedAt = 0, TMRateLimitResource = '''', TMRateLimitUnits = 0\<rparr>,
                       firstNonEmpty [DTaskType d, DBranchBehavior d, ''task''])
     | None \<Rightarrow> tx_bind (tx_first db_tasks (\<lambda>t. TMID t = taskID)) (\<lambda>t. tx_ok (t, TMType t)))"

fun join_sp :: "string list \<Rightarrow> string" where
  "join_sp [] = ''''"
| "join_sp [s] = s"
| "join_sp (s # ss) = s @ '' '' @ join_sp ss"

definition unknown_branch :: "string \<Rightarrow> string list \<Rightarrow> store_error" where
  "unknown_branch name validTargets = StoreErr (''branch selected unknown step '' @ quoteQ name
     @ ''; valid targets: ['' @ join_sp validTargets @ '']'')"

text \<open>
  The selected successors of a branch task: \<open>None\<close> when there is nothing to filter. Selecting
  an unknown step is an error on completion; a cache hit ignores unknown names.
\<close>

definition branchSelectionTx ::
    "(uuid \<Rightarrow> string) \<Rightarrow> bool \<Rightarrow> task_execution_descriptor option \<Rightarrow> string \<Rightarrow> task_edge list \<Rightarrow> string list
       \<Rightarrow> uuid list option tx" where
  "branchSelectionTx ustr strict dsc taskType edges branchSelections =
     (if edges \<noteq> [] \<and> taskType = ''branch''
      then tx_bind (successorNameMapTx ustr dsc edges) (\<lambda>(nameToID, validTargets).
             case find (\<lambda>n. n \<notin> set validTargets) branchSelections of
               Some n \<Rightarrow> if strict then tx_fail (unknown_branch n validTargets)
                         else tx_ok (Some (List.map_filter nameToID branchSelections))
             | None \<Rightarrow> tx_ok (Some (List.map_filter nameToID branchSelections)))
      else tx_ok None)"

text \<open>The partition loop: not-selected successors are skipped, the others will be decremented.\<close>

fun partition_edges ::
    "(uuid \<Rightarrow> string) \<Rightarrow> uuid \<Rightarrow> uuid \<Rightarrow> timestamp \<Rightarrow> uuid list option \<Rightarrow> task_edge list
       \<Rightarrow> (uuid list \<times> uuid list) tx" where
  "partition_edges ustr runID taskID now sel [] = tx_ok ([], [])"
| "partition_edges ustr runID taskID now sel (edge # edges) =
     (if (case sel of None \<Rightarrow> False | Some ids \<Rightarrow> TEToTaskID edge \<notin> set ids)
      then tx_bind (skipTaskAndDescendantsTx runID (TEToTaskID edge)
                      (''not selected by branch task '' @ ustr taskID) now) (\<lambda>skipped.
           tx_bind (partition_edges ustr runID taskID now sel edges) (\<lambda>(skipped', dec).
             tx_ok (skipped @ skipped', dec)))
      else tx_bind (partition_edges ustr runID taskID now sel edges) (\<lambda>(skipped', dec).
             tx_ok (skipped', TEToTaskID edge # dec)))"

text \<open>The loop over the decremented successors: ready events to emit and tasks skipped.\<close>

fun settle_successors ::
    "uuid \<Rightarrow> timestamp \<Rightarrow> task_run list \<Rightarrow> (execution_event list \<times> uuid list) tx" where
  "settle_successors runID now [] = tx_ok ([], [])"
| "settle_successors runID now (successor # rest) =
     (if TROutstandingPredecessors successor \<noteq> 0 \<or> TRStatus successor \<noteq> TaskStatusPending
      then settle_successors runID now rest
      else tx_bind (shouldRunTaskTx runID (TRTaskID successor)) (\<lambda>(shouldRun, rule).
        if shouldRun
        then tx_bind (the_job_run runID) (\<lambda>jobRun.
             tx_bind (settle_successors runID now rest) (\<lambda>(evts, skipped).
               tx_ok (\<lparr>EVType = TypeTaskReady, EVJobID = JRJobID jobRun, EVRunID = runID,
                       EVTaskID = TRTaskID successor, EVQuarantine = False\<rparr> # evts, skipped)))
        else tx_bind (skipTaskAndDescendantsTx runID (TRTaskID successor)
                        (''trigger rule '' @ quoteQ rule @ '' not satisfied'') now) (\<lambda>skipped.
             tx_bind (settle_successors runID now rest) (\<lambda>(evts, skipped').
               tx_ok (evts, skipped @ skipped')))))"

text \<open>
  The propagation shared by \<open>completeTask\<close> and \<open>cacheHitTask\<close>, from the descriptor lookup to
  the batch of events; the value is the list of skipped tasks.
\<close>

definition propagateTx ::
    "(uuid \<Rightarrow> string) \<Rightarrow> bool \<Rightarrow> event_type \<Rightarrow> uuid \<Rightarrow> uuid \<Rightarrow> string list \<Rightarrow> timestamp \<Rightarrow> uuid list tx" where
  "propagateTx ustr strict eventType runID taskID branchSelections now =
     tx_bind (replayTaskExecutionDescriptorTx runID taskID) (\<lambda>dsc.
     tx_bind (taskModelTx taskID dsc) (\<lambda>(taskModel, taskType).
     tx_bind (successorEdgesForRunTx runID taskID taskModel) (\<lambda>edges.
     tx_bind (branchSelectionTx ustr strict dsc taskType edges branchSelections) (\<lambda>sel.
     tx_bind (partition_edges ustr runID taskID now sel edges) (\<lambda>(skipped1, toDecrementIDs).
     tx_bind (batchDecrementPredecessorsTx runID toDecrementIDs) (\<lambda>updatedSuccessors.
     tx_bind (settle_successors runID now updatedSuccessors) (\<lambda>(readyEvts, skipped2).
     tx_bind (the_task_run runID taskID) (\<lambda>taskRunModel.
     tx_bind (the_job_run runID) (\<lambda>jobRun.
     tx_bind (appendBatchEventsTx (\<lparr>EVType = eventType, EVJobID = JRJobID jobRun, EVRunID = runID,
                EVTaskID = taskID, EVQuarantine = False\<rparr> # readyEvts)) (\<lambda>_.
       tx_ok (skipped1 @ skipped2)))))))))))"

definition completeTask ::
    "(uuid \<Rightarrow> string) \<Rightarrow> uuid \<Rightarrow> uuid \<Rightarrow> string \<Rightarrow> string \<Rightarrow> bool \<Rightarrow> (string \<times> string) list \<Rightarrow> string list
       \<Rightarrow> timestamp \<Rightarrow> uuid list tx" where
  "completeTask ustr runID taskID result claimedBy enforceClaim output branchSelections now =
     (let status = taskStatusFromResult result
      in tx_bind (tx_read (\<lambda>db. find (claim_row runID taskID claimedBy enforceClaim) (db_task_runs db))) (\<lambda>found.
         if (case found of Some taskRun \<Rightarrow> IsTerminal (TRStatus taskRun) | None \<Rightarrow> False) then tx_ok []
         else if found = None \<and> enforceClaim then tx_fail ErrTaskClaimMismatch
         else tx_bind (update_task_runs (claim_row runID taskID claimedBy enforceClaim)
                (completion_columns status result output branchSelections False None now)) (\<lambda>affected.
           if enforceClaim \<and> affected = 0 then tx_fail ErrTaskClaimMismatch
           else if status = TaskStatusFailed
             then tx_bind (recordTaskEventTx TypeTaskFailed runID taskID) (\<lambda>_. tx_ok [])
           else propagateTx ustr True TypeTaskSucceeded runID taskID branchSelections now)))"

definition cacheHitTask ::
    "(uuid \<Rightarrow> string) \<Rightarrow> uuid \<Rightarrow> uuid \<Rightarrow> uuid \<times> timestamp \<times> timestamp option \<Rightarrow> string \<Rightarrow> string \<Rightarrow> bool
       \<Rightarrow> (string \<times> string) list \<Rightarrow> string list \<Rightarrow> timestamp \<Rightarrow> uuid list tx" where
  "cacheHitTask ustr runID taskID source result claimedBy enforceClaim output branchSelections now =
     tx_bind (tx_read (\<lambda>db. find (claim_row runID taskID claimedBy enforceClaim) (db_task_runs db))) (\<lambda>found.
       case found of
         None \<Rightarrow> tx_fail (if enforceClaim then ErrTaskClaimMismatch else ErrRecordNotFound)
       | Some taskRun \<Rightarrow>
           if IsTerminal (TRStatus taskRun) then tx_ok []
           else tx_bind (update_task_runs (claim_row runID taskID claimedBy enforceClaim)
                  (completion_columns TaskStatusCached result output branchSelections True (Some source) now)) (\<lambda>affected.
             if enforceClaim \<and> affected = 0 then tx_fail ErrTaskClaimMismatch
             else propagateTx ustr False TypeTaskCached runID taskID branchSelections now))"

section \<open>The owner's durable write\<close>

definition owner_columns ::
    "task_status \<Rightarrow> string \<Rightarrow> string \<Rightarrow> (string \<times> string) list \<Rightarrow> string list \<Rightarrow> int \<Rightarrow> int \<Rightarrow> timestamp
       \<Rightarrow> task_run \<Rightarrow> task_run" where
  "owner_columns status result errMsg output branchSelections completedSeq ownerGen now r =
     (let r1 = r\<lparr>TRStatus := status, TRCompletedAt := Some now, TRResult := result,
                 TRTerminalSequence := completedSeq, TROwnerGeneration := ownerGen,
                 TRCacheHit := (status = TaskStatusCached)\<rparr>;
          r2 = (if output \<noteq> [] then r1\<lparr>TROutput := output\<rparr> else r1);
          r3 = (if branchSelections \<noteq> [] then r2\<lparr>TRBranchSelections := branchSelections\<rparr> else r2)
      in if status = TaskStatusFailed
         then r3\<lparr>TRError := (if errMsg \<noteq> '''' then errMsg else failureMessage result)\<rparr> else r3)"

definition owner_skip_columns :: "skipped_task \<Rightarrow> int \<Rightarrow> timestamp \<Rightarrow> task_run \<Rightarrow> task_run" where
  "owner_skip_columns sk ownerGen now r = r\<lparr>TRStatus := TaskStatusSkipped, TRCompletedAt := Some now,
     TRError := SkReason sk, TRTerminalSequence := SkTerminalSequence sk, TROwnerGeneration := ownerGen\<rparr>"

fun write_skips :: "uuid \<Rightarrow> int \<Rightarrow> timestamp \<Rightarrow> skipped_task list \<Rightarrow> unit tx" where
  "write_skips runID ownerGen now [] = tx_ok ()"
| "write_skips runID ownerGen now (sk # sks) =
     tx_bind (update_task_runs
       (\<lambda>r. is_row runID (SkTaskID sk) r \<and> TRStatus r \<notin> set terminalStatusStrings)
       (owner_skip_columns sk ownerGen now)) (\<lambda>affected.
     if affected = 0 then write_skips runID ownerGen now sks
     else tx_bind (recordTaskEventTx TypeTaskSkipped runID (SkTaskID sk)) (\<lambda>_.
            write_skips runID ownerGen now sks))"

definition CompleteTaskOwner ::
    "uuid \<Rightarrow> uuid \<Rightarrow> task_status \<Rightarrow> string \<Rightarrow> string \<Rightarrow> string \<Rightarrow> (string \<times> string) list \<Rightarrow> string list
       \<Rightarrow> int \<Rightarrow> int \<Rightarrow> skipped_task list \<Rightarrow> timestamp \<Rightarrow> unit tx" where
  "CompleteTaskOwner runID taskID status result errMsg claimedBy output branchSelections completedSeq ownerGen skips now =
     tx_bind (tx_read (\<lambda>db. find (claim_row runID taskID claimedBy True) (db_task_runs db))) (\<lambda>found.
       if found = None then tx_fail ErrTaskClaimMismatch
       else tx_bind (update_task_runs (claim_row runID taskID claimedBy True)
              (owner_columns status result errMsg output branchSelections completedSeq ownerGen now)) (\<lambda>affected.
         if affected = 0 then tx_fail ErrTaskClaimMismatch
         else tx_bind (recordTaskEventTx (if status = TaskStatusFailed then TypeTaskFailed else TypeTaskSucceeded)
                         runID taskID) (\<lambda>_.
              write_skips runID ownerGen now skips)))"

section \<open>Failing, retrying, skipping and resetting\<close>

definition failTask :: "uuid \<Rightarrow> uuid \<Rightarrow> string \<Rightarrow> string \<Rightarrow> bool \<Rightarrow> timestamp \<Rightarrow> unit tx" where
  "failTask runID taskID errMsg claimedBy enforceClaim now =
     tx_bind (tx_read (\<lambda>db. find (claim_row runID taskID claimedBy enforceClaim) (db_task_runs db))) (\<lambda>found.
       if found = None \<and> enforceClaim then tx_fail ErrTaskClaimMismatch
       else tx_bind (update_task_runs (claim_row runID taskID claimedBy enforceClaim)
              (\<lambda>r. r\<lparr>TRStatus := TaskStatusFailed, TRCompletedAt := Some now, TRError := errMsg,
                     TRCacheHit := False, TRCacheOrigin := None\<rparr>)) (\<lambda>affected.
         if enforceClaim \<and> affected = 0 then tx_fail ErrTaskClaimMismatch
         else recordTaskEventTx TypeTaskFailed runID taskID))"

definition retryTask :: "uuid \<Rightarrow> uuid \<Rightarrow> int \<Rightarrow> string \<Rightarrow> bool \<Rightarrow> unit tx" where
  "retryTask runID taskID attempt claimedBy enforceClaim =
     tx_bind (update_task_runs (claim_row runID taskID claimedBy enforceClaim)
       (\<lambda>r. r\<lparr>TRStatus := TaskStatusPending, TRAttempt := attempt, TRRuntimeID := '''', TRStartedAt := None,
              TRCompletedAt := None, TRResult := '''', TROutput := [], TRBranchSelections := [],
              TRError := '''', TRRateLimitRetryAfter := None, TRCacheHit := False,
              TRCacheOrigin := None\<rparr>)) (\<lambda>affected.
     if enforceClaim \<and> affected = 0 then tx_fail ErrTaskClaimMismatch
     else tx_bind (the_task_run runID taskID) (\<lambda>taskRunModel.
          tx_bind (the_job_run runID) (\<lambda>jobRun.
            appendBatchEventsTx (\<lparr>EVType = TypeTaskRetrying, EVJobID = JRJobID jobRun, EVRunID = runID,
                EVTaskID = taskID, EVQuarantine = False\<rparr> #
              (if TROutstandingPredecessors taskRunModel = 0
               then [\<lparr>EVType = TypeTaskReady, EVJobID = JRJobID jobRun, EVRunID = runID,
                      EVTaskID = taskID, EVQuarantine = False\<rparr>] else [])))))"

definition SkipTask :: "uuid \<Rightarrow> uuid \<Rightarrow> string \<Rightarrow> timestamp \<Rightarrow> unit tx" where
  "SkipTask runID taskID reason now =
     tx_bind (update_task_runs
       (\<lambda>r. is_row runID taskID r \<and> TRStatus r = TaskStatusPending)
       (\<lambda>r. r\<lparr>TRStatus := TaskStatusSkipped, TRCompletedAt := Some now, TRError := reason,
              TRCacheHit := False, TRCacheOrigin := None\<rparr>)) (\<lambda>_.
     recordTaskEventTx TypeTaskSkipped runID taskID)"

definition ResetInFlightTasks :: "uuid \<Rightarrow> unit tx" where
  "ResetInFlightTasks runID =
     tx_bind (update_task_runs
       (\<lambda>r. TRJobRunID r = runID \<and> TRStatus r = TaskStatusRunning)
       (\<lambda>r. r\<lparr>TRStatus := TaskStatusPending, TRClaimedBy := '''', TRClaimExpiresAt := None,
              TRRuntimeID := '''', TRStartedAt := None, TRRateLimitRetryAfter := None,
              TRCacheHit := False, TRCacheOrigin := None\<rparr>)) (\<lambda>_. tx_ok ())"

section \<open>Terminal statuses are final on the guarded operations\<close>

definition terminal_final :: "task_run \<Rightarrow> task_run \<Rightarrow> bool" where
  "terminal_final r r' \<longleftrightarrow> TRJobRunID r' = TRJobRunID r \<and> TRTaskID r' = TRTaskID r
     \<and> (IsTerminal (TRStatus r) \<longrightarrow> TRStatus r' = TRStatus r)"

interpretation terminal_final: decrement_relation terminal_final
  by unfold_locales (auto simp: terminal_final_def)

lemmas final_intros = terminal_final.rows_bind terminal_final.rows_basic terminal_final.rows_events
  terminal_final.rows_reads terminal_final.rows_decrement terminal_final.rows_skip_edges
  tx_rows_update terminal_final.row_refl

lemma final_skip_turn: "tx_rows terminal_final (skip_turn runID taskID reason now)"
  unfolding skip_turn_def markTaskSkippedTx_def
  by (auto intro!: final_intros split: option.splits) (auto simp: terminal_final_def is_row_def)

lemma final_skip_loop: "tx_rows terminal_final (skip_loop runID now queue skipped)"
proof -
  have "skip_loop runID now queue skipped db = Inr (x, db') \<Longrightarrow>
      list_all2 terminal_final (db_task_runs db) (db_task_runs db')" for db x db'
  proof (induction runID now queue skipped db rule: skip_loop.induct)
    case (1 runID now skipped db)
    then show ?case by (simp add: terminal_final.rows_refl)
  next
    case (2 runID now taskID reason queue skipped db)
    then obtain out db1 where t: "skip_turn runID taskID reason now db = Inr (out, db1)"
      by (auto split: sum.splits)
    have "list_all2 terminal_final (db_task_runs db1) (db_task_runs db')"
      using 2 t by (cases out) auto
    with tx_rowsD [OF final_skip_turn t] show ?case by (rule terminal_final.rows_trans)
  qed
  then show ?thesis by (auto simp: tx_rows_def)
qed

lemma final_skip: "tx_rows terminal_final (skipTaskAndDescendantsTx runID taskID reason now)"
  by (simp add: skipTaskAndDescendantsTx_def final_skip_loop)

lemma final_partition: "tx_rows terminal_final (partition_edges ustr runID taskID now sel edges)"
  by (induction edges) (auto intro!: final_intros final_skip split: option.splits)

lemma final_settle: "tx_rows terminal_final (settle_successors runID now rows)"
  by (induction rows) (auto simp: the_job_run_def intro!: final_intros final_skip)

lemma final_propagate: "tx_rows terminal_final (propagateTx ustr strict et runID taskID sels now)"
  unfolding propagateTx_def taskModelTx_def branchSelectionTx_def the_task_run_def the_job_run_def
  by (auto intro!: final_intros final_partition final_settle split: option.splits if_splits)

text \<open>
  One row per run and task: \<open>RegisterTasks\<close> inserts one, and no operation inserts another.
\<close>

definition rows_unique :: "store_db \<Rightarrow> bool" where
  "rows_unique db \<longleftrightarrow> distinct (map (\<lambda>r. (TRJobRunID r, TRTaskID r)) (db_task_runs db))"

lemma rows_unique_eq:
  assumes "rows_unique db" "r \<in> set (db_task_runs db)" "s \<in> set (db_task_runs db)"
    "is_row runID taskID r" "is_row runID taskID s"
  shows "r = s"
  using assms by (auto simp: rows_unique_def is_row_def distinct_map dest: inj_onD)

lemma find_unique:
  "distinct (map f xs) \<Longrightarrow> x \<in> set xs \<Longrightarrow> find (\<lambda>y. f y = f x) xs = Some x"
  by (induction xs) (auto simp: image_iff)

lemma distinct_sort_key_map:
  assumes "distinct (map f xs)"
  shows "distinct (map f (sort_key k xs))"
proof -
  have "mset (map f (sort_key k xs)) = mset (map f xs)" by simp
  with assms show ?thesis by (metis mset_eq_imp_distinct_iff)
qed

lemma find_Some_in: "find P xs = Some x \<Longrightarrow> x \<in> set xs \<and> P x"
  by (auto simp: find_Some_iff)

lemma list_all2_update_where:
  assumes "\<And>r. r \<in> set rs \<Longrightarrow> P r \<Longrightarrow> Q r (f r)" "\<And>r. Q r r"
  shows "list_all2 Q rs (update_where P f rs)"
  using assms by (induction rs) auto

lemma guarded_update_final:
  assumes u: "rows_unique db"
    and g: "case find (claim_row runID taskID c e) (db_task_runs db) of
              Some r \<Rightarrow> \<not> IsTerminal (TRStatus r) | None \<Rightarrow> True"
    and f: "\<And>r. TRJobRunID (f r) = TRJobRunID r \<and> TRTaskID (f r) = TRTaskID r"
  shows "list_all2 terminal_final (db_task_runs db) (update_where (claim_row runID taskID c e) f (db_task_runs db))"
proof (rule list_all2_update_where)
  fix r assume r: "r \<in> set (db_task_runs db)" "claim_row runID taskID c e r"
  then obtain r0 where r0: "find (claim_row runID taskID c e) (db_task_runs db) = Some r0"
    by (metis find_None_iff not_None_eq)
  with find_Some_in [OF r0] have "r = r0"
    using rows_unique_eq [OF u r(1), of r0] r(2) by (auto simp: claim_row_def)
  with g r0 have "\<not> IsTerminal (TRStatus r)" by simp
  then show "terminal_final r (f r)" using f by (simp add: terminal_final_def)
qed (rule terminal_final.row_refl)

lemma completion_columns_ids [simp]:
  "TRJobRunID (completion_columns s res out sel ch co now r) = TRJobRunID r"
  "TRTaskID (completion_columns s res out sel ch co now r) = TRTaskID r"
  "TRStatus (completion_columns s res out sel ch co now r) = s"
  by (simp_all add: completion_columns_def Let_def)

lemma tx_bind_Inr:
  "tx_bind m f db = Inr (y, db') \<longleftrightarrow> (\<exists>x db1. m db = Inr (x, db1) \<and> f x db1 = Inr (y, db'))"
  by (auto simp: tx_bind_def split: sum.splits)

lemma tx_bind_read: "tx_bind (tx_read g) f db = f (g db) db"
  by (simp add: tx_bind_def tx_read_def)

text \<open>A claim-row update followed by a transaction that respects finality respects finality.\<close>

lemma guarded_then_final:
  assumes "rows_unique db"
    "case find (claim_row runID taskID c e) (db_task_runs db) of Some r \<Rightarrow> \<not> IsTerminal (TRStatus r) | None \<Rightarrow> True"
    "\<And>r. TRJobRunID (f r) = TRJobRunID r \<and> TRTaskID (f r) = TRTaskID r"
    "\<And>n. tx_rows terminal_final (k n)"
    "tx_bind (update_task_runs (claim_row runID taskID c e) f) k db = Inr (x, db')"
  shows "list_all2 terminal_final (db_task_runs db) (db_task_runs db')"
proof -
  let ?rs = "update_where (claim_row runID taskID c e) f (db_task_runs db)"
  obtain n where k: "k n (db\<lparr>db_task_runs := ?rs\<rparr>) = Inr (x, db')"
    using assms(5) by (auto simp: tx_bind_Inr update_task_runs_def)
  have "list_all2 terminal_final ?rs (db_task_runs db')"
    using tx_rowsD [OF assms(4) k] by simp
  with guarded_update_final [OF assms(1-3)] show ?thesis by (rule terminal_final.rows_trans)
qed

lemma completeTask_terminal_noop:
  assumes "find (claim_row runID taskID c e) (db_task_runs db) = Some r" "IsTerminal (TRStatus r)"
  shows "completeTask ustr runID taskID result c e out sels now db = Inr ([], db)"
  using assms by (simp add: completeTask_def Let_def tx_bind_read tx_ok_def)

lemma completeTask_final:
  assumes u: "rows_unique db" and run: "completeTask ustr runID taskID result c e out sels now db = Inr (x, db')"
  shows "list_all2 terminal_final (db_task_runs db) (db_task_runs db')"
proof -
  let ?found = "find (claim_row runID taskID c e) (db_task_runs db)"
  let ?status = "taskStatusFromResult result"
  let ?k = "\<lambda>affected. if e \<and> affected = 0 then tx_fail ErrTaskClaimMismatch
           else if ?status = TaskStatusFailed
             then tx_bind (recordTaskEventTx TypeTaskFailed runID taskID) (\<lambda>_. tx_ok [])
           else propagateTx ustr True TypeTaskSucceeded runID taskID sels now"
  have k: "tx_rows terminal_final (?k n)" for n
    by (auto intro!: final_intros final_propagate)
  show ?thesis
  proof (cases "\<exists>r. ?found = Some r \<and> IsTerminal (TRStatus r)")
    case True
    then obtain r where "?found = Some r" "IsTerminal (TRStatus r)" by blast
    from completeTask_terminal_noop [OF this] run show ?thesis by (simp add: terminal_final.rows_refl)
  next
    case False
    then have g: "case ?found of Some r \<Rightarrow> \<not> IsTerminal (TRStatus r) | None \<Rightarrow> True" by (auto split: option.splits)
    from run False have "tx_bind (update_task_runs (claim_row runID taskID c e)
        (completion_columns ?status result out sels False None now)) ?k db = Inr (x, db')"
      by (auto simp: completeTask_def Let_def tx_bind_read tx_fail_def split: option.splits if_splits)
    from guarded_then_final [OF u g _ k this] show ?thesis by simp
  qed
qed

lemma cacheHitTask_final:
  assumes u: "rows_unique db" and run: "cacheHitTask ustr runID taskID src result c e out sels now db = Inr (x, db')"
  shows "list_all2 terminal_final (db_task_runs db) (db_task_runs db')"
proof -
  let ?found = "find (claim_row runID taskID c e) (db_task_runs db)"
  let ?k = "\<lambda>affected. if e \<and> affected = 0 then tx_fail ErrTaskClaimMismatch
             else propagateTx ustr False TypeTaskCached runID taskID sels now"
  have k: "tx_rows terminal_final (?k n)" for n by (auto intro!: final_intros final_propagate)
  obtain r where r: "?found = Some r"
    using run by (auto simp: cacheHitTask_def tx_bind_read tx_fail_def split: option.splits)
  show ?thesis
  proof (cases "IsTerminal (TRStatus r)")
    case True
    with r run show ?thesis
      by (simp add: cacheHitTask_def tx_bind_read tx_ok_def terminal_final.rows_refl)
  next
    case False
    with r have g: "case ?found of Some r \<Rightarrow> \<not> IsTerminal (TRStatus r) | None \<Rightarrow> True" by simp
    from run r False have "tx_bind (update_task_runs (claim_row runID taskID c e)
        (completion_columns TaskStatusCached result out sels True (Some src) now)) ?k db = Inr (x, db')"
      by (simp add: cacheHitTask_def tx_bind_read)
    from guarded_then_final [OF u g _ k this] show ?thesis by simp
  qed
qed

lemma guarded_ops_final:
  "tx_rows terminal_final (StartTask runID taskID rt now)"
  "tx_rows terminal_final (ClaimTaskForDispatch runID taskID node gen ttl trust now)"
  "tx_rows terminal_final (ReleaseTaskClaim runID taskID c gen)"
  "tx_rows terminal_final (RateLimitTask runID taskID ra now)"
  "tx_rows terminal_final (StartTaskClaimed runID taskID rt c now)"
  "tx_rows terminal_final (SkipTask runID taskID reason now)"
  "tx_rows terminal_final (ResetInFlightTasks runID)"
  by (auto simp: StartTask_def ClaimTaskForDispatch_def ReleaseTaskClaim_def RateLimitTask_def
      StartTaskClaimed_def SkipTask_def ResetInFlightTasks_def Let_def intro!: final_intros split: if_splits)
     (auto simp: terminal_final_def IsTerminal_iff_terminalStatusStrings terminalStatusStrings_def)


section \<open>Guarded operations as steps\<close>

text \<open>
  Every operation on task rows except the owner's durable write, \<open>failTask\<close>, \<open>RetryTask\<close> and
  the retry of a run, which rewrite terminal rows.
\<close>

inductive task_op :: "store_db \<Rightarrow> store_db \<Rightarrow> bool" where
  start: "StartTask runID t rt now db = Inr (u, db') \<Longrightarrow> task_op db db'"
| claim: "ClaimTaskForDispatch runID t node gen ttl trust now db = Inr (u, db') \<Longrightarrow> task_op db db'"
| release: "ReleaseTaskClaim runID t c gen db = Inr (u, db') \<Longrightarrow> task_op db db'"
| rate_limit: "RateLimitTask runID t ra now db = Inr (u, db') \<Longrightarrow> task_op db db'"
| start_claimed: "StartTaskClaimed runID t rt c now db = Inr (u, db') \<Longrightarrow> task_op db db'"
| complete: "completeTask ustr runID t result c e out sels now db = Inr (x, db') \<Longrightarrow> task_op db db'"
| cached: "cacheHitTask ustr runID t src result c e out sels now db = Inr (x, db') \<Longrightarrow> task_op db db'"
| skip: "SkipTask runID t reason now db = Inr (u, db') \<Longrightarrow> task_op db db'"
| reset: "ResetInFlightTasks runID db = Inr (u, db') \<Longrightarrow> task_op db db'"

lemma task_op_final:
  assumes "rows_unique db" "task_op db db'"
  shows "list_all2 terminal_final (db_task_runs db) (db_task_runs db')"
  using assms(2)
  by cases (auto dest: guarded_ops_final [THEN tx_rowsD] completeTask_final [OF assms(1)] cacheHitTask_final [OF assms(1)])

lemma final_rows_unique:
  assumes "rows_unique db" "list_all2 terminal_final (db_task_runs db) (db_task_runs db')"
  shows "rows_unique db'"
proof -
  have "map (\<lambda>r. (TRJobRunID r, TRTaskID r)) (db_task_runs db') = map (\<lambda>r. (TRJobRunID r, TRTaskID r)) (db_task_runs db)"
    using assms(2) by (induction rule: list_all2_induct) (auto simp: terminal_final_def)
  with assms(1) show ?thesis by (simp add: rows_unique_def)
qed

interpretation task_ops: step_machine rows_unique task_op rows_unique
  by unfold_locales (blast intro: final_rows_unique task_op_final)+

text \<open>
  C13. A terminal task stays as it is: along any sequence of claims, starts, releases, rate-limit
  delays, completions, cache hits, skips and resets, on any tasks of any runs, the row of a
  task that was terminal at the beginning has the same status at the end.
\<close>

theorem terminal_rows_final:
  assumes "rows_unique db" "reachable_from task_op db db'"
    and "r \<in> set (db_task_runs db)" "IsTerminal (TRStatus r)"
  shows "\<exists>r' \<in> set (db_task_runs db'). TRJobRunID r' = TRJobRunID r \<and> TRTaskID r' = TRTaskID r \<and> TRStatus r' = TRStatus r"
proof -
  have "list_all2 terminal_final (db_task_runs db) (db_task_runs db')"
    by (rule task_ops.preserved_by_reachable
          [where R = "\<lambda>a b. list_all2 terminal_final (db_task_runs a) (db_task_runs b)", OF task_op_final _ _ assms(1,2)])
       (auto intro: terminal_final.rows_trans terminal_final.rows_refl)
  then obtain i where "i < length (db_task_runs db)" "db_task_runs db ! i = r" "i < length (db_task_runs db')"
    "terminal_final r (db_task_runs db' ! i)"
    using assms(3) unfolding list_all2_conv_all_nth in_set_conv_nth by metis
  then show ?thesis using assms(4) by (auto simp: terminal_final_def)
qed


text \<open>An example: run 10 of job 5 with task 1 done and task 2 pending.\<close>

definition two_tasks_db :: store_db where
  "two_tasks_db = sample_db [sample_run 10 5] [sample_row 10 1 TaskStatusSucceeded, sample_row 10 2 TaskStatusPending]"

definition two_tasks_claimed :: store_db where
  "two_tasks_claimed = snd (projr (ClaimTaskForDispatch 10 2 ''w'' 3 60 False 7 two_tasks_db))"

lemma two_tasks_unique: "rows_unique two_tasks_db"
  by (simp add: rows_unique_def two_tasks_db_def sample_defs)

lemma two_tasks_claim: "ClaimTaskForDispatch 10 2 ''w'' 3 60 False 7 two_tasks_db = Inr ((), two_tasks_claimed)"
  unfolding two_tasks_claimed_def by code_simp

theorem terminal_rows_final_witness:
  "\<exists>r' \<in> set (db_task_runs two_tasks_claimed). TRJobRunID r' = 10 \<and> TRTaskID r' = 1 \<and> TRStatus r' = TaskStatusSucceeded"
proof -
  have "reachable_from task_op two_tasks_db two_tasks_claimed"
    by (rule reachable_step [OF reachable_init]) (rule task_op.claim [OF two_tasks_claim])
  from terminal_rows_final [OF two_tasks_unique this, of "sample_row 10 1 TaskStatusSucceeded"]
  show ?thesis by (simp add: two_tasks_db_def sample_defs)
qed

lemma must_update_eq:
  "tx_bind (update_task_runs P f) (\<lambda>n. if n = 0 then tx_fail e else k) db =
     (if \<forall>r \<in> set (db_task_runs db). \<not> P r then Inl e
      else k (db\<lparr>db_task_runs := update_where P f (db_task_runs db)\<rparr>))"
  by (simp add: tx_bind_def update_task_runs_def tx_fail_def rows_affected_zero)

text \<open>What a successful claim leaves behind: every row of the task that was free is the claimer's.\<close>

lemma claim_rows:
  assumes "rows_unique db" "ClaimTaskForDispatch runID t node g ttl trust now db = Inr (u, db1)"
  obtains r where "r \<in> set (db_task_runs db)" "is_row runID t r" "TROwnerGeneration r \<le> g"
    "db_task_runs db1 = update_where (is_row runID t) (\<lambda>r. r\<lparr>TRStatus := TaskStatusRunning, TRClaimedBy := node,
        TRClaimExpiresAt := Some (now + ttl), TRClaimAttempt := TRClaimAttempt r + 1,
        TRStartedAt := Some now, TROwnerGeneration := g, TRRateLimitRetryAfter := None\<rparr>) (db_task_runs db)"
proof -
  let ?P = "\<lambda>r. is_row runID t r \<and> TRStatus r = TaskStatusPending \<and> TRClaimedBy r = ''''
            \<and> (trust \<or> TROutstandingPredecessors r = 0)
            \<and> TROwnerGeneration r \<le> g \<and> rate_limit_passed now r"
  let ?f = "\<lambda>r. r\<lparr>TRStatus := TaskStatusRunning, TRClaimedBy := node,
        TRClaimExpiresAt := Some (now + ttl), TRClaimAttempt := TRClaimAttempt r + 1,
        TRStartedAt := Some now, TROwnerGeneration := g, TRRateLimitRetryAfter := None\<rparr>"
  obtain r where r: "r \<in> set (db_task_runs db)" "?P r"
    and k: "recordTaskEventTx TypeTaskStarted runID t (db\<lparr>db_task_runs := update_where ?P ?f (db_task_runs db)\<rparr>) = Inr (u, db1)"
    using assms(2) unfolding ClaimTaskForDispatch_def must_update_eq by (auto split: if_splits)
  from k have "db_task_runs db1 = update_where ?P ?f (db_task_runs db)"
    by (auto simp: recordTaskEventTx_def the_task_run_def the_job_run_def tx_simps split: option.splits)
  moreover have "?P r' \<longleftrightarrow> is_row runID t r'" if "r' \<in> set (db_task_runs db)" for r'
    using rows_unique_eq [OF assms(1) that r(1)] r(2) by blast
  ultimately have "db_task_runs db1 = update_where (is_row runID t) ?f (db_task_runs db)"
    by (simp add: update_where_def)
  with r that show thesis by blast
qed

text \<open>
  C15. A task is claimed by one worker at a time, and claims are fenced. After a successful claim
  the claimer's row is the one it loads, with its generation and the full lease; every further
  claim, by any node and generation, is refused, no other node can start the task, and even
  after the claimer's release no claim with a lower owner generation succeeds.
\<close>

theorem claim_exclusive:
  assumes "rows_unique db" "ClaimTaskForDispatch runID t node g ttl trust now db = Inr (u, db1)"
  shows "ClaimTaskForDispatch runID t node' g' ttl' trust' now' db1 = Inl ErrTaskClaimMismatch
    \<and> (\<exists>r. LoadDispatchedTaskRun db1 runID t node = Inr r \<and> TROwnerGeneration r = g \<and> TRClaimExpiresAt r = Some (now + ttl))
    \<and> (node' = node \<or> StartTaskClaimed runID t rt node' now' db1 = Inl ErrTaskClaimMismatch)
    \<and> (g \<le> g' \<or> ClaimTaskForDispatch runID t node' g' ttl' trust' now' (snd (projr (ReleaseTaskClaim runID t node g db1)))
         = Inl ErrTaskClaimMismatch)"
proof -
  define f where "f r = r\<lparr>TRStatus := TaskStatusRunning, TRClaimedBy := node,
        TRClaimExpiresAt := Some (now + ttl), TRClaimAttempt := TRClaimAttempt r + 1,
        TRStartedAt := Some now, TROwnerGeneration := g, TRRateLimitRetryAfter := None\<rparr>" for r :: task_run
  have f: "TRStatus (f r) = TaskStatusRunning \<and> TRClaimedBy (f r) = node \<and> TROwnerGeneration (f r) = g
      \<and> TRClaimExpiresAt (f r) = Some (now + ttl)" "is_row runID t (f r) = is_row runID t r" for r
    by (simp_all add: f_def is_row_def)
  obtain r0 where r0: "r0 \<in> set (db_task_runs db)" "is_row runID t r0"
    and rows: "db_task_runs db1 = update_where (is_row runID t) f (db_task_runs db)"
    by (rule claim_rows [OF assms]) (auto simp: f_def [abs_def])
  have row: "TRStatus r = TaskStatusRunning \<and> TRClaimedBy r = node \<and> TROwnerGeneration r = g
      \<and> TRClaimExpiresAt r = Some (now + ttl)" if r: "r \<in> set (db_task_runs db1)" "is_row runID t r" for r
  proof -
    obtain q where "r = f q" using r unfolding rows set_update_where by blast
    with f show ?thesis by simp
  qed
  have "f r0 \<in> set (db_task_runs db1)" "is_row runID t (f r0)"
    using r0 f(2) unfolding rows set_update_where by auto
  then obtain r where fnd: "find (\<lambda>r. is_row runID t r \<and> TRClaimedBy r = node \<and> TRStatus r = TaskStatusRunning)
      (db_task_runs db1) = Some r"
    using row by (cases "find (\<lambda>r. is_row runID t r \<and> TRClaimedBy r = node \<and> TRStatus r = TaskStatusRunning)
      (db_task_runs db1)") (auto simp: find_None_iff)
  then have 2: "\<exists>r. LoadDispatchedTaskRun db1 runID t node = Inr r \<and> TROwnerGeneration r = g \<and> TRClaimExpiresAt r = Some (now + ttl)"
    using row [of r] find_Some_in [OF fnd] by (simp add: LoadDispatchedTaskRun_def)
  have refused: "ClaimTaskForDispatch runID t node' g' ttl' trust' now' d = Inl ErrTaskClaimMismatch"
    if "\<And>r. r \<in> set (db_task_runs d) \<Longrightarrow> is_row runID t r \<Longrightarrow>
          \<not> (TRStatus r = TaskStatusPending \<and> TROwnerGeneration r \<le> g')" for d
    using that unfolding ClaimTaskForDispatch_def must_update_eq by auto
  have 3: "StartTaskClaimed runID t rt node' now' db1 = Inl ErrTaskClaimMismatch" if "node' \<noteq> node"
    using row that unfolding StartTaskClaimed_def must_update_eq by auto
  have 4: "ClaimTaskForDispatch runID t node' g' ttl' trust' now' (snd (projr (ReleaseTaskClaim runID t node g db1)))
         = Inl ErrTaskClaimMismatch" if "g' < g"
  proof (rule refused)
    fix r assume r: "r \<in> set (db_task_runs (snd (projr (ReleaseTaskClaim runID t node g db1))))" "is_row runID t r"
    let ?P = "\<lambda>r. is_row runID t r \<and> TRClaimedBy r = node \<and> TRStatus r = TaskStatusRunning
            \<and> (TROwnerGeneration r = g \<or> TROwnerGeneration r = 0)"
    let ?h = "\<lambda>r. r\<lparr>TRStatus := TaskStatusPending, TRClaimedBy := '''', TRClaimExpiresAt := None,
              TRRuntimeID := '''', TRStartedAt := None\<rparr>"
    have "r \<in> set (update_where ?P ?h (db_task_runs db1))" using r(1) by (simp add: ReleaseTaskClaim_def tx_simps)
    from in_update_where [OF this] obtain q where q: "q \<in> set (db_task_runs db1)" "r = (if ?P q then ?h q else q)"
      by blast
    then have "is_row runID t q" "TROwnerGeneration r = TROwnerGeneration q"
      using r(2) by (simp_all add: is_row_def split: if_splits)
    with row [OF q(1)] that show "\<not> (TRStatus r = TaskStatusPending \<and> TROwnerGeneration r \<le> g')" by simp
  qed
  have 1: "ClaimTaskForDispatch runID t node' g' ttl' trust' now' db1 = Inl ErrTaskClaimMismatch"
  proof (rule refused)
    fix r assume "r \<in> set (db_task_runs db1)" "is_row runID t r"
    from row [OF this] show "\<not> (TRStatus r = TaskStatusPending \<and> TROwnerGeneration r \<le> g')" by simp
  qed
  show ?thesis using 1 2 3 4 by (metis not_le)
qed

theorem claim_exclusive_witness:
  "ClaimTaskForDispatch 10 2 ''v'' 5 60 False 8 two_tasks_claimed = Inl ErrTaskClaimMismatch
   \<and> StartTaskClaimed 10 2 ''rt'' ''v'' 8 two_tasks_claimed = Inl ErrTaskClaimMismatch
   \<and> ClaimTaskForDispatch 10 2 ''v'' 2 60 False 8 (snd (projr (ReleaseTaskClaim 10 2 ''w'' 3 two_tasks_claimed)))
       = Inl ErrTaskClaimMismatch"
  using claim_exclusive [OF two_tasks_unique two_tasks_claim, of "''v''" 5 60 False 8 "''rt''"]
    claim_exclusive [OF two_tasks_unique two_tasks_claim, of "''v''" 2 60 False 8 "''rt''"] by simp

end
