(* ===== verification/Run_Topology.thy ===== *)
theory Run_Topology
  imports Run_State_Progress Task_Store
begin

text \<open>
  The owner's view of a run's DAG (\<open>internal/run/owner_topology.go\<close>): loading it from the job
  catalog, loading it from the execution descriptors of a quarantined replay, and resolving
  a branch decision into the successors to skip.
\<close>

section \<open>Loading the topology\<close>

definition empty_topology :: run_topology where
  "empty_topology = \<lparr>Adjacency = (\<lambda>_. []), Predecessors = (\<lambda>_. []), TriggerRule = (\<lambda>_. ''''), Order = []\<rparr>"

definition add_task :: "run_topology \<Rightarrow> nat \<times> uuid \<times> string \<Rightarrow> run_topology" where
  "add_task tp = (\<lambda>(i, t, rule). tp\<lparr>
     Adjacency := (Adjacency tp)(t := []), Predecessors := (Predecessors tp)(t := []),
     TriggerRule := (TriggerRule tp)(t := rule), Order := AList.update t (int i) (Order tp)\<rparr>)"

definition add_edge :: "uuid \<Rightarrow> run_topology \<Rightarrow> uuid \<Rightarrow> run_topology" where
  "add_edge t tp to =
     (if to \<notin> fst ` set (Order tp) then tp
      else tp\<lparr>Adjacency := (Adjacency tp)(t := Adjacency tp t @ [to]),
              Predecessors := (Predecessors tp)(to := Predecessors tp to @ [t])\<rparr>)"

definition job_tasks :: "store_db \<Rightarrow> uuid \<Rightarrow> task_model list" where
  "job_tasks db jobID = sort_key TMPosition (sort_key TMCreatedAt (filter (\<lambda>t. TMJobID t = jobID) (db_tasks db)))"

definition catalogTopology :: "store_db \<Rightarrow> uuid \<Rightarrow> run_topology" where
  "catalogTopology db jobID =
     (let ts = job_tasks db jobID;
          topo0 = foldl add_task empty_topology
                    (map (\<lambda>(i, t). (i, TMID t, normalizedTriggerRule (TMTriggerRule t))) (enumerate 0 ts))
      in foldl (\<lambda>tp t. foldl (add_edge (TMID t)) tp (map TEToTaskID (successorEdges db t))) topo0 ts)"

fun decode_replay_tasks :: "task_run list \<Rightarrow> store_error + (uuid \<times> task_execution_descriptor) list" where
  "decode_replay_tasks [] = Inr []"
| "decode_replay_tasks (row # rows) = (case TRExecutionDescriptor row of
       NoDescriptor \<Rightarrow> Inl (StoreErr ''run topology: replay task missing execution descriptor'')
     | UndecodableDescriptor e \<Rightarrow> Inl (StoreErr (''run topology: decode replay descriptor: '' @ e))
     | Descriptor d \<Rightarrow>
         if SchemaVersion d \<noteq> TaskExecutionDescriptorSchemaVersion
         then Inl (StoreErr ''run topology: unsupported replay descriptor version'')
         else (case decode_replay_tasks rows of Inl e \<Rightarrow> Inl e | Inr ts \<Rightarrow> Inr ((TRTaskID row, d) # ts)))"

text \<open>
  The rows come in creation order, so the sort by position and then by index is a stable sort
  by position.
\<close>

definition replayTopology :: "(uuid \<times> task_execution_descriptor) list \<Rightarrow> run_topology" where
  "replayTopology ts0 =
     (let ts = sort_key (\<lambda>(i, d). DTaskPosition d) ts0;
          topo0 = foldl add_task empty_topology
                    (map (\<lambda>(n, i, d). (n, i, normalizedTriggerRule (DTriggerRule d))) (enumerate 0 ts))
      in foldl (\<lambda>tp (i, d). foldl (add_edge i) tp
                 (filter (\<lambda>s. s \<noteq> uuid_Nil) (map RefTaskID (DSuccessors d)))) topo0 ts)"

definition loadReplayRunTopology :: "store_db \<Rightarrow> uuid \<Rightarrow> store_error + run_topology" where
  "loadReplayRunTopology db runID =
     (case decode_replay_tasks (sort_key TRCreatedAt (filter (\<lambda>r. TRJobRunID r = runID) (db_task_runs db))) of
        Inl e \<Rightarrow> Inl e
      | Inr ts \<Rightarrow> Inr (replayTopology ts))"

definition LoadRunTopology :: "store_db \<Rightarrow> uuid \<Rightarrow> store_error + run_topology" where
  "LoadRunTopology db runID =
     (case find (\<lambda>j. JRID j = runID) (db_job_runs db) of
        None \<Rightarrow> Inl ErrRecordNotFound
      | Some jobRun \<Rightarrow>
          if JRQuarantine jobRun then loadReplayRunTopology db runID
          else Inr (catalogTopology db (JRJobID jobRun)))"

section \<open>Branch decisions\<close>

text \<open>The selected task IDs, or the error for the first selection that names no successor.\<close>

fun resolve_selected ::
    "(string \<Rightarrow> uuid option) \<Rightarrow> string list \<Rightarrow> string list \<Rightarrow> store_error + uuid list" where
  "resolve_selected nameToID validTargets [] = Inr []"
| "resolve_selected nameToID validTargets (n # ns) = (case nameToID n of
       None \<Rightarrow> Inl (unknown_branch n validTargets)
     | Some i \<Rightarrow> (case resolve_selected nameToID validTargets ns of
           Inl e \<Rightarrow> Inl e | Inr is \<Rightarrow> Inr (i # is)))"

definition unselected ::
    "(string \<times> uuid) list \<Rightarrow> uuid list \<Rightarrow> string list \<Rightarrow> store_error + uuid list" where
  "unselected names successorIDs branchSelections =
     (case resolve_selected (name_map names) (map fst names) branchSelections of
        Inl e \<Rightarrow> Inl e
      | Inr selected \<Rightarrow> Inr (filter (\<lambda>i. i \<notin> set selected) successorIDs))"

definition ResolveBranchSkips ::
    "(uuid \<Rightarrow> string) \<Rightarrow> store_db \<Rightarrow> uuid \<Rightarrow> uuid \<Rightarrow> string list \<Rightarrow> store_error + uuid list" where
  "ResolveBranchSkips ustr db runID taskID branchSelections =
     (case replayTaskExecutionDescriptorTx runID taskID db of
        Inl e \<Rightarrow> Inl e
      | Inr (Some d, _) \<Rightarrow>
          if firstNonEmpty [DTaskType d, DBranchBehavior d, ''task''] \<noteq> ''branch'' then Inr []
          else unselected (descriptor_names ustr d)
                 (filter (\<lambda>i. i \<noteq> uuid_Nil) (map RefTaskID (DSuccessors d))) branchSelections
      | Inr (None, _) \<Rightarrow>
          (case find (\<lambda>t. TMID t = taskID) (db_tasks db) of
             None \<Rightarrow> Inl ErrRecordNotFound
           | Some task \<Rightarrow>
               if TMType task \<noteq> ''branch'' then Inr []
               else
                 let edges = successorEdges db task
                 in if edges = [] then Inr []
                    else unselected (catalog_names db edges) (map TEToTaskID edges) branchSelections))"

section \<open>Loaded topologies are well-formed\<close>

lemma add_edge_Order [simp]: "Order (add_edge t tp v) = Order tp"
  by (simp add: add_edge_def)

lemma add_edge_wf:
  assumes wf: "topo_wf tp" and t: "t \<in> topo_keys tp"
  shows "topo_wf (add_edge t tp v)"
proof (cases "v \<in> fst ` set (Order tp)")
  case False
  with wf show ?thesis by (simp add: add_edge_def)
next
  case True
  let ?tp = "add_edge t tp v"
  have A: "Adjacency ?tp u = (if u = t then Adjacency tp t @ [v] else Adjacency tp u)" for u
    using True by (simp add: add_edge_def)
  have P: "Predecessors ?tp u = (if u = v then Predecessors tp v @ [t] else Predecessors tp u)" for u
    using True by (simp add: add_edge_def)
  have K: "topo_keys ?tp = topo_keys tp" by (simp add: topo_keys_def)
  have "count_list (Adjacency ?tp a) b = count_list (Predecessors ?tp b) a" for a b
    by (simp add: A P topo_wf_mirror [OF wf])
  moreover have "set (Predecessors ?tp b) \<subseteq> topo_keys tp" "set (Adjacency ?tp b) \<subseteq> topo_keys tp" for b
    using wf t True by (auto simp: A P topo_wf_def topo_keys_def)
  moreover have "distinct (map fst (Order ?tp))" using wf by (simp add: topo_wf_def)
  ultimately show ?thesis by (simp add: topo_wf_def K)
qed

lemma foldl_add_edge_wf:
  "topo_wf tp \<Longrightarrow> t \<in> topo_keys tp \<Longrightarrow>
     topo_wf (foldl (add_edge t) tp vs) \<and> Order (foldl (add_edge t) tp vs) = Order tp"
proof (induction vs arbitrary: tp)
  case (Cons v vs)
  have "t \<in> topo_keys (add_edge t tp v)" using Cons.prems by (simp add: topo_keys_def)
  with Cons.IH [of "add_edge t tp v"] Cons.prems add_edge_wf show ?case by simp
qed simp

lemma foldl_tasks_wf:
  assumes "topo_wf tp" "\<forall>x \<in> set xs. g x \<in> topo_keys tp"
  shows "topo_wf (foldl (\<lambda>tp x. foldl (add_edge (g x)) tp (h x)) tp xs)
    \<and> Order (foldl (\<lambda>tp x. foldl (add_edge (g x)) tp (h x)) tp xs) = Order tp"
  using assms
proof (induction xs arbitrary: tp)
  case (Cons x xs)
  have 1: "topo_wf (foldl (add_edge (g x)) tp (h x)) \<and> Order (foldl (add_edge (g x)) tp (h x)) = Order tp"
    using Cons.prems by (intro foldl_add_edge_wf) simp_all
  then have "\<forall>y \<in> set xs. g y \<in> topo_keys (foldl (add_edge (g x)) tp (h x))"
    using Cons.prems by (simp add: topo_keys_def)
  with 1 Cons.IH [of "foldl (add_edge (g x)) tp (h x)"] show ?case by simp
qed simp

lemma foldl_add_task_edges:
  "Adjacency tp = (\<lambda>_. []) \<Longrightarrow> Predecessors tp = (\<lambda>_. []) \<Longrightarrow>
     Adjacency (foldl add_task tp xs) = (\<lambda>_. []) \<and> Predecessors (foldl add_task tp xs) = (\<lambda>_. [])"
proof (induction xs arbitrary: tp)
  case (Cons x xs)
  have "Adjacency (add_task tp x) = (\<lambda>_. [])" "Predecessors (add_task tp x) = (\<lambda>_. [])"
    using Cons.prems by (auto simp: add_task_def split: prod.splits)
  with Cons.IH [of "add_task tp x"] show ?case by simp
qed simp

lemma Order_foldl_add_task:
  "distinct (map fst (Order tp)) \<Longrightarrow>
     distinct (map fst (Order (foldl add_task tp xs)))
     \<and> fst ` set (Order (foldl add_task tp xs)) = fst ` set (Order tp) \<union> (fst \<circ> snd) ` set xs"
proof (induction xs arbitrary: tp)
  case (Cons x xs)
  obtain i t rule where x: "x = (i, t, rule)" using prod_cases3 by blast
  have "distinct (map fst (Order (add_task tp x)))"
    using Cons.prems by (simp add: x add_task_def distinct_update)
  moreover have "fst ` set (Order (add_task tp x)) = insert t (fst ` set (Order tp))"
    by (simp add: x add_task_def dom_update [unfolded dom_map_of_conv_image_fst] flip: dom_map_of_conv_image_fst)
       (simp add: update_conv' dom_map_of_conv_image_fst)
  ultimately show ?case using Cons.IH [of "add_task tp x"] by (auto simp: x)
qed simp

lemma tasks_topology_wf:
  "topo_wf (foldl add_task empty_topology xs)
   \<and> topo_keys (foldl add_task empty_topology xs) = (fst \<circ> snd) ` set xs"
proof -
  let ?tp = "foldl add_task empty_topology xs"
  have O: "distinct (map fst (Order ?tp))" "fst ` set (Order ?tp) = (fst \<circ> snd) ` set xs"
    using Order_foldl_add_task [of empty_topology xs] by (simp_all add: empty_topology_def)
  have "Adjacency ?tp = (\<lambda>_. [])" "Predecessors ?tp = (\<lambda>_. [])"
    using foldl_add_task_edges [of empty_topology xs] by (simp_all add: empty_topology_def)
  with O show ?thesis by (simp add: topo_wf_def topo_keys_def)
qed

lemma catalogTopology_wf:
  "topo_wf (catalogTopology db jobID) \<and> topo_keys (catalogTopology db jobID) = TMID ` set (job_tasks db jobID)"
proof -
  define xs where "xs = map (\<lambda>(i, t). (i, TMID t, normalizedTriggerRule (TMTriggerRule t)))
    (enumerate 0 (job_tasks db jobID))"
  define tp where "tp = foldl add_task empty_topology xs"
  have "(fst \<circ> snd) ` set xs = TMID ` snd ` set (enumerate 0 (job_tasks db jobID))"
    by (force simp: xs_def image_image)
  also have "snd ` set (enumerate 0 (job_tasks db jobID)) = set (job_tasks db jobID)"
    by (simp flip: set_map)
  finally have k: "(fst \<circ> snd) ` set xs = TMID ` set (job_tasks db jobID)" .
  have wf: "topo_wf tp" "topo_keys tp = TMID ` set (job_tasks db jobID)"
    using tasks_topology_wf [of xs] k by (simp_all add: tp_def)
  have eq: "catalogTopology db jobID =
      foldl (\<lambda>tp t. foldl (add_edge (TMID t)) tp (map TEToTaskID (successorEdges db t))) tp (job_tasks db jobID)"
    by (simp add: catalogTopology_def Let_def tp_def xs_def)
  show ?thesis
    using foldl_tasks_wf [OF wf(1), of "job_tasks db jobID" TMID "\<lambda>t. map TEToTaskID (successorEdges db t)"] wf(2)
    by (simp add: eq topo_keys_def)
qed

lemma replayTopology_wf: "topo_wf (replayTopology ts) \<and> topo_keys (replayTopology ts) = fst ` set ts"
proof -
  define ss where "ss = sort_key (\<lambda>(i, d). DTaskPosition d) ts"
  define xs where "xs = map (\<lambda>(n, i, d). (n, i, normalizedTriggerRule (DTriggerRule d))) (enumerate 0 ss)"
  define tp where "tp = foldl add_task empty_topology xs"
  have "(fst \<circ> snd) ` set xs = fst ` snd ` set (enumerate 0 ss)"
    by (force simp: xs_def image_image)
  also have "snd ` set (enumerate 0 ss) = set ss" by (simp flip: set_map)
  finally have wf: "topo_wf tp" "topo_keys tp = fst ` set ss"
    using tasks_topology_wf [of xs] by (simp_all add: tp_def)
  have eq: "replayTopology ts = foldl (\<lambda>tp x. foldl (add_edge (fst x)) tp
      (filter (\<lambda>s. s \<noteq> uuid_Nil) (map RefTaskID (DSuccessors (snd x))))) tp ss"
    by (simp add: replayTopology_def Let_def tp_def xs_def ss_def case_prod_beta')
  show ?thesis
    using foldl_tasks_wf [OF wf(1), of ss fst
        "\<lambda>x. filter (\<lambda>s. s \<noteq> uuid_Nil) (map RefTaskID (DSuccessors (snd x)))"] wf(2)
    by (simp add: eq topo_keys_def ss_def)
qed

lemma LoadRunTopology_topo_wf: "LoadRunTopology db runID = Inr tp \<Longrightarrow> topo_wf tp"
  using catalogTopology_wf replayTopology_wf
  by (auto simp: LoadRunTopology_def loadReplayRunTopology_def split: option.splits if_splits sum.splits)

section \<open>The edges of a loaded topology\<close>

lemma foldl_add_edge_Adjacency:
  "Adjacency (foldl (add_edge t) tp vs) u =
     (if u = t then Adjacency tp t @ filter (\<lambda>v. v \<in> fst ` set (Order tp)) vs else Adjacency tp u)"
  by (induction vs arbitrary: tp) (auto simp: add_edge_def)

lemma foldl_add_edge_Order [simp]: "Order (foldl (add_edge t) tp vs) = Order tp"
  by (induction vs arbitrary: tp) simp_all

lemma foldl_tasks_Order: "Order (foldl (\<lambda>tp x. foldl (add_edge (g x)) tp (h x)) tp xs) = Order tp"
  by (induction xs arbitrary: tp) simp_all

lemma foldl_tasks_Adjacency_other:
  "u \<notin> g ` set xs \<Longrightarrow> Adjacency (foldl (\<lambda>tp x. foldl (add_edge (g x)) tp (h x)) tp xs) u = Adjacency tp u"
  by (induction xs arbitrary: tp) (simp_all add: foldl_add_edge_Adjacency)

lemma foldl_tasks_Adjacency:
  assumes "distinct (map g xs)" "x \<in> set xs"
  shows "Adjacency (foldl (\<lambda>tp x. foldl (add_edge (g x)) tp (h x)) tp xs) (g x)
    = Adjacency tp (g x) @ filter (\<lambda>v. v \<in> fst ` set (Order tp)) (h x)"
  using assms
proof (induction xs arbitrary: tp)
  case (Cons y ys)
  show ?case
  proof (cases "x = y")
    case True
    then have "g x \<notin> g ` set ys" using Cons.prems(1) by simp
    with True show ?thesis by (simp add: foldl_tasks_Adjacency_other foldl_add_edge_Adjacency)
  next
    case False
    then have x: "x \<in> set ys" using Cons.prems by simp
    then have "g x \<noteq> g y" using Cons.prems(1) by (metis distinct.simps(2) imageI list.simps(9) set_map)
    with Cons.IH [OF _ x] Cons.prems(1) show ?thesis by (simp add: foldl_add_edge_Adjacency)
  qed
qed simp

lemma catalogTopology_Adjacency:
  assumes d: "distinct (map TMID (db_tasks db))" and t: "t \<in> set (job_tasks db jobID)"
  shows "Adjacency (catalogTopology db jobID) (TMID t)
    = filter (\<lambda>v. v \<in> topo_keys (catalogTopology db jobID)) (map TEToTaskID (successorEdges db t))"
proof -
  define tp where "tp = foldl add_task empty_topology
    (map (\<lambda>(i, t). (i, TMID t, normalizedTriggerRule (TMTriggerRule t))) (enumerate 0 (job_tasks db jobID)))"
  have eq: "catalogTopology db jobID =
      foldl (\<lambda>tp t. foldl (add_edge (TMID t)) tp (map TEToTaskID (successorEdges db t))) tp (job_tasks db jobID)"
    by (simp add: catalogTopology_def Let_def tp_def)
  have "distinct (map TMID (job_tasks db jobID))"
    unfolding job_tasks_def by (intro distinct_sort_key_map distinct_map_filter d)
  from foldl_tasks_Adjacency [OF this t, of "\<lambda>t. map TEToTaskID (successorEdges db t)" tp]
  have 1: "Adjacency (catalogTopology db jobID) (TMID t)
      = Adjacency tp (TMID t) @ filter (\<lambda>v. v \<in> fst ` set (Order tp)) (map TEToTaskID (successorEdges db t))"
    by (simp add: eq)
  have 2: "Adjacency tp = (\<lambda>_. [])"
    using foldl_add_task_edges [of empty_topology] by (simp add: tp_def empty_topology_def)
  have 3: "Order (catalogTopology db jobID) = Order tp"
    unfolding eq by (rule foldl_tasks_Order)
  show ?thesis using 1 2 3 by (simp add: topo_keys_def)
qed

lemma replayTopology_Adjacency:
  assumes d: "distinct (map fst ts)" and t: "(i, d) \<in> set ts"
  shows "Adjacency (replayTopology ts) i = filter (\<lambda>v. v \<in> topo_keys (replayTopology ts))
    (filter (\<lambda>s. s \<noteq> uuid_Nil) (map RefTaskID (DSuccessors d)))"
proof -
  define ss where "ss = sort_key (\<lambda>(i, d). DTaskPosition d) ts"
  define tp where "tp = foldl add_task empty_topology
    (map (\<lambda>(n, i, d). (n, i, normalizedTriggerRule (DTriggerRule d))) (enumerate 0 ss))"
  let ?h = "\<lambda>x. filter (\<lambda>s. s \<noteq> uuid_Nil) (map RefTaskID (DSuccessors (snd x)))"
  have eq: "replayTopology ts = foldl (\<lambda>tp x. foldl (add_edge (fst x)) tp (?h x)) tp ss"
    by (simp add: replayTopology_def Let_def tp_def ss_def case_prod_beta')
  have 1: "distinct (map fst ss)" "(i, d) \<in> set ss"
    unfolding ss_def by (intro distinct_sort_key_map assms) (use t in simp)
  have 2: "Adjacency tp = (\<lambda>_. [])"
    using foldl_add_task_edges [of empty_topology] by (simp add: tp_def empty_topology_def)
  have 3: "Order (replayTopology ts) = Order tp" unfolding eq by (rule foldl_tasks_Order)
  show ?thesis using foldl_tasks_Adjacency [OF 1, of ?h tp] 2 3 by (simp add: topo_keys_def eq)
qed

lemma decode_replay_tasks_keys:
  "decode_replay_tasks rows = Inr ts \<Longrightarrow> map fst ts = map TRTaskID rows"
  by (induction rows arbitrary: ts) (auto split: descriptor_column.splits if_splits sum.splits)

lemma decode_replay_tasks_mem:
  assumes "decode_replay_tasks rows = Inr ts" "(i, d) \<in> set ts"
  shows "\<exists>r \<in> set rows. TRTaskID r = i \<and> TRExecutionDescriptor r = Descriptor d
    \<and> SchemaVersion d = TaskExecutionDescriptorSchemaVersion"
  using assms
  by (induction rows arbitrary: ts) (auto split: descriptor_column.splits if_splits sum.splits)

subsection \<open>The row and the run of a task\<close>

lemma find_append_cases: "find P (xs @ ys) = (case find P xs of None \<Rightarrow> find P ys | Some x \<Rightarrow> Some x)"
  by (induction xs) simp_all

lemma find_row_run:
  assumes j: "find (\<lambda>j. JRID j = runID) js = Some (j :: job_run)"
  shows "find (\<lambda>(r, j). is_row runID t r \<and> JRID j = TRJobRunID r) (List.product rs js)
    = map_option (\<lambda>r. (r, j)) (find (is_row runID t) rs)"
proof -
  define P where "P = (\<lambda>(r, j :: job_run). is_row runID t r \<and> JRID j = TRJobRunID r)"
  have P: "P (r, j) \<longleftrightarrow> is_row runID t r \<and> JRID j = runID" for r j by (auto simp: P_def is_row_def)
  have pairs: "find P (map (Pair r) xs)
      = (if is_row runID t r then map_option (Pair r) (find (\<lambda>j. JRID j = runID) xs) else None)" for r xs
    by (induction xs) (auto simp: P)
  have "find P (List.product rs js) = map_option (\<lambda>r. (r, j)) (find (is_row runID t) rs)"
    by (induction rs) (simp_all add: find_append_cases pairs j)
  then show ?thesis by (simp add: P_def)
qed

lemma replay_task:
  assumes u: "rows_unique db" and j: "find (\<lambda>j. JRID j = runID) (db_job_runs db) = Some j" "JRQuarantine j"
    and tp: "LoadRunTopology db runID = Inr tp" and i: "t \<in> topo_keys tp"
  obtains d where "replayTaskExecutionDescriptorTx runID t db = Inr (Some d, db)"
    "Adjacency tp t = filter (\<lambda>v. v \<in> topo_keys tp) (filter (\<lambda>s. s \<noteq> uuid_Nil) (map RefTaskID (DSuccessors d)))"
proof -
  let ?rows = "sort_key TRCreatedAt (filter (\<lambda>r. TRJobRunID r = runID) (db_task_runs db))"
  obtain ts where ts: "decode_replay_tasks ?rows = Inr ts" "tp = replayTopology ts"
    using tp j by (auto simp: LoadRunTopology_def loadReplayRunTopology_def split: sum.splits)
  from i obtain d where d: "(t, d) \<in> set ts" using replayTopology_wf [of ts] ts(2) by auto
  from decode_replay_tasks_mem [OF ts(1) this] obtain r where r: "r \<in> set (db_task_runs db)" "is_row runID t r"
      "TRExecutionDescriptor r = Descriptor d" "SchemaVersion d = TaskExecutionDescriptorSchemaVersion"
    by (auto simp: is_row_def)
  have "find (is_row runID t) (db_task_runs db) = Some r"
    using u r(1,2) find_unique [of "\<lambda>r. (TRJobRunID r, TRTaskID r)" "db_task_runs db" r]
    by (simp add: rows_unique_def is_row_def [abs_def])
  then have "replayTaskExecutionDescriptorTx runID t db = Inr (Some d, db)"
    using find_row_run [OF j(1)] j(2) r(3,4) by (simp add: replayTaskExecutionDescriptorTx_def)
  moreover have "distinct (map fst ts)"
    unfolding decode_replay_tasks_keys [OF ts(1)] using u
    by (intro distinct_sort_key_map) (auto simp: rows_unique_def distinct_map inj_on_def)
  ultimately show thesis using that replayTopology_Adjacency [OF _ d] ts(2) by blast
qed

lemma catalog_task:
  assumes d: "distinct (map TMID (db_tasks db))"
    and j: "find (\<lambda>j. JRID j = runID) (db_job_runs db) = Some j" "\<not> JRQuarantine j"
    and q: "\<And>r. r \<in> set (db_task_runs db) \<Longrightarrow> is_row runID t r \<Longrightarrow> \<not> TRQuarantine r"
    and tp: "LoadRunTopology db runID = Inr tp" and i: "t \<in> topo_keys tp"
  obtains task where "replayTaskExecutionDescriptorTx runID t db = Inr (None, db)"
    "find (\<lambda>x. TMID x = t) (db_tasks db) = Some task"
    "Adjacency tp t = filter (\<lambda>v. v \<in> topo_keys tp) (map TEToTaskID (successorEdges db task))"
proof -
  have tp': "tp = catalogTopology db (JRJobID j)" using tp j by (simp add: LoadRunTopology_def)
  obtain task where task: "task \<in> set (job_tasks db (JRJobID j))" "TMID task = t"
    using i catalogTopology_wf [of db "JRJobID j"] tp' by auto
  have "find (\<lambda>x. TMID x = t) (db_tasks db) = Some task"
    using find_unique [OF d, of task] task by (simp add: job_tasks_def)
  moreover have "replayTaskExecutionDescriptorTx runID t db = Inr (None, db)"
    using find_row_run [OF j(1)] j(2) q
    by (auto simp: replayTaskExecutionDescriptorTx_def find_Some_iff split: option.splits)
  ultimately show thesis using that catalogTopology_Adjacency [OF d task(1)] task(2) tp' by blast
qed

subsection \<open>What a branch decision excludes\<close>

text \<open>
  The named successors a branch task may select, none when the task is no branch: those of its
  execution descriptor in a replay, those of the catalog otherwise.
\<close>

definition branch_targets :: "(uuid \<Rightarrow> string) \<Rightarrow> store_db \<Rightarrow> uuid \<Rightarrow> uuid \<Rightarrow> (string \<times> uuid) list option" where
  "branch_targets ustr db runID taskID =
     (case replayTaskExecutionDescriptorTx runID taskID db of
        Inl e \<Rightarrow> None
      | Inr (Some d, _) \<Rightarrow>
          if firstNonEmpty [DTaskType d, DBranchBehavior d, ''task''] = ''branch'' then Some (descriptor_names ustr d) else None
      | Inr (None, _) \<Rightarrow>
          (case find (\<lambda>t. TMID t = taskID) (db_tasks db) of
             None \<Rightarrow> None
           | Some task \<Rightarrow> if TMType task = ''branch'' then Some (catalog_names db (successorEdges db task)) else None))"

lemma resolve_selected_Inr:
  "resolve_selected m vs sels = Inr is \<Longrightarrow> (\<forall>n \<in> set sels. \<exists>i. m n = Some i) \<and> set is = {i. \<exists>n \<in> set sels. m n = Some i}"
  by (induction sels arbitrary: "is") (auto split: option.splits sum.splits)

lemma unselected_Inr:
  "unselected names succs sels = Inr skips \<Longrightarrow>
     (\<forall>n \<in> set sels. \<exists>i. name_map names n = Some i)
     \<and> skips = filter (\<lambda>i. \<forall>n \<in> set sels. name_map names n \<noteq> Some i) succs"
  by (auto simp: unselected_def split: sum.splits dest!: resolve_selected_Inr intro!: filter_cong)


section \<open>Properties\<close>

text \<open>
  C24. Every topology that loads is well-formed: each task is listed once, successor and
  predecessor lists mirror each other with multiplicity, and they name tasks of the run only.
  It is the hypothesis under which the engine is proved correct.
\<close>

theorem LoadRunTopology_wf:
  assumes "LoadRunTopology db runID = Inr tp"
  shows "topo_wf tp"
  by (rule LoadRunTopology_topo_wf [OF assms])

text \<open>An example catalog: branch task 1 with successors 2 and 3.\<close>

definition branch_db :: store_db where
  "branch_db = (sample_db [sample_run 10 5] [])\<lparr>
     db_tasks := [sample_task 5 1 ''pick'' ''branch'', sample_task 5 2 ''left'' ''task'', sample_task 5 3 ''right'' ''task''],
     db_task_edges := map (\<lambda>(a, b). \<lparr>TEJobID = 5, TEFromTaskID = a, TEToTaskID = b\<rparr>) [(1, 2), (1, 3)]\<rparr>"

lemma branch_loads: "LoadRunTopology branch_db 10 = Inr (catalogTopology branch_db 5)"
  by (simp add: LoadRunTopology_def branch_db_def sample_defs)

theorem LoadRunTopology_wf_witness: "topo_wf (catalogTopology branch_db 5)"
  by (rule LoadRunTopology_wf [OF branch_loads])

text \<open>
  C25. What a branch decision excludes, exactly, for the runs of the catalog and for replays: of
  the tasks of the run, the engine is told to skip the successors of the branch task, in the
  engine's topology and its order, that no selection names, and nothing else; a task that is no
  branch excludes nothing. A branch task with successors gets no decision, but an error, when one
  of its selections names no successor. The keys of the tables are unique, and a task row is
  quarantined only in a quarantined run.
\<close>

theorem branch_skips_exact:
  assumes "distinct (map TMID (db_tasks db))" "rows_unique db"
    and "find (\<lambda>j. JRID j = runID) (db_job_runs db) = Some j"
    and "\<And>r. r \<in> set (db_task_runs db) \<Longrightarrow> is_row runID t r \<Longrightarrow> TRQuarantine r \<Longrightarrow> JRQuarantine j"
    and "LoadRunTopology db runID = Inr tp" "t \<in> topo_keys tp"
    and "ResolveBranchSkips ustr db runID t sels = Inr skips"
  shows "case branch_targets ustr db runID t of
      None \<Rightarrow> skips = []
    | Some names \<Rightarrow>
        (Adjacency tp t \<noteq> [] \<longrightarrow> (\<forall>n \<in> set sels. \<exists>i. name_map names n = Some i))
        \<and> filter (\<lambda>i. i \<in> topo_keys tp) skips
            = filter (\<lambda>i. \<forall>n \<in> set sels. name_map names n \<noteq> Some i) (Adjacency tp t)"
proof (cases "JRQuarantine j")
  case True
  with replay_task [OF assms(2,3) _ assms(5,6)] obtain d
    where d: "replayTaskExecutionDescriptorTx runID t db = Inr (Some d, db)"
      "Adjacency tp t = filter (\<lambda>v. v \<in> topo_keys tp) (filter (\<lambda>s. s \<noteq> uuid_Nil) (map RefTaskID (DSuccessors d)))"
    by blast
  show ?thesis
    using assms(7) unfolding ResolveBranchSkips_def branch_targets_def
    by (auto simp: d split: if_splits dest!: unselected_Inr intro: filter_cong)
next
  case False
  with catalog_task [OF assms(1,3) _ _ assms(5,6)] assms(4) obtain task
    where c: "replayTaskExecutionDescriptorTx runID t db = Inr (None, db)"
      "find (\<lambda>x. TMID x = t) (db_tasks db) = Some task"
      "Adjacency tp t = filter (\<lambda>v. v \<in> topo_keys tp) (map TEToTaskID (successorEdges db task))"
    by blast
  show ?thesis
    using assms(7) unfolding ResolveBranchSkips_def branch_targets_def
    by (auto simp: c Let_def split: if_splits dest!: unselected_Inr intro: filter_cong)
qed

theorem branch_skips_exact_witness:
  "ResolveBranchSkips (\<lambda>_. '''') branch_db 10 1 [''left''] = Inr [3]
   \<and> filter (\<lambda>i. i \<in> topo_keys (catalogTopology branch_db 5)) [3] = [3]"
proof
  show r: "ResolveBranchSkips (\<lambda>_. '''') branch_db 10 1 [''left''] = Inr [3]" by code_simp
  have t: "branch_targets (\<lambda>_. '''') branch_db 10 1 = Some [(''left'', 2), (''right'', 3)]"
    "Adjacency (catalogTopology branch_db 5) 1 = [2, 3]" by code_simp+
  have "1 \<in> topo_keys (catalogTopology branch_db 5)" by code_simp
  from branch_skips_exact [OF _ _ _ _ branch_loads this r, of "sample_run 10 5"]
  show "filter (\<lambda>i. i \<in> topo_keys (catalogTopology branch_db 5)) [3] = [3]"
    unfolding t by (simp add: name_map_def branch_db_def sample_defs rows_unique_def)
qed

end
