(* ===== verification/Run_Lease.thy ===== *)
theory Run_Lease
  imports Store_DB
begin

text \<open>
  Run leases (\<open>internal/run/lease.go\<close>): which node owns a run, until when, and in which
  generation. Every operation is one SQL statement on the lease table, so it is a function on
  the table; the primary key is the run.
\<close>

section \<open>Operations\<close>

type_synonym lease_table = "run_lease list"

definition deleteRunLease :: "lease_table \<Rightarrow> uuid \<Rightarrow> lease_table" where
  "deleteRunLease tab runID = (if runID = uuid_Nil then tab else filter (\<lambda>l. RLRunID l \<noteq> runID) tab)"

definition AcquireLease ::
    "lease_table \<Rightarrow> uuid \<Rightarrow> string \<Rightarrow> int \<Rightarrow> timestamp \<Rightarrow> lease_table \<times> int" where
  "AcquireLease tab runID ownerNode ttl now =
     (case find (\<lambda>l. RLRunID l = runID) tab of
        None \<Rightarrow> (tab @ [\<lparr>RLRunID = runID, RLOwnerNode = ownerNode, RLAcquiredAt = now,
                          RLLeaseExpiresAt = now + ttl, RLGeneration = 1\<rparr>], 1)
      | Some existing \<Rightarrow> (tab, RLGeneration existing))"

definition takeover :: "string \<Rightarrow> int \<Rightarrow> timestamp \<Rightarrow> run_lease \<Rightarrow> run_lease" where
  "takeover newOwner ttl now l = l\<lparr>RLOwnerNode := newOwner, RLAcquiredAt := now,
     RLLeaseExpiresAt := now + ttl, RLGeneration := RLGeneration l + 1\<rparr>"

definition expired_for :: "string \<Rightarrow> timestamp \<Rightarrow> run_lease \<Rightarrow> bool" where
  "expired_for newOwner now l \<longleftrightarrow> RLLeaseExpiresAt l \<le> now \<and> RLOwnerNode l \<noteq> newOwner"

definition AcquireExpiredLeases ::
    "lease_table \<Rightarrow> string \<Rightarrow> int \<Rightarrow> timestamp \<Rightarrow> lease_table \<times> nat" where
  "AcquireExpiredLeases tab newOwner ttl now =
     (update_where (expired_for newOwner now) (takeover newOwner ttl now) tab,
      rows_affected (expired_for newOwner now) tab)"

definition RenewRunLeases ::
    "lease_table \<Rightarrow> string \<Rightarrow> uuid list \<Rightarrow> timestamp \<Rightarrow> lease_table \<times> nat" where
  "RenewRunLeases tab ownerNode runIDs newExpiresAt =
     (if runIDs = [] then (tab, 0)
      else let P = (\<lambda>l. RLOwnerNode l = ownerNode \<and> RLRunID l \<in> set runIDs)
           in (update_where P (\<lambda>l. l\<lparr>RLLeaseExpiresAt := newExpiresAt\<rparr>) tab, rows_affected P tab))"

definition valid_owner :: "string \<Rightarrow> timestamp \<Rightarrow> run_lease \<Rightarrow> bool" where
  "valid_owner ownerNode now l \<longleftrightarrow> RLOwnerNode l = ownerNode \<and> RLLeaseExpiresAt l > now"

definition RenewOwnedLeases ::
    "lease_table \<Rightarrow> string \<Rightarrow> timestamp \<Rightarrow> timestamp \<Rightarrow> lease_table \<times> nat" where
  "RenewOwnedLeases tab ownerNode newExpiresAt now =
     (update_where (valid_owner ownerNode now) (\<lambda>l. l\<lparr>RLLeaseExpiresAt := newExpiresAt\<rparr>) tab,
      rows_affected (valid_owner ownerNode now) tab)"

definition OwnedRuns :: "lease_table \<Rightarrow> string \<Rightarrow> timestamp \<Rightarrow> uuid list" where
  "OwnedRuns tab ownerNode now = map RLRunID (filter (valid_owner ownerNode now) tab)"

definition OwnedRunsWithGenerations :: "lease_table \<Rightarrow> string \<Rightarrow> timestamp \<Rightarrow> (uuid \<times> int) list" where
  "OwnedRunsWithGenerations tab ownerNode now =
     foldl (\<lambda>out l. AList.update (RLRunID l) (RLGeneration l) out) [] (filter (valid_owner ownerNode now) tab)"

definition IsOwner :: "lease_table \<Rightarrow> string \<Rightarrow> uuid \<Rightarrow> timestamp \<Rightarrow> bool" where
  "IsOwner tab ownerNode runID now \<longleftrightarrow>
     rows_affected (\<lambda>l. RLRunID l = runID \<and> valid_owner ownerNode now l) tab > 0"

definition GetLease :: "lease_table \<Rightarrow> uuid \<Rightarrow> run_lease option" where
  "GetLease tab runID = find (\<lambda>l. RLRunID l = runID) tab"

section \<open>The lease protocol\<close>

text \<open>
  The steps a live run's lease takes: a fresh acquisition, a sweep over expired leases, and a
  renewal of the leases a node still holds. (A cancelled run's lease is removed.) Each happens
  at some reading of the clock; readings of different nodes need not agree.
\<close>

inductive lease_step :: "lease_table \<Rightarrow> lease_table \<Rightarrow> bool" where
  acquire: "0 < ttl \<Longrightarrow> lease_step tab (fst (AcquireLease tab runID node ttl now))"
| sweep: "0 < ttl \<Longrightarrow> lease_step tab (fst (AcquireExpiredLeases tab node ttl now))"
| renew: "lease_step tab (fst (RenewOwnedLeases tab node (now + ttl) now))"

definition leases_ok :: "lease_table \<Rightarrow> bool" where
  "leases_ok tab \<longleftrightarrow> distinct (map RLRunID tab) \<and> (\<forall>l \<in> set tab. 1 \<le> RLGeneration l)"

lemma GetLease_Some: "GetLease tab r = Some l \<Longrightarrow> l \<in> set tab \<and> RLRunID l = r"
  by (auto simp: GetLease_def find_Some_iff)

lemma GetLease_eqI:
  "leases_ok tab \<Longrightarrow> l \<in> set tab \<Longrightarrow> GetLease tab (RLRunID l) = Some l"
  unfolding leases_ok_def GetLease_def by (induction tab) (auto simp: image_iff)

lemma IsOwner_iff:
  assumes "leases_ok tab"
  shows "IsOwner tab node r now \<longleftrightarrow> (\<exists>l. GetLease tab r = Some l \<and> valid_owner node now l)"
proof
  assume "IsOwner tab node r now"
  then obtain l where "l \<in> set tab" "RLRunID l = r" "valid_owner node now l"
    by (auto simp: IsOwner_def rows_affected_def filter_empty_conv)
  with GetLease_eqI [OF assms] show "\<exists>l. GetLease tab r = Some l \<and> valid_owner node now l" by blast
next
  assume "\<exists>l. GetLease tab r = Some l \<and> valid_owner node now l"
  then show "IsOwner tab node r now"
    using GetLease_Some [of tab r] by (auto simp: IsOwner_def rows_affected_def filter_empty_conv)
qed

lemma GetLease_update_where:
  assumes "\<And>l. RLRunID (f l) = RLRunID l"
  shows "GetLease (update_where P f tab) r = map_option (\<lambda>l. if P l then f l else l) (GetLease tab r)"
  unfolding GetLease_def by (rule find_update_where) (simp add: assms)

lemma leases_ok_update_where:
  assumes "leases_ok tab" "\<And>l. RLRunID (f l) = RLRunID l" "\<And>l. RLGeneration l \<le> RLGeneration (f l)"
  shows "leases_ok (update_where P f tab)"
proof -
  have "map RLRunID (update_where P f tab) = map RLRunID tab"
    by (rule map_update_where) (simp add: assms(2))
  moreover have "1 \<le> RLGeneration (f l)" if "1 \<le> RLGeneration l" for l
    using that assms(3) [of l] by linarith
  ultimately show ?thesis using assms(1) by (auto simp: leases_ok_def set_update_where)
qed

lemma AcquireLease_ok: "leases_ok tab \<Longrightarrow> leases_ok (fst (AcquireLease tab r node ttl now))"
  by (auto simp: AcquireLease_def leases_ok_def find_None_iff split: option.splits)

lemma lease_step_ok: "leases_ok tab \<Longrightarrow> lease_step tab tab' \<Longrightarrow> leases_ok tab'"
  by (erule lease_step.cases)
     (auto simp: AcquireLease_ok AcquireExpiredLeases_def RenewOwnedLeases_def takeover_def
        intro!: leases_ok_update_where)

interpretation leases: step_machine "\<lambda>tab. tab = []" lease_step leases_ok
proof unfold_locales
  show "leases_ok tab" if "tab = []" for tab using that by (simp add: leases_ok_def)
qed (rule lease_step_ok)

text \<open>
  Ownership only moves forward: a lease is never lost, its generation never falls, and a
  change of owner raises it.
\<close>

definition lease_forward :: "lease_table \<Rightarrow> lease_table \<Rightarrow> bool" where
  "lease_forward tab tab' \<longleftrightarrow> (\<forall>r l. GetLease tab r = Some l \<longrightarrow>
     (\<exists>l'. GetLease tab' r = Some l' \<and> RLGeneration l \<le> RLGeneration l'
        \<and> (RLOwnerNode l' \<noteq> RLOwnerNode l \<longrightarrow> RLGeneration l < RLGeneration l')))"

lemma lease_forward_refl: "lease_forward tab tab"
  by (simp add: lease_forward_def)

lemma lease_forward_trans: "lease_forward a b \<Longrightarrow> lease_forward b c \<Longrightarrow> lease_forward a c"
  unfolding lease_forward_def
proof (intro allI impI)
  fix r l
  assume ab: "\<forall>r l. GetLease a r = Some l \<longrightarrow> (\<exists>l'. GetLease b r = Some l' \<and> RLGeneration l \<le> RLGeneration l'
      \<and> (RLOwnerNode l' \<noteq> RLOwnerNode l \<longrightarrow> RLGeneration l < RLGeneration l'))"
    and bc: "\<forall>r l. GetLease b r = Some l \<longrightarrow> (\<exists>l'. GetLease c r = Some l' \<and> RLGeneration l \<le> RLGeneration l'
      \<and> (RLOwnerNode l' \<noteq> RLOwnerNode l \<longrightarrow> RLGeneration l < RLGeneration l'))"
    and l: "GetLease a r = Some l"
  from ab l obtain m where m: "GetLease b r = Some m" "RLGeneration l \<le> RLGeneration m"
    "RLOwnerNode m \<noteq> RLOwnerNode l \<Longrightarrow> RLGeneration l < RLGeneration m" by blast
  from bc m(1) obtain n where n: "GetLease c r = Some n" "RLGeneration m \<le> RLGeneration n"
    "RLOwnerNode n \<noteq> RLOwnerNode m \<Longrightarrow> RLGeneration m < RLGeneration n" by blast
  show "\<exists>l'. GetLease c r = Some l' \<and> RLGeneration l \<le> RLGeneration l'
      \<and> (RLOwnerNode l' \<noteq> RLOwnerNode l \<longrightarrow> RLGeneration l < RLGeneration l')"
    using m n by (intro exI [of _ n]) (cases "RLOwnerNode n = RLOwnerNode m"; auto)
qed

lemma find_snoc: "find P xs = Some x \<Longrightarrow> find P (xs @ ys) = Some x"
  by (induction xs) auto

lemma lease_step_forward: "lease_step tab tab' \<Longrightarrow> lease_forward tab tab'"
proof (induction rule: lease_step.induct)
  case (acquire ttl tab runID node now)
  then show ?case
    by (auto simp: AcquireLease_def lease_forward_def GetLease_def find_snoc split: option.splits)
next
  case (sweep ttl tab node now)
  then show ?case
    by (auto simp: AcquireExpiredLeases_def lease_forward_def GetLease_update_where takeover_def)
next
  case (renew tab node now ttl)
  then show ?case
    by (auto simp: RenewOwnedLeases_def lease_forward_def GetLease_update_where)
qed


section \<open>Properties\<close>

lemma leases_reachable_ok: "reachable_from lease_step [] tab \<Longrightarrow> leases_ok tab"
  by (rule leases.inv_reachable) simp_all

lemma leases_reachable_forward:
  assumes "leases_ok tab" "reachable_from lease_step tab tab'"
  shows "lease_forward tab tab'"
  by (rule leases.preserved_by_reachable [OF _ lease_forward_trans lease_forward_refl assms])
     (rule lease_step_forward)

text \<open>
  C10. A run has one owner at a time and ownership is fenced by generations. When two nodes pass
  the owner check for the same run, at two points of any history of acquisitions, sweeps and
  renewals and at any readings of their clocks, the later check sees a generation that is not
  lower, and the nodes are the same or the generation has risen; in particular at a single
  point both checks name the same node.
\<close>

theorem lease_fencing:
  assumes "reachable_from lease_step [] tab" "reachable_from lease_step tab tab'"
    and "IsOwner tab a r t" "IsOwner tab' b r t'"
  shows "\<exists>l l'. GetLease tab r = Some l \<and> GetLease tab' r = Some l' \<and> RLOwnerNode l = a \<and> RLOwnerNode l' = b
    \<and> 1 \<le> RLGeneration l \<and> RLGeneration l \<le> RLGeneration l' \<and> (a = b \<or> RLGeneration l < RLGeneration l')
    \<and> (a = b \<or> tab \<noteq> tab')"
proof -
  have ok: "leases_ok tab" by (rule leases_reachable_ok [OF assms(1)])
  then have ok': "leases_ok tab'" by (rule leases.inv_reachable_from [OF assms(2)])
  obtain l where l: "GetLease tab r = Some l" "RLOwnerNode l = a"
    using assms(3) IsOwner_iff [OF ok] by (auto simp: valid_owner_def)
  obtain l' where l': "GetLease tab' r = Some l'" "RLOwnerNode l' = b"
    using assms(4) IsOwner_iff [OF ok'] by (auto simp: valid_owner_def)
  have "1 \<le> RLGeneration l" using ok GetLease_Some [OF l(1)] by (simp add: leases_ok_def)
  moreover have "RLGeneration l \<le> RLGeneration l'" "RLOwnerNode l' \<noteq> RLOwnerNode l \<Longrightarrow> RLGeneration l < RLGeneration l'"
    using leases_reachable_forward [OF ok assms(2), unfolded lease_forward_def, rule_format, OF l(1)] l'(1) by auto
  ultimately show ?thesis using l l' by (cases "a = b") auto
qed

theorem lease_fencing_witness:
  "let tab = fst (AcquireLease [] 7 ''a'' 10 0); tab' = fst (AcquireExpiredLeases tab ''b'' 10 20)
   in \<exists>l l'. GetLease tab 7 = Some l \<and> GetLease tab' 7 = Some l' \<and> RLOwnerNode l = ''a'' \<and> RLOwnerNode l' = ''b''
        \<and> RLGeneration l < RLGeneration l'"
proof -
  let ?tab = "fst (AcquireLease [] 7 ''a'' 10 0)" and ?tab' = "fst (AcquireExpiredLeases (fst (AcquireLease [] 7 ''a'' 10 0)) ''b'' 10 20)"
  have 1: "reachable_from lease_step [] ?tab"
    by (rule reachable_step [OF reachable_init]) (simp add: lease_step.acquire)
  have 2: "reachable_from lease_step ?tab ?tab'"
    by (rule reachable_step [OF reachable_init]) (simp add: lease_step.sweep)
  have "IsOwner ?tab ''a'' 7 5" "IsOwner ?tab' ''b'' 7 25" by code_simp+
  from lease_fencing [OF 1 2 this] show ?thesis by (auto simp: Let_def)
qed

text \<open>
  C32. The sweep for expired leases leaves a lease that its owner still holds: the owner check
  of the holder succeeds before and after, with the same lease row.
\<close>

theorem sweep_keeps_valid:
  assumes "leases_ok tab" "IsOwner tab a r now"
  shows "IsOwner (fst (AcquireExpiredLeases tab b ttl now)) a r now
    \<and> GetLease (fst (AcquireExpiredLeases tab b ttl now)) r = GetLease tab r"
proof -
  obtain l where l: "GetLease tab r = Some l" "valid_owner a now l"
    using assms IsOwner_iff by blast
  then have "\<not> expired_for b now l" by (simp add: valid_owner_def expired_for_def)
  with l(1) have "GetLease (fst (AcquireExpiredLeases tab b ttl now)) r = Some l"
    by (simp add: AcquireExpiredLeases_def GetLease_update_where takeover_def)
  moreover have "leases_ok (fst (AcquireExpiredLeases tab b ttl now))"
    unfolding AcquireExpiredLeases_def
    using leases_ok_update_where [OF assms(1), of "takeover b ttl now"] by (simp add: takeover_def)
  ultimately show ?thesis using l IsOwner_iff by auto
qed

theorem sweep_keeps_valid_witness:
  "IsOwner (fst (AcquireExpiredLeases (fst (AcquireLease [] 7 ''a'' 10 0)) ''b'' 10 5)) ''a'' 7 5"
proof -
  have ok: "leases_ok (fst (AcquireLease [] 7 ''a'' 10 0))"
    by (rule AcquireLease_ok) (simp add: leases_ok_def)
  have "IsOwner (fst (AcquireLease [] 7 ''a'' 10 0)) ''a'' 7 5" by code_simp
  from sweep_keeps_valid [OF ok this] show ?thesis by blast
qed

end
