(* ===== verification/Run_Store.thy ===== *)
theory Run_Store
  imports Task_Store Run_Lease
begin

text \<open>
  The run operations of the run store (\<open>internal/run/store.go\<close>): admission under a concurrency
  policy, starting, queueing, cancelling, completing and retrying runs.
\<close>

section \<open>Cancelling\<close>

record cancelled_run_info =
  CIID :: uuid
  CIJobID :: uuid
  CIJobAlias :: string
  CIStartedAt :: timestamp
  CIQuarantine :: bool
  CICancelledAt :: timestamp

definition run_event :: "event_type \<Rightarrow> job_run \<Rightarrow> execution_event" where
  "run_event et j = \<lparr>EVType = et, EVJobID = JRJobID j, EVRunID = JRID j, EVTaskID = uuid_Nil,
                     EVQuarantine = JRQuarantine j\<rparr>"

definition job_alias_of :: "store_db \<Rightarrow> uuid \<Rightarrow> string" where
  "job_alias_of db jobID = (case find (\<lambda>m. JMID m = jobID) (db_jobs db) of None \<Rightarrow> '''' | Some m \<Rightarrow> JMAlias m)"

definition cancelRunTx :: "uuid \<Rightarrow> string \<Rightarrow> timestamp \<Rightarrow> cancelled_run_info option tx" where
  "cancelRunTx runID reason0 now =
     (let reason = (if TrimSpace reason0 = '''' then ''cancelled'' else reason0)
      in tx_bind (update_job_runs (\<lambda>j. JRID j = runID \<and> JRStatus j = StatusRunning)
           (\<lambda>j. j\<lparr>JRStatus := StatusCancelled, JRCompletedAt := Some now, JRError := reason\<rparr>)) (\<lambda>affected.
         if affected = 0 then tx_ok None
         else
           tx_bind (update_task_runs
             (\<lambda>r. TRJobRunID r = runID \<and> TRStatus r \<notin> set terminalStatusStrings)
             (\<lambda>r. r\<lparr>TRStatus := TaskStatusCancelled, TRCompletedAt := Some now, TRError := reason,
                    TRClaimedBy := '''', TRClaimExpiresAt := None, TRRuntimeID := '''',
                    TRRateLimitRetryAfter := None\<rparr>)) (\<lambda>_.
           tx_bind (tx_modify (\<lambda>db. db\<lparr>db_run_leases := deleteRunLease (db_run_leases db) runID\<rparr>)) (\<lambda>_.
           tx_bind (the_job_run runID) (\<lambda>j.
           tx_bind (tx_read (\<lambda>db. job_alias_of db (JRJobID j))) (\<lambda>alias.
           tx_bind (append_event (run_event TypeRunCancelled j)) (\<lambda>_.
           tx_bind (append_event (run_event TypeRunTerminal j)) (\<lambda>_.
             tx_ok (Some \<lparr>CIID = runID, CIJobID = JRJobID j, CIJobAlias = alias, CIStartedAt = JRStartedAt j,
                          CIQuarantine = JRQuarantine j, CICancelledAt = now\<rparr>)))))))))"

definition is_active :: "uuid \<Rightarrow> job_run \<Rightarrow> bool" where
  "is_active jobID j \<longleftrightarrow> JRJobID j = jobID \<and> JRStatus j = StatusRunning \<and> \<not> JRQuarantine j \<and> JRBackfillID j = None"

definition CountActive :: "store_db \<Rightarrow> uuid \<Rightarrow> nat" where
  "CountActive db jobID = length (filter (is_active jobID) (db_job_runs db))"

definition cancelOldestActiveRunTx :: "uuid \<Rightarrow> timestamp \<Rightarrow> cancelled_run_info option tx" where
  "cancelOldestActiveRunTx jobID now = (\<lambda>db.
     case sort_key JRStartedAt (filter (is_active jobID) (db_job_runs db)) of
       [] \<Rightarrow> Inr (None, db)
     | j # _ \<Rightarrow> cancelRunTx (JRID j) ''cancelled by concurrency replacement'' now db)"

definition CancelRun :: "uuid \<Rightarrow> timestamp \<Rightarrow> unit tx" where
  "CancelRun runID now = tx_bind (cancelRunTx runID ''cancelled by concurrency replacement'' now) (\<lambda>_. tx_ok ())"

section \<open>The run queue\<close>

definition unclaimed :: "uuid \<Rightarrow> run_queue_row \<Rightarrow> bool" where
  "unclaimed jobID q \<longleftrightarrow> RQJobID q = jobID \<and> RQClaimedBy q = ''''"

definition enqueueRunTx ::
    "uuid \<Rightarrow> uuid \<Rightarrow> (string \<times> string) list \<Rightarrow> int \<Rightarrow> int \<Rightarrow> timestamp \<Rightarrow> unit tx" where
  "enqueueRunTx newID jobID params priority0 maxDepth0 now = tx_modify (\<lambda>db.
     (let priority = (if priority0 \<le> 0 then PriorityNormalValue else priority0);
          maxDepth = (if maxDepth0 \<le> 0 then 100 else maxDepth0);
          row = \<lparr>RQID = newID, RQJobID = jobID, RQParams = params, RQPriority = priority,
                 RQClaimedBy = '''', RQClaimedAt = None, RQCreatedAt = now\<rparr>;
          queue1 = db_run_queue db @ [row];
          depth = int (length (filter (unclaimed jobID) queue1));
          overflow = depth - maxDepth
      in if overflow > 0
         then let drop_ids = map RQID (take (nat overflow) (sort_key RQCreatedAt (filter (unclaimed jobID) queue1)))
              in db\<lparr>db_run_queue := filter (\<lambda>q. RQID q \<notin> set drop_ids) queue1\<rparr>
         else db\<lparr>db_run_queue := queue1\<rparr>))"

text \<open>Priority descending, then creation time ascending: a stable sort on each key in turn.\<close>

definition queue_order :: "uuid \<Rightarrow> run_queue_row list \<Rightarrow> run_queue_row list" where
  "queue_order jobID q = sort_key (\<lambda>r. - RQPriority r) (sort_key RQCreatedAt (filter (unclaimed jobID) q))"

definition DequeueNextRun :: "uuid \<Rightarrow> string \<Rightarrow> string \<Rightarrow> timestamp \<Rightarrow> run_queue_row option tx" where
  "DequeueNextRun jobID claimedBy0 freshName now = (\<lambda>db.
     (let claimedBy = (if TrimSpace claimedBy0 = '''' then freshName else TrimSpace claimedBy0)
      in case queue_order jobID (db_run_queue db) of
           [] \<Rightarrow> Inr (None, db)
         | q # _ \<Rightarrow>
             let db1 = db\<lparr>db_run_queue := update_where (\<lambda>r. RQID r = RQID q \<and> RQClaimedBy r = '''')
                        (\<lambda>r. r\<lparr>RQClaimedBy := claimedBy, RQClaimedAt := Some now\<rparr>) (db_run_queue db)\<rparr>
             in case find (\<lambda>r. RQJobID r = jobID \<and> RQClaimedBy r = claimedBy) (db_run_queue db1) of
                  None \<Rightarrow> Inl ErrRecordNotFound
                | Some r \<Rightarrow> Inr (Some r, db1)))"

definition ReleaseQueuedRun :: "uuid \<Rightarrow> string \<Rightarrow> unit tx" where
  "ReleaseQueuedRun queueID claimedBy = tx_modify (\<lambda>db. db\<lparr>db_run_queue :=
     update_where (\<lambda>r. RQID r = queueID \<and> RQClaimedBy r = claimedBy)
       (\<lambda>r. r\<lparr>RQClaimedBy := '''', RQClaimedAt := None\<rparr>) (db_run_queue db)\<rparr>)"

definition CancelQueuedRun :: "uuid \<Rightarrow> uuid \<Rightarrow> unit tx" where
  "CancelQueuedRun jobID queueID = (\<lambda>db.
     (let P = (\<lambda>r. RQID r = queueID \<and> RQJobID r = jobID \<and> RQClaimedBy r = '''')
      in if list_ex P (db_run_queue db)
         then Inr ((), db\<lparr>db_run_queue := filter (\<lambda>r. \<not> P r) (db_run_queue db)\<rparr>)
         else if list_ex (\<lambda>r. RQID r = queueID \<and> RQJobID r = jobID) (db_run_queue db)
         then Inl ErrQueuedRunUnavailable else Inl ErrQueuedRunNotFound))"

definition DeleteQueuedRun :: "uuid \<Rightarrow> unit tx" where
  "DeleteQueuedRun queueID =
     tx_modify (\<lambda>db. db\<lparr>db_run_queue := filter (\<lambda>r. RQID r \<noteq> queueID) (db_run_queue db)\<rparr>)"

section \<open>Admission\<close>

record start_run_request =
  SRJobID :: uuid
  SRTriggerID :: "uuid option"
  SRBackfillID :: "uuid option"
  SRParams :: "(string \<times> string) list"
  SRPriorityOverride :: string
  SRFromQueue :: bool
  SRPolicyOnly :: bool

datatype admission_decision =
  admissionNoPolicy | admissionCreated | admissionSkipped | admissionFailed | admissionQueued

record admission_result =
  ARDecision :: admission_decision
  ARJobAlias :: string
  ARSkipReason :: string
  ARReplaced :: bool
  ARCancelledRun :: "cancelled_run_info option"

record concurrency_config =
  CCJobAlias :: string
  CCMaxRuns :: int
  CCStrategy :: string

definition ConcurrencyStrategyQueue :: string where "ConcurrencyStrategyQueue = ''queue''"
definition ConcurrencyStrategyReplace :: string where "ConcurrencyStrategyReplace = ''replace''"
definition ConcurrencyStrategySkip :: string where "ConcurrencyStrategySkip = ''skip''"
definition ConcurrencyStrategyFail :: string where "ConcurrencyStrategyFail = ''fail''"

lemmas strategy_defs = ConcurrencyStrategyQueue_def ConcurrencyStrategyReplace_def
  ConcurrencyStrategySkip_def ConcurrencyStrategyFail_def

definition newStartRunModel :: "start_run_request \<Rightarrow> uuid \<Rightarrow> timestamp \<Rightarrow> job_run" where
  "newStartRunModel req newID now =
     \<lparr>JRID = newID, JRJobID = SRJobID req, JRBackfillID = SRBackfillID req,
      JRTriggerID = (case SRTriggerID req of None \<Rightarrow> uuid_Nil | Some t \<Rightarrow> t),
      JRStatus = StatusRunning, JRPriority = 0, JRError = '''', JRParams = SRParams req,
      JRQuarantine = False, JRStartedAt = now, JRCompletedAt = None, JRCreatedAt = now\<rparr>"

definition priority_tx :: "string \<Rightarrow> int tx" where
  "priority_tx p = (case PriorityValue p of
       Inl (ErrInvalidPriority q) \<Rightarrow> tx_fail (StoreErr (''run: invalid priority '' @ quoteQ q @ '' (must be ''
         @ quoteQ ''high'' @ '', '' @ quoteQ ''normal'' @ '', or '' @ quoteQ ''low'' @ '')''))
     | Inr n \<Rightarrow> tx_ok n)"

definition startPriorityTx :: "uuid \<Rightarrow> string \<Rightarrow> int tx" where
  "startPriorityTx jobID override =
     (if TrimSpace override \<noteq> '''' then priority_tx override
      else tx_bind (tx_read (\<lambda>db. find (\<lambda>m. JMID m = jobID) (db_jobs db))) (\<lambda>job.
        case job of None \<Rightarrow> tx_ok PriorityNormalValue | Some m \<Rightarrow> priority_tx (JMPriority m)))"

definition concurrencyConfigTx :: "uuid \<Rightarrow> (concurrency_config \<times> bool) tx" where
  "concurrencyConfigTx jobID =
     (let none = \<lparr>CCJobAlias = '''', CCMaxRuns = 0, CCStrategy = ''''\<rparr>
      in tx_bind (tx_read (\<lambda>db. find (\<lambda>m. JMID m = jobID) (db_jobs db))) (\<lambda>job.
         case job of
           None \<Rightarrow> tx_ok (none, False)
         | Some m \<Rightarrow> (case JMConcurrency m of
               UndecodableConcurrency e \<Rightarrow> tx_fail (StoreErr (''run: decode job concurrency metadata: '' @ e))
             | NoConcurrency \<Rightarrow> tx_ok (none\<lparr>CCJobAlias := JMAlias m\<rparr>, False)
             | Concurrency maxRuns strategy0 \<Rightarrow>
                 if maxRuns \<le> 0 then tx_ok (none\<lparr>CCJobAlias := JMAlias m\<rparr>, False)
                 else
                   let strategy = ToLower (TrimSpace strategy0)
                   in tx_ok (\<lparr>CCJobAlias = JMAlias m, CCMaxRuns = maxRuns,
                              CCStrategy = (if strategy = '''' then ConcurrencyStrategyQueue else strategy)\<rparr>, True))))"

definition insertRunIfSlotTx :: "job_run \<Rightarrow> int \<Rightarrow> bool tx" where
  "insertRunIfSlotTx model maxRuns = (\<lambda>db.
     if maxRuns \<le> 0 then Inr (True, db\<lparr>db_job_runs := db_job_runs db @ [model]\<rparr>)
     else if int (CountActive db (JRJobID model)) < maxRuns
     then Inr (True, db\<lparr>db_job_runs := db_job_runs db @ [model]\<rparr>)
     else Inr (False, db))"

definition admit ::
    "job_run \<Rightarrow> start_run_request \<Rightarrow> uuid \<Rightarrow> int \<Rightarrow> timestamp \<Rightarrow> admission_result tx" where
  "admit model req queueID maxDepth now =
     tx_bind (concurrencyConfigTx (JRJobID model)) (\<lambda>(cfg, ok).
     (let result = \<lparr>ARDecision = admissionNoPolicy, ARJobAlias = CCJobAlias cfg, ARSkipReason = '''',
                    ARReplaced = False, ARCancelledRun = None\<rparr>
      in if \<not> ok then tx_ok result
         else if JRBackfillID model \<noteq> None then tx_ok result
         else tx_bind (insertRunIfSlotTx model (CCMaxRuns cfg)) (\<lambda>inserted.
           if inserted then tx_ok (result\<lparr>ARDecision := admissionCreated\<rparr>)
           else if CCStrategy cfg = ConcurrencyStrategySkip
             then tx_ok (result\<lparr>ARDecision := admissionSkipped, ARSkipReason := ''max_concurrency''\<rparr>)
           else if CCStrategy cfg = ConcurrencyStrategyFail
             then tx_ok (result\<lparr>ARDecision := admissionFailed\<rparr>)
           else if CCStrategy cfg = ConcurrencyStrategyQueue
             then (if SRFromQueue req then tx_ok (result\<lparr>ARDecision := admissionFailed\<rparr>)
                   else tx_bind (enqueueRunTx queueID (JRJobID model) (JRParams model) (JRPriority model) maxDepth now)
                          (\<lambda>_. tx_ok (result\<lparr>ARDecision := admissionQueued\<rparr>)))
           else if CCStrategy cfg = ConcurrencyStrategyReplace
             then tx_bind (cancelOldestActiveRunTx (JRJobID model) now) (\<lambda>cancelled.
                  tx_bind (insertRunIfSlotTx model (CCMaxRuns cfg)) (\<lambda>inserted2.
                    if \<not> inserted2 then tx_ok (result\<lparr>ARDecision := admissionFailed\<rparr>)
                    else tx_ok (result\<lparr>ARDecision := admissionCreated, ARReplaced := (cancelled \<noteq> None),
                                      ARCancelledRun := cancelled\<rparr>)))
           else tx_fail (StoreErr (''run: unsupported concurrency strategy '' @ quoteQ (CCStrategy cfg))))))"

text \<open>
  The transaction of \<open>startRun\<close>, and the whole of it: the lease of the new run is written
  after the commit, when run-owner mode configures a node and a lease duration.
\<close>

definition finish_start :: "start_run_request \<Rightarrow> job_run \<Rightarrow> admission_result \<Rightarrow> admission_result tx" where
  "finish_start req model result =
     (case ARDecision result of
        admissionNoPolicy \<Rightarrow>
          if SRPolicyOnly req then tx_ok result
          else tx_bind (tx_modify (\<lambda>db. db\<lparr>db_job_runs := db_job_runs db @ [model]\<rparr>)) (\<lambda>_.
               tx_bind (append_event (run_event TypeRunStarted model)) (\<lambda>_.
                 tx_ok (result\<lparr>ARDecision := admissionCreated\<rparr>)))
      | admissionCreated \<Rightarrow> tx_bind (append_event (run_event TypeRunStarted model)) (\<lambda>_. tx_ok result)
      | admissionSkipped \<Rightarrow> tx_ok result
      | admissionFailed \<Rightarrow> tx_ok result
      | admissionQueued \<Rightarrow> tx_ok result)"

definition startRunTx ::
    "start_run_request \<Rightarrow> uuid \<Rightarrow> uuid \<Rightarrow> int \<Rightarrow> timestamp \<Rightarrow> admission_result tx" where
  "startRunTx req newID queueID maxDepth now =
     tx_bind (startPriorityTx (SRJobID req) (SRPriorityOverride req)) (\<lambda>priority.
     (let model = (newStartRunModel req newID now)\<lparr>JRPriority := priority\<rparr>
      in tx_bind (admit model req queueID maxDepth now) (finish_start req model)))"

definition startRun ::
    "(string \<times> int) option \<Rightarrow> start_run_request \<Rightarrow> uuid \<Rightarrow> uuid \<Rightarrow> int \<Rightarrow> timestamp \<Rightarrow> store_db
       \<Rightarrow> store_db \<times> (store_error + job_run option)" where
  "startRun leaseCfg req newID queueID maxDepth now db =
     (case startRunTx req newID queueID maxDepth now db of
        Inl e \<Rightarrow> (db, Inl e)
      | Inr (admission, db1) \<Rightarrow>
          (case ARDecision admission of
             admissionNoPolicy \<Rightarrow> (db1, Inr None)
           | admissionSkipped \<Rightarrow> (db1, Inl ErrRunSkipped)
           | admissionFailed \<Rightarrow> (db1, Inl ErrMaxConcurrentRunsReached)
           | admissionQueued \<Rightarrow> (db1, Inl ErrRunQueued)
           | admissionCreated \<Rightarrow>
               let db2 = (case leaseCfg of
                     None \<Rightarrow> db1
                   | Some (node, ttl) \<Rightarrow>
                       db1\<lparr>db_run_leases := fst (AcquireLease (db_run_leases db1) newID node ttl now)\<rparr>)
               in (case find (\<lambda>j. JRID j = newID) (db_job_runs db2) of
                     None \<Rightarrow> (db2, Inl ErrRecordNotFound)
                   | Some j \<Rightarrow> (db2, Inr (Some j)))))"


section \<open>Entry points of a start\<close>

definition StartWithContext ::
    "(string \<times> int) option \<Rightarrow> uuid \<Rightarrow> uuid option \<Rightarrow> (string \<times> string) list \<Rightarrow> string
       \<Rightarrow> uuid \<Rightarrow> uuid \<Rightarrow> int \<Rightarrow> timestamp \<Rightarrow> store_db \<Rightarrow> store_db \<times> (store_error + job_run option)" where
  "StartWithContext leaseCfg jobID triggerID params priority = startRun leaseCfg
     \<lparr>SRJobID = jobID, SRTriggerID = triggerID, SRBackfillID = None, SRParams = params,
      SRPriorityOverride = TrimSpace priority, SRFromQueue = False, SRPolicyOnly = False\<rparr>"

text \<open>The boolean says whether the policy decided the start.\<close>

definition AdmitRun ::
    "(string \<times> int) option \<Rightarrow> uuid \<Rightarrow> uuid option \<Rightarrow> (string \<times> string) list \<Rightarrow> string
       \<Rightarrow> uuid \<Rightarrow> uuid \<Rightarrow> int \<Rightarrow> timestamp \<Rightarrow> store_db \<Rightarrow> store_db \<times> (store_error + job_run option) \<times> bool" where
  "AdmitRun leaseCfg jobID triggerID params priority newID queueID maxDepth now db =
     (let (db1, r) = startRun leaseCfg
            \<lparr>SRJobID = jobID, SRTriggerID = triggerID, SRBackfillID = None, SRParams = params,
             SRPriorityOverride = TrimSpace priority, SRFromQueue = False, SRPolicyOnly = True\<rparr>
            newID queueID maxDepth now db
      in (db1, r, r \<noteq> Inr None))"

definition StartForBackfill ::
    "(string \<times> int) option \<Rightarrow> uuid \<Rightarrow> uuid \<Rightarrow> (string \<times> string) list
       \<Rightarrow> uuid \<Rightarrow> uuid \<Rightarrow> int \<Rightarrow> timestamp \<Rightarrow> store_db \<Rightarrow> store_db \<times> (store_error + job_run option)" where
  "StartForBackfill leaseCfg jobID backfillID params = startRun leaseCfg
     \<lparr>SRJobID = jobID, SRTriggerID = None, SRBackfillID = Some backfillID, SRParams = params,
      SRPriorityOverride = '''', SRFromQueue = False, SRPolicyOnly = False\<rparr>"

definition StartQueuedRun ::
    "(string \<times> int) option \<Rightarrow> run_queue_row
       \<Rightarrow> uuid \<Rightarrow> uuid \<Rightarrow> int \<Rightarrow> timestamp \<Rightarrow> store_db \<Rightarrow> store_db \<times> (store_error + job_run option)" where
  "StartQueuedRun leaseCfg queued = startRun leaseCfg
     \<lparr>SRJobID = RQJobID queued, SRTriggerID = None, SRBackfillID = None, SRParams = RQParams queued,
      SRPriorityOverride = PriorityLabel (RQPriority queued), SRFromQueue = True, SRPolicyOnly = False\<rparr>"

section \<open>Completing a run\<close>

definition terminal_run_statuses :: "run_status list" where
  "terminal_run_statuses = [StatusSucceeded, StatusFailed, StatusCancelled]"

definition completeTx :: "uuid \<Rightarrow> string option \<Rightarrow> timestamp \<Rightarrow> unit tx" where
  "completeTx runID result now =
     (let status = (if result = None then StatusSucceeded else StatusFailed);
          errMsg = (case result of None \<Rightarrow> '''' | Some m \<Rightarrow> m)
      in tx_bind (update_job_runs (\<lambda>j. JRID j = runID \<and> JRStatus j \<notin> set terminal_run_statuses)
           (\<lambda>j. j\<lparr>JRStatus := status, JRCompletedAt := Some now, JRError := errMsg\<rparr>)) (\<lambda>affected.
         if affected = 0 then tx_fail errRunAlreadyTerminal
         else tx_bind (the_job_run runID) (\<lambda>j.
              tx_bind (append_event (run_event (if status = StatusFailed then TypeRunFailed else TypeRunCompleted) j)) (\<lambda>_.
              append_event (run_event TypeRunTerminal j)))))"

definition Complete :: "uuid \<Rightarrow> string option \<Rightarrow> timestamp \<Rightarrow> unit tx" where
  "Complete runID result now = (\<lambda>db.
     case completeTx runID result now db of
       Inl e \<Rightarrow> if e = errRunAlreadyTerminal then Inr ((), db) else Inl e
     | Inr r \<Rightarrow> Inr r)"

section \<open>Retrying a run\<close>

definition readmitted :: "job_run \<Rightarrow> job_run" where
  "readmitted j = j\<lparr>JRStatus := StatusRunning, JRCompletedAt := None, JRError := ''''\<rparr>"

definition readmitRetryTx :: "job_run \<Rightarrow> bool \<Rightarrow> unit tx" where
  "readmitRetryTx jobRun admitFlag =
     (let unconditional = tx_bind (update_job_runs (\<lambda>j. JRID j = JRID jobRun) readmitted) (\<lambda>_. tx_ok ())
      in if \<not> admitFlag \<or> JRQuarantine jobRun then unconditional
         else tx_bind (concurrencyConfigTx (JRJobID jobRun)) (\<lambda>(cfg, hasPolicy).
           if \<not> hasPolicy then unconditional
           else tx_bind (tx_read (\<lambda>db. length (filter (\<lambda>j. is_active (JRJobID jobRun) j \<and> JRID j \<noteq> JRID jobRun)
                                         (db_job_runs db)))) (\<lambda>active.
                tx_bind (update_job_runs
                  (\<lambda>j. JRID j = JRID jobRun \<and> JRStatus j \<in> set [StatusFailed, StatusSucceeded]
                       \<and> int active < CCMaxRuns cfg) readmitted) (\<lambda>affected.
                if affected \<noteq> 1 then tx_fail ErrMaxConcurrentRunsReached else tx_ok ()))))"

definition reset_columns :: "task_run \<Rightarrow> task_run" where
  "reset_columns r = r\<lparr>TRStatus := TaskStatusPending, TRCompletedAt := None, TRResult := '''', TRError := '''',
     TRStartedAt := None, TRClaimedBy := '''', TRClaimExpiresAt := None, TRRuntimeID := '''',
     TRAttempt := 1, TRCacheHit := False, TRCacheOrigin := None\<rparr>"

definition needs_reset :: "uuid \<Rightarrow> task_run \<Rightarrow> bool" where
  "needs_reset runID r \<longleftrightarrow> TRJobRunID r = runID \<and> (TRStatus r = TaskStatusFailed \<or> TRStatus r = TaskStatusSkipped)"

fun recount_tasks :: "uuid \<Rightarrow> uuid list \<Rightarrow> uuid list \<Rightarrow> unit tx" where
  "recount_tasks runID successIDs [] = tx_ok ()"
| "recount_tasks runID successIDs (taskID # rest) =
     tx_bind (tx_read (\<lambda>db. length (filter (\<lambda>e. TEToTaskID e = taskID \<and> TEFromTaskID e \<notin> set successIDs)
                               (db_task_edges db)))) (\<lambda>outstanding.
     tx_bind (update_task_runs (is_row runID taskID)
       (\<lambda>r. r\<lparr>TROutstandingPredecessors := int outstanding\<rparr>)) (\<lambda>_.
     tx_bind (if outstanding = 0 then appendTaskReadyEventTx runID taskID else tx_ok ()) (\<lambda>_.
     recount_tasks runID successIDs rest)))"

definition run_status_string :: "run_status \<Rightarrow> string" where
  "run_status_string s = (case s of StatusRunning \<Rightarrow> ''running'' | StatusSucceeded \<Rightarrow> ''succeeded''
     | StatusFailed \<Rightarrow> ''failed'' | StatusCancelled \<Rightarrow> ''cancelled'' | StatusOther t \<Rightarrow> t)"

definition pause_guard :: "bool \<Rightarrow> uuid \<Rightarrow> unit tx" where
  "pause_guard admitFlag jobID =
     (if admitFlag
      then tx_bind (tx_first db_jobs (\<lambda>m. JMID m = jobID)) (\<lambda>m. if JMPaused m then tx_fail ErrJobPaused else tx_ok ())
      else tx_ok ())"

definition reset_failed_tasks :: "uuid \<Rightarrow> unit tx" where
  "reset_failed_tasks runID =
     tx_bind (tx_read (\<lambda>db. filter (\<lambda>r. TRJobRunID r = runID) (db_task_runs db))) (\<lambda>taskRuns.
     (let successIDs = map TRTaskID (filter (\<lambda>r. IsTerminalSuccess (TRStatus r)) taskRuns);
          resetIDs = map TRTaskID (filter (needs_reset runID) taskRuns)
      in tx_bind (update_task_runs (needs_reset runID) reset_columns) (\<lambda>_.
         recount_tasks runID successIDs resetIDs)))"

definition retryFromFailure :: "uuid \<Rightarrow> bool \<Rightarrow> unit tx" where
  "retryFromFailure runID admitFlag =
     tx_bind (the_job_run runID) (\<lambda>jobRun.
     if JRStatus jobRun \<noteq> StatusFailed \<and> JRStatus jobRun \<noteq> StatusSucceeded
     then tx_fail (StoreErr (''can only retry runs in terminal state, current: '' @ run_status_string (JRStatus jobRun)))
     else
       tx_bind (pause_guard admitFlag (JRJobID jobRun)) (\<lambda>_.
       tx_bind (readmitRetryTx jobRun admitFlag) (\<lambda>_.
       tx_bind (reset_failed_tasks runID) (\<lambda>_.
       append_event (run_event TypeRunRetried jobRun)))))"

text \<open>The manual retry, and the retry of the incident actions, which asks for a slot.\<close>

definition RetryFromFailure :: "uuid \<Rightarrow> unit tx" where
  "RetryFromFailure runID = retryFromFailure runID False"

definition RetryFromFailureAdmitted :: "uuid \<Rightarrow> unit tx" where
  "RetryFromFailureAdmitted runID = retryFromFailure runID True"

section \<open>The concurrency limit\<close>

text \<open>
  A relation between databases that composes along a transaction and does not look at the
  event log; the transactions of this theory are shown to stay in such a relation once.
\<close>

definition tx_rel :: "(store_db \<Rightarrow> store_db \<Rightarrow> bool) \<Rightarrow> 'a tx \<Rightarrow> bool" where
  "tx_rel R m \<longleftrightarrow> (\<forall>db x db'. m db = Inr (x, db') \<longrightarrow> R db db')"

lemma tx_relD: "tx_rel R m \<Longrightarrow> m db = Inr (x, db') \<Longrightarrow> R db db'"
  by (simp add: tx_rel_def)

locale tx_order =
  fixes R :: "store_db \<Rightarrow> store_db \<Rightarrow> bool"
  assumes R_refl: "R db db"
    and R_trans: "R a b \<Longrightarrow> R b c \<Longrightarrow> R a c"
    and R_events: "R db (db_events_update f db)"
    and R_tasks: "R db (db_task_runs_update g db)"
begin

lemma rel_bind: "tx_rel R m \<Longrightarrow> (\<And>x. tx_rel R (f x)) \<Longrightarrow> tx_rel R (tx_bind m f)"
  unfolding tx_rel_def tx_bind_def by (fastforce split: sum.splits intro: R_trans)

lemma rel_basic:
  "tx_rel R (tx_ok x)" "tx_rel R (tx_fail e)" "tx_rel R (tx_read h)" "tx_rel R (tx_first tab P)"
  "tx_rel R (append_event ev)" "tx_rel R (update_task_runs Q f)"
  using R_events R_tasks
  by (auto simp: tx_rel_def tx_simps R_refl split: option.splits)

lemma rel_ready_event: "tx_rel R (appendTaskReadyEventTx runID taskID)"
  unfolding appendTaskReadyEventTx_def stampEventQuarantineTx_def the_job_run_def the_task_run_def
  by (auto intro!: rel_bind rel_basic)

lemma rel_recount: "tx_rel R (recount_tasks runID successIDs ids)"
  by (induction ids) (auto intro!: rel_bind rel_basic rel_ready_event)

lemma rel_reset: "tx_rel R (reset_failed_tasks runID)"
  unfolding reset_failed_tasks_def Let_def by (intro rel_bind rel_basic rel_recount)

end

definition limit_of :: "store_db \<Rightarrow> uuid \<Rightarrow> int option" where
  "limit_of db jobID = (case find (\<lambda>m. JMID m = jobID) (db_jobs db) of
     Some m \<Rightarrow> (case JMConcurrency m of Concurrency n _ \<Rightarrow> if n > 0 then Some n else None | _ \<Rightarrow> None)
   | None \<Rightarrow> None)"

definition admission_inv :: "(uuid \<Rightarrow> nat) \<Rightarrow> store_db \<Rightarrow> bool" where
  "admission_inv k db \<longleftrightarrow> distinct (map JRID (db_job_runs db))
     \<and> (\<forall>jobID n. limit_of db jobID = Some n \<longrightarrow> int (CountActive db jobID) \<le> n + int (k jobID))"

definition admission_keeps :: "store_db \<Rightarrow> store_db \<Rightarrow> bool" where
  "admission_keeps db db' \<longleftrightarrow> db_jobs db' = db_jobs db \<and> (\<forall>k. admission_inv k db \<longrightarrow> admission_inv k db')"

lemma limit_of_cong: "db_jobs db' = db_jobs db \<Longrightarrow> limit_of db' = limit_of db"
  by (simp add: limit_of_def fun_eq_iff)

lemma admission_keepsI:
  assumes "db_jobs db' = db_jobs db" "map JRID (db_job_runs db') = map JRID (db_job_runs db)"
    and "\<And>jobID. CountActive db' jobID \<le> CountActive db jobID"
  shows "admission_keeps db db'"
proof -
  have "int (CountActive db' j) \<le> n" if "int (CountActive db j) \<le> n" for j n
    using assms(3) [of j] that by linarith
  then show ?thesis using assms(1,2) limit_of_cong [OF assms(1)]
    by (auto simp: admission_keeps_def admission_inv_def)
qed

interpretation keeps: tx_order admission_keeps
proof unfold_locales
  show "admission_keeps db db" for db by (simp add: admission_keeps_def)
  show "admission_keeps a c" if "admission_keeps a b" "admission_keeps b c" for a b c
    using that by (simp add: admission_keeps_def)
  show "admission_keeps db (db_events_update f db)" for db f
    by (rule admission_keepsI) (simp_all add: CountActive_def)
  show "admission_keeps db (db_task_runs_update g db)" for db g
    by (rule admission_keepsI) (simp_all add: CountActive_def)
qed

lemma keeps_modify:
  "(\<And>db. db_jobs (f db) = db_jobs db) \<Longrightarrow> (\<And>db. db_job_runs (f db) = db_job_runs db)
     \<Longrightarrow> tx_rel admission_keeps (tx_modify f)"
  by (auto simp: tx_rel_def tx_modify_def CountActive_def intro!: admission_keepsI)

text \<open>Ending runs frees slots.\<close>

lemma length_filter_mono: "(\<And>x. P x \<Longrightarrow> Q x) \<Longrightarrow> length (filter P xs) \<le> length (filter Q xs)"
  by (induction xs) (auto simp: le_SucI)

lemma count_update_where_le:
  "(\<And>r. P r \<Longrightarrow> Q (f r) \<Longrightarrow> Q r) \<Longrightarrow> length (filter Q (update_where P f rs)) \<le> length (filter Q rs)"
  by (induction rs) auto

lemma keeps_end_runs:
  assumes "\<And>j. JRID (f j) = JRID j" "\<And>j. JRStatus (f j) \<noteq> StatusRunning"
  shows "tx_rel admission_keeps (update_job_runs P f)"
  unfolding tx_rel_def update_job_runs_def
  by (auto simp: CountActive_def map_update_where assms is_active_def
      intro!: admission_keepsI count_update_where_le)

lemma keeps_cancelRunTx: "tx_rel admission_keeps (cancelRunTx runID reason now)"
  unfolding cancelRunTx_def the_job_run_def Let_def
  by (auto intro!: keeps.rel_bind keeps.rel_basic keeps_end_runs keeps_modify split: if_splits)

lemma keeps_cancelOldest: "tx_rel admission_keeps (cancelOldestActiveRunTx jobID now)"
  unfolding tx_rel_def cancelOldestActiveRunTx_def
  by (auto simp: keeps.R_refl split: list.splits dest: tx_relD [OF keeps_cancelRunTx])

lemma keeps_completeTx: "tx_rel admission_keeps (completeTx runID result now)"
  unfolding completeTx_def the_job_run_def Let_def
  by (auto intro!: keeps.rel_bind keeps.rel_basic keeps_end_runs split: if_splits)

lemma keeps_Complete: "tx_rel admission_keeps (Complete runID result now)"
  unfolding tx_rel_def Complete_def
  by (auto simp: keeps.R_refl split: sum.splits if_splits dest: tx_relD [OF keeps_completeTx])

lemma keeps_enqueue: "tx_rel admission_keeps (enqueueRunTx q j ps pr d now)"
  unfolding enqueueRunTx_def by (rule keeps_modify) (simp_all add: Let_def)


text \<open>Adding a run respects the limit when it is not counted or a slot is free.\<close>

definition add_run :: "job_run \<Rightarrow> store_db \<Rightarrow> store_db" where
  "add_run model db = db\<lparr>db_job_runs := db_job_runs db @ [model]\<rparr>"

lemma CountActive_add_run:
  "CountActive (add_run model db) jobID = CountActive db jobID + (if is_active jobID model then 1 else 0)"
  by (simp add: CountActive_def add_run_def)

lemma add_run_simps [simp]:
  "db_jobs (add_run model db) = db_jobs db" "db_job_runs (add_run model db) = db_job_runs db @ [model]"
  "limit_of (add_run model db) = limit_of db"
  by (simp_all add: add_run_def limit_of_def fun_eq_iff)

lemma add_run_inv:
  assumes "admission_inv k db" "JRID model \<notin> JRID ` set (db_job_runs db)"
    and "\<And>n. limit_of db (JRJobID model) = Some n \<Longrightarrow> JRBackfillID model = None
           \<Longrightarrow> int (CountActive db (JRJobID model)) < n"
  shows "admission_inv k (add_run model db)"
  unfolding admission_inv_def
proof (intro conjI allI impI)
  show "distinct (map JRID (db_job_runs (add_run model db)))"
    using assms(1,2) by (auto simp: admission_inv_def)
next
  fix jobID n assume "limit_of (add_run model db) jobID = Some n"
  then have lim: "limit_of db jobID = Some n" by simp
  then have "int (CountActive db jobID) \<le> n + int (k jobID)" using assms(1) by (simp add: admission_inv_def)
  with lim assms(3) [of n] show "int (CountActive (add_run model db) jobID) \<le> n + int (k jobID)"
    by (auto simp: CountActive_add_run is_active_def)
qed

lemma concurrencyConfigTx_limit:
  assumes "concurrencyConfigTx jobID db = Inr ((cfg, ok), db')"
  shows "db' = db" "limit_of db jobID = (if ok then Some (CCMaxRuns cfg) else None)" "ok \<Longrightarrow> 0 < CCMaxRuns cfg"
  using assms
  by (auto simp: concurrencyConfigTx_def limit_of_def tx_simps Let_def
      split: option.splits concurrency_column.splits if_splits)

lemma insertRunIfSlotTx_cases:
  assumes "insertRunIfSlotTx model n db = Inr (b, db')" "0 < n"
  shows "if b then db' = add_run model db \<and> int (CountActive db (JRJobID model)) < n else db' = db"
  using assms by (auto simp: insertRunIfSlotTx_def add_run_def split: if_splits)

lemma insertRunIfSlotTx_inv:
  assumes "insertRunIfSlotTx model n db = Inr (b, db')" "limit_of db (JRJobID model) = Some n" "0 < n"
    "admission_inv k db" "JRID model \<notin> JRID ` set (db_job_runs db)"
  shows "admission_inv k db'"
proof (cases b)
  case True
  then have "db' = add_run model db" "int (CountActive db (JRJobID model)) < n"
    using insertRunIfSlotTx_cases [OF assms(1,3)] by auto
  moreover have "admission_inv k (add_run model db)"
    by (rule add_run_inv) (use assms calculation in auto)
  ultimately show ?thesis by simp
next
  case False
  then show ?thesis using insertRunIfSlotTx_cases [OF assms(1,3)] assms(4) by simp
qed

lemma tx_bind_InrE:
  assumes "tx_bind m f db = Inr (y, db'')"
  obtains x db' where "m db = Inr (x, db')" "f x db' = Inr (y, db'')"
  using assms by (auto simp: tx_bind_def split: sum.splits)

text \<open>What the oldest-run cancellation leaves of the run table.\<close>

lemma cancelRunTx_ids:
  "cancelRunTx runID reason now db = Inr (x, db') \<Longrightarrow> map JRID (db_job_runs db') = map JRID (db_job_runs db)"
  by (auto simp: cancelRunTx_def the_job_run_def tx_simps Let_def map_update_where
      split: if_splits option.splits)

lemma cancelOldest_ids:
  "cancelOldestActiveRunTx jobID now db = Inr (x, db') \<Longrightarrow> map JRID (db_job_runs db') = map JRID (db_job_runs db)"
  by (auto simp: cancelOldestActiveRunTx_def split: list.splits dest: cancelRunTx_ids)

lemma admit_inv:
  assumes admit: "admit model req queueID maxDepth now db = Inr (res, db')"
    and inv: "admission_inv k db" and fresh: "JRID model \<notin> JRID ` set (db_job_runs db)"
  shows "admission_inv k db' \<and> (ARDecision res = admissionNoPolicy \<longrightarrow>
           db' = db \<and> (limit_of db (JRJobID model) = None \<or> JRBackfillID model \<noteq> None))"
proof -
  obtain p db0 where p: "concurrencyConfigTx (JRJobID model) db = Inr (p, db0)"
    using admit unfolding admit_def by (blast elim: tx_bind_InrE)
  obtain cfg ok where "p = (cfg, ok)" by (cases p)
  with p have cfg: "concurrencyConfigTx (JRJobID model) db = Inr ((cfg, ok), db)"
    using concurrencyConfigTx_limit(1) [of "JRJobID model" db cfg ok db0] by simp
  note limit = concurrencyConfigTx_limit [OF cfg]
  show ?thesis
  proof (cases "\<not> ok \<or> JRBackfillID model \<noteq> None")
    case True
    then show ?thesis using admit inv limit
      by (auto simp: admit_def tx_bind_def tx_ok_def cfg Let_def if_distribR split: if_splits)
  next
    case False
    then have lim: "limit_of db (JRJobID model) = Some (CCMaxRuns cfg)" and pos: "0 < CCMaxRuns cfg"
      using limit by auto
    obtain b db1 where ins: "insertRunIfSlotTx model (CCMaxRuns cfg) db = Inr (b, db1)"
      unfolding insertRunIfSlotTx_def by (metis (full_types))
    have inv1: "admission_inv k db1" by (rule insertRunIfSlotTx_inv [OF ins lim pos inv fresh])
    show ?thesis
    proof (cases b)
      case True
      then show ?thesis using admit inv1 False by (auto simp: admit_def tx_bind_def tx_ok_def cfg ins Let_def if_distribR split: if_splits)
    next
      case nob: False
      then have "db1 = db" using insertRunIfSlotTx_cases [OF ins pos] by simp
      have again: "admission_inv k d'"
        if "cancelOldestActiveRunTx (JRJobID model) now db = Inr (c, d)"
          "insertRunIfSlotTx model (CCMaxRuns cfg) d = Inr (b', d')" for c d b' d'
      proof -
        have k: "admission_keeps db d" using that(1) by (rule tx_relD [OF keeps_cancelOldest])
        then have "limit_of d (JRJobID model) = Some (CCMaxRuns cfg)" "admission_inv k d"
          using lim inv limit_of_cong [of d db] by (auto simp: admission_keeps_def)
        moreover have "JRID ` set (db_job_runs d) = JRID ` set (db_job_runs db)"
          using cancelOldest_ids [OF that(1)] by (metis list.set_map)
        ultimately show ?thesis using insertRunIfSlotTx_inv [OF that(2) _ pos] fresh by simp
      qed
      show ?thesis using admit False nob \<open>db1 = db\<close> inv again tx_relD [OF keeps_enqueue]
        by (auto simp: admit_def tx_bind_def tx_ok_def tx_fail_def cfg ins Let_def if_distribR admission_keeps_def
            split: if_splits sum.splits)
    qed
  qed
qed


lemma startRunTx_inv:
  assumes start: "startRunTx req newID queueID maxDepth now db = Inr (res, db')"
    and inv: "admission_inv k db" and fresh: "newID \<notin> JRID ` set (db_job_runs db)"
  shows "admission_inv k db'"
proof -
  obtain priority db0 where prio: "startPriorityTx (SRJobID req) (SRPriorityOverride req) db = Inr (priority, db0)"
    using start unfolding startRunTx_def by (blast elim: tx_bind_InrE)
  then have "db0 = db"
    by (auto simp: startPriorityTx_def priority_tx_def tx_simps split: if_splits sum.splits option.splits priority_error.splits)
  define model where "model = (newStartRunModel req newID now)\<lparr>JRPriority := priority\<rparr>"
  have "JRID model = newID" by (simp add: model_def newStartRunModel_def)
  obtain r db1 where adm: "admit model req queueID maxDepth now db = Inr (r, db1)"
    and rest: "finish_start req model r db1 = Inr (res, db')"
    using start prio unfolding startRunTx_def \<open>db0 = db\<close>
    by (auto simp: Let_def model_def tx_bind_def split: sum.splits)
  note inv1 = admit_inv [OF adm inv, unfolded \<open>JRID model = newID\<close>, OF fresh]
  show ?thesis
  proof (cases "ARDecision r = admissionNoPolicy \<and> \<not> SRPolicyOnly req")
    case True
    then have "admission_inv k (add_run model db1)"
      using inv1 fresh by (intro add_run_inv) (auto simp: \<open>JRID model = newID\<close>)
    with True rest show ?thesis
      using tx_relD [OF keeps.rel_basic(5), of "run_event TypeRunStarted model" "add_run model db1"]
      by (auto simp: finish_start_def tx_simps add_run_def admission_keeps_def)
  next
    case False
    with rest inv1 tx_relD [OF keeps.rel_basic(5), of "run_event TypeRunStarted model" db1]
    show ?thesis by (auto simp: finish_start_def tx_simps admission_keeps_def split: admission_decision.splits if_splits)
  qed
qed

lemma startRun_inv:
  assumes "admission_inv k db" "newID \<notin> JRID ` set (db_job_runs db)"
  shows "admission_inv k (fst (startRun leaseCfg req newID queueID maxDepth now db))"
proof -
  have lease: "admission_inv k (db1\<lparr>db_run_leases := ls\<rparr>) = admission_inv k db1" for db1 :: store_db and ls
    by (simp add: admission_inv_def CountActive_def limit_of_def)
  show ?thesis
    using assms startRunTx_inv [of req newID queueID maxDepth now db]
    by (auto simp: startRun_def Let_def lease split: sum.splits admission_decision.splits option.splits)
qed

text \<open>An admitted retry takes a slot like a new run.\<close>

lemma readmit_count:
  assumes "distinct (map JRID js)" "j \<in> set js"
  shows "length (filter (is_active jobID) (update_where (\<lambda>x. JRID x = JRID j) readmitted js))
       = length (filter (\<lambda>x. is_active jobID x \<and> JRID x \<noteq> JRID j) js)
         + (if is_active jobID (readmitted j) then 1 else 0)"
  using assms
proof (induction js)
  case (Cons x js)
  show ?case
  proof (cases "x = j")
    case True
    then have "\<forall>y \<in> set js. JRID y \<noteq> JRID j" using Cons.prems by (auto simp: image_iff)
    moreover from this have "filter (\<lambda>x. is_active jobID x \<and> JRID x \<noteq> JRID j) js = filter (is_active jobID) js"
      by (intro filter_cong) auto
    ultimately show ?thesis using True by (simp add: update_where_none)
  next
    case False
    then have "j \<in> set js" "JRID x \<noteq> JRID j" using Cons.prems by force+
    then show ?thesis using Cons.IH Cons.prems by simp
  qed
qed simp

lemma readmit_update_inv:
  assumes inv: "admission_inv k db" and j: "j \<in> set (db_job_runs db)"
    and slot: "\<And>n. limit_of db (JRJobID j) = Some n \<Longrightarrow> \<not> JRQuarantine j \<Longrightarrow>
      int (length (filter (\<lambda>x. is_active (JRJobID j) x \<and> JRID x \<noteq> JRID j) (db_job_runs db))) < n"
  shows "admission_inv k (db\<lparr>db_job_runs := update_where (\<lambda>x. JRID x = JRID j) readmitted (db_job_runs db)\<rparr>)"
  unfolding admission_inv_def
proof (intro conjI allI impI)
  have ids: "distinct (map JRID (db_job_runs db))" using inv by (simp add: admission_inv_def)
  then show "distinct (map JRID (db_job_runs
      (db\<lparr>db_job_runs := update_where (\<lambda>x. JRID x = JRID j) readmitted (db_job_runs db)\<rparr>)))"
    by (simp add: map_update_where readmitted_def)
  fix jobID n
  assume "limit_of (db\<lparr>db_job_runs := update_where (\<lambda>x. JRID x = JRID j) readmitted (db_job_runs db)\<rparr>) jobID = Some n"
  then have lim: "limit_of db jobID = Some n" by (simp add: limit_of_def)
  then have old: "int (CountActive db jobID) \<le> n + int (k jobID)" using inv by (simp add: admission_inv_def)
  have "length (filter (\<lambda>x. is_active jobID x \<and> JRID x \<noteq> JRID j) (db_job_runs db)) \<le> CountActive db jobID"
    unfolding CountActive_def by (rule length_filter_mono) simp
  then show "int (CountActive (db\<lparr>db_job_runs := update_where (\<lambda>x. JRID x = JRID j) readmitted (db_job_runs db)\<rparr>) jobID) \<le> n + int (k jobID)"
    using readmit_count [OF ids j, of jobID] slot [of n] lim old
    by (auto simp: CountActive_def is_active_def readmitted_def)
qed


lemma update_where_cong: "(\<And>r. r \<in> set rs \<Longrightarrow> P r = Q r) \<Longrightarrow> update_where P f rs = update_where Q f rs"
  by (simp add: update_where_def)

lemma readmitRetryTx_inv:
  assumes re: "readmitRetryTx j True db = Inr (u, db')" and inv: "admission_inv k db"
    and j: "j \<in> set (db_job_runs db)" "JRStatus j = StatusFailed \<or> JRStatus j = StatusSucceeded"
  shows "admission_inv k db'"
proof -
  let ?upd = "db\<lparr>db_job_runs := update_where (\<lambda>x. JRID x = JRID j) readmitted (db_job_runs db)\<rparr>"
  let ?act = "length (filter (\<lambda>x. is_active (JRJobID j) x \<and> JRID x \<noteq> JRID j) (db_job_runs db))"
  have same: "x = j" if "x \<in> set (db_job_runs db)" "JRID x = JRID j" for x
    using inv j(1) that by (auto simp: admission_inv_def distinct_map inj_on_def)
  show ?thesis
  proof (cases "JRQuarantine j")
    case True
    then have "db' = ?upd" using re by (auto simp: readmitRetryTx_def tx_simps)
    then show ?thesis using readmit_update_inv [OF inv j(1)] True by simp
  next
    case False
    obtain p db0 where "concurrencyConfigTx (JRJobID j) db = Inr (p, db0)"
      using re False unfolding readmitRetryTx_def Let_def by (auto elim: tx_bind_InrE)
    then obtain cfg ok where cfg: "concurrencyConfigTx (JRJobID j) db = Inr ((cfg, ok), db)"
      using concurrencyConfigTx_limit(1) by (metis surj_pair)
    note limit = concurrencyConfigTx_limit [OF cfg]
    show ?thesis
    proof (cases "ok \<longrightarrow> int ?act < CCMaxRuns cfg")
      case True
      have "update_where (\<lambda>x. JRID x = JRID j \<and> (JRStatus x = StatusFailed \<or> JRStatus x = StatusSucceeded)
              \<and> int ?act < CCMaxRuns cfg) readmitted (db_job_runs db)
          = update_where (\<lambda>x. JRID x = JRID j) readmitted (db_job_runs db)" if ok
        using that True same j(2) by (intro update_where_cong) auto
      then have "db' = ?upd"
        using re False by (cases ok) (auto simp: readmitRetryTx_def tx_simps cfg split: if_splits)
      then show ?thesis using readmit_update_inv [OF inv j(1)] True limit by (auto split: if_splits)
    next
      case no: False
      then show ?thesis using re False
        by (auto simp: readmitRetryTx_def tx_simps cfg rows_affected_def split: if_splits)
    qed
  qed
qed

lemma retryFromFailure_inv:
  assumes retry: "retryFromFailure runID True db = Inr (u, db')" and inv: "admission_inv k db"
  shows "admission_inv k db'"
proof -
  obtain j db0 where "the_job_run runID db = Inr (j, db0)"
    using retry unfolding retryFromFailure_def by (blast elim: tx_bind_InrE)
  then have j: "the_job_run runID db = Inr (j, db)" "j \<in> set (db_job_runs db)"
    using find_Some_in [of _ "db_job_runs db" j] by (auto simp: the_job_run_def tx_first_def split: option.splits)
  have st: "JRStatus j = StatusFailed \<or> JRStatus j = StatusSucceeded"
    using retry j(1) by (auto simp: retryFromFailure_def tx_bind_def tx_fail_def split: if_splits)
  obtain db1 v where re: "readmitRetryTx j True db = Inr (v, db1)" and "admission_keeps db1 db'"
  proof -
    have guard: "pause_guard True (JRJobID j) db = Inr (w, d) \<Longrightarrow> d = db" for w d
      by (auto simp: pause_guard_def tx_simps split: option.splits if_splits)
    have rest: "tx_rel admission_keeps (tx_bind (reset_failed_tasks runID) (\<lambda>_.
       append_event (run_event TypeRunRetried j)))"
      by (intro keeps.rel_bind keeps.rel_basic keeps.rel_reset)
    show ?thesis
      using retry st j(1) guard that tx_relD [OF rest] unfolding retryFromFailure_def
      by (auto simp: tx_bind_def [of "the_job_run runID"] tx_bind_def [of "pause_guard True (JRJobID j)"]
          tx_bind_def [of "readmitRetryTx j True"] split: sum.splits)
  qed
  with readmitRetryTx_inv [OF re inv j(2) st] show ?thesis by (simp add: admission_keeps_def)
qed

text \<open>A manual retry takes no slot: it may put its job over the limit, by one run.\<close>

lemma manual_readmit_inv:
  assumes inv: "admission_inv k db" and j: "j \<in> set (db_job_runs db)"
  shows "admission_inv (k(JRJobID j := k (JRJobID j) + 1))
    (db\<lparr>db_job_runs := update_where (\<lambda>x. JRID x = JRID j) readmitted (db_job_runs db)\<rparr>)"
  unfolding admission_inv_def
proof (intro conjI allI impI)
  have ids: "distinct (map JRID (db_job_runs db))" using inv by (simp add: admission_inv_def)
  then show "distinct (map JRID (db_job_runs
      (db\<lparr>db_job_runs := update_where (\<lambda>x. JRID x = JRID j) readmitted (db_job_runs db)\<rparr>)))"
    by (simp add: map_update_where readmitted_def)
  fix jobID n
  assume "limit_of (db\<lparr>db_job_runs := update_where (\<lambda>x. JRID x = JRID j) readmitted (db_job_runs db)\<rparr>) jobID = Some n"
  then have "limit_of db jobID = Some n" by (simp add: limit_of_def)
  then have old: "int (CountActive db jobID) \<le> n + int (k jobID)" using inv by (simp add: admission_inv_def)
  have "length (filter (\<lambda>x. is_active jobID x \<and> JRID x \<noteq> JRID j) (db_job_runs db)) \<le> CountActive db jobID"
    unfolding CountActive_def by (rule length_filter_mono) simp
  then show "int (CountActive (db\<lparr>db_job_runs := update_where (\<lambda>x. JRID x = JRID j) readmitted (db_job_runs db)\<rparr>) jobID)
      \<le> n + int ((k(JRJobID j := k (JRJobID j) + 1)) jobID)"
    using readmit_count [OF ids j, of jobID] old
    by (auto simp: CountActive_def is_active_def readmitted_def)
qed

lemma RetryFromFailure_inv:
  assumes retry: "RetryFromFailure runID db = Inr (u, db')" and inv: "admission_inv k db"
    and j: "find (\<lambda>j. JRID j = runID) (db_job_runs db) = Some j"
  shows "admission_inv (k(JRJobID j := k (JRJobID j) + 1)) db'"
proof -
  let ?db1 = "db\<lparr>db_job_runs := update_where (\<lambda>x. JRID x = JRID j) readmitted (db_job_runs db)\<rparr>"
  have rest: "tx_rel admission_keeps (tx_bind (reset_failed_tasks runID) (\<lambda>_.
     append_event (run_event TypeRunRetried j)))"
    by (intro keeps.rel_bind keeps.rel_basic keeps.rel_reset)
  have "tx_bind (reset_failed_tasks runID) (\<lambda>_. append_event (run_event TypeRunRetried j)) ?db1 = Inr (u, db')"
    using retry j
    by (auto simp: RetryFromFailure_def retryFromFailure_def the_job_run_def tx_bind_def tx_first_def tx_fail_def
        pause_guard_def readmitRetryTx_def tx_ok_def update_job_runs_def Let_def split: if_splits)
  then have "admission_keeps ?db1 db'" by (rule tx_relD [OF rest])
  moreover have "admission_inv (k(JRJobID j := k (JRJobID j) + 1)) ?db1"
    by (rule manual_readmit_inv [OF inv]) (use find_Some_in [OF j] in simp)
  ultimately show ?thesis by (simp add: admission_keeps_def)
qed

text \<open>
  The operations on runs, as steps; every start draws a fresh run id. Beside the database a step
  carries, per job, the number of manual retries so far.
\<close>

inductive run_op :: "store_db \<times> (uuid \<Rightarrow> nat) \<Rightarrow> store_db \<times> (uuid \<Rightarrow> nat) \<Rightarrow> bool" where
  start: "newID \<notin> JRID ` set (db_job_runs db) \<Longrightarrow>
    run_op (db, k) (fst (startRun leaseCfg req newID queueID maxDepth now db), k)"
| finish: "Complete runID result now db = Inr (u, db') \<Longrightarrow> run_op (db, k) (db', k)"
| cancel: "CancelRun runID now db = Inr (u, db') \<Longrightarrow> run_op (db, k) (db', k)"
| retry: "RetryFromFailureAdmitted runID db = Inr (u, db') \<Longrightarrow> run_op (db, k) (db', k)"
| manual_retry: "find (\<lambda>j. JRID j = runID) (db_job_runs db) = Some j \<Longrightarrow>
    RetryFromFailure runID db = Inr (u, db') \<Longrightarrow> run_op (db, k) (db', k(JRJobID j := k (JRJobID j) + 1))"
| dequeue: "DequeueNextRun jobID claim fresh now db = Inr (q, db') \<Longrightarrow> run_op (db, k) (db', k)"
| release: "ReleaseQueuedRun queueID claim db = Inr (u, db') \<Longrightarrow> run_op (db, k) (db', k)"
| withdraw: "CancelQueuedRun jobID queueID db = Inr (u, db') \<Longrightarrow> run_op (db, k) (db', k)"
| remove: "DeleteQueuedRun queueID db = Inr (u, db') \<Longrightarrow> run_op (db, k) (db', k)"

lemma keeps_CancelRun: "tx_rel admission_keeps (CancelRun runID now)"
  unfolding CancelRun_def by (intro keeps.rel_bind keeps.rel_basic keeps_cancelRunTx)

lemma keeps_queue_ops:
  "tx_rel admission_keeps (DequeueNextRun jobID claim fresh now)"
  "tx_rel admission_keeps (ReleaseQueuedRun queueID claim)"
  "tx_rel admission_keeps (CancelQueuedRun jobID queueID)"
  "tx_rel admission_keeps (DeleteQueuedRun queueID)"
  unfolding tx_rel_def DequeueNextRun_def ReleaseQueuedRun_def CancelQueuedRun_def DeleteQueuedRun_def
  by (auto simp: Let_def tx_simps CountActive_def intro!: admission_keepsI
      split: list.splits option.splits if_splits)

lemma keeps_invD: "admission_inv k db \<Longrightarrow> m db = Inr (x, db') \<Longrightarrow> tx_rel admission_keeps m \<Longrightarrow> admission_inv k db'"
  by (auto simp: tx_rel_def admission_keeps_def)

lemma run_op_inv: "run_op s s' \<Longrightarrow> admission_inv (snd s) (fst s) \<Longrightarrow> admission_inv (snd s') (fst s')"
proof (induction rule: run_op.induct)
  case (start newID db k) then show ?case using startRun_inv by simp
next
  case (retry runID db u db' k) then show ?case using retryFromFailure_inv by (simp add: RetryFromFailureAdmitted_def)
next
  case (manual_retry runID db j u db' k) then show ?case using RetryFromFailure_inv [of runID db u db' k j] by (simp only: fst_conv snd_conv)
qed (simp, blast intro: keeps_invD keeps_Complete keeps_CancelRun keeps_queue_ops)+

interpretation runs: step_machine "\<lambda>s. db_job_runs (fst s) = []" run_op "\<lambda>s. admission_inv (snd s) (fst s)"
proof unfold_locales
  show "admission_inv (snd s) (fst s)" if "db_job_runs (fst s) = []" for s :: "store_db \<times> (uuid \<Rightarrow> nat)"
    using that by (auto simp: admission_inv_def CountActive_def limit_of_def split: option.splits concurrency_column.splits if_splits)
  show "admission_inv (snd s') (fst s')" if "admission_inv (snd s) (fst s)" "run_op s s'" for s s'
    using run_op_inv [OF that(2,1)] .
qed


section \<open>Properties\<close>

text \<open>
  C14. The concurrency limit of a job is exceeded by manual retries only: after any sequence of
  starts (manual, triggered, queued, backfill, policy-only), completions, cancellations, retries
  and queue operations from an empty run table, whatever the strategy, the number of active runs
  of a job with a positive limit is at most that limit plus the number of manual retries of its
  runs, the one operation that asks for no slot. The limit is the one of the job's policy, which
  these operations do not change.
\<close>

theorem admission_limit:
  assumes "db_job_runs db0 = []" "reachable_from run_op (db0, \<lambda>_. 0) (db, manual)" "limit_of db jobID = Some n"
  shows "int (CountActive db jobID) \<le> n + int (manual jobID)"
  using runs.inv_reachable [OF _ assms(2)] assms(1,3) by (simp add: admission_inv_def)

definition one_job_db :: "string \<Rightarrow> job_run list \<Rightarrow> store_db" where
  "one_job_db strategy js = (sample_db js [])\<lparr>db_jobs := [\<lparr>JMID = 5, JMAlias = ''etl'', JMPriority = ''high'',
     JMPaused = False, JMConcurrency = Concurrency 1 strategy, JMRateLimits = NoRateLimits\<rparr>]\<rparr>"

definition manual_start :: start_run_request where
  "manual_start = \<lparr>SRJobID = 5, SRTriggerID = None, SRBackfillID = None, SRParams = [],
     SRPriorityOverride = '''', SRFromQueue = False, SRPolicyOnly = False\<rparr>"

theorem admission_limit_witness:
  "let db1 = fst (startRun None manual_start 10 90 0 1 (one_job_db ''queue'' []));
       db2 = fst (startRun None manual_start 11 91 0 2 db1)
   in int (CountActive db2 5) \<le> 1 \<and> map RQID (db_run_queue db2) = [91]"
proof -
  let ?db1 = "fst (startRun None manual_start 10 90 0 1 (one_job_db ''queue'' []))"
  let ?db2 = "fst (startRun None manual_start 11 91 0 2 ?db1)"
  have "(10 :: uuid) \<notin> JRID ` set (db_job_runs (one_job_db ''queue'' []))" by (simp add: one_job_db_def sample_defs)
  then have "run_op (one_job_db ''queue'' [], \<lambda>_. 0) (?db1, \<lambda>_. 0)" by (rule run_op.start)
  then have r1: "reachable_from run_op (one_job_db ''queue'' [], \<lambda>_. 0) (?db1, \<lambda>_. 0)"
    by (rule reachable_step [OF reachable_init])
  have "(11 :: uuid) \<notin> JRID ` set (db_job_runs ?db1)" by code_simp
  then have "run_op (?db1, \<lambda>_. 0) (?db2, \<lambda>_. 0)" by (rule run_op.start)
  then have r: "reachable_from run_op (one_job_db ''queue'' [], \<lambda>_. 0) (?db2, \<lambda>_. 0)" by (rule reachable_step [OF r1])
  have "limit_of ?db2 5 = Some 1" "map RQID (db_run_queue ?db2) = [91]" by code_simp+
  with admission_limit [OF _ r, of 5 1] show ?thesis by (simp add: one_job_db_def sample_defs)
qed

lemma cancel_count:
  assumes "distinct (map JRID js)" "j \<in> set js" "is_active jobID j" "\<And>x. \<not> is_active jobID (f x)"
  shows "length (filter (is_active jobID) (update_where (\<lambda>x. JRID x = JRID j \<and> JRStatus x = StatusRunning) f js)) + 1
       = length (filter (is_active jobID) js)"
  using assms
proof (induction js)
  case (Cons x xs)
  show ?case
  proof (cases "x = j")
    case True
    have "update_where (\<lambda>x. JRID x = JRID j \<and> JRStatus x = StatusRunning) f xs = xs"
      using Cons.prems(1) True by (intro update_where_none) (auto simp: image_iff)
    with True Cons.prems(3,4) show ?thesis by (simp add: is_active_def)
  next
    case False
    then have "j \<in> set xs" "JRID x \<noteq> JRID j" using Cons.prems(1,2) by (auto simp: image_iff)
    moreover have "length (filter (is_active jobID) (update_where (\<lambda>x. JRID x = JRID j \<and> JRStatus x = StatusRunning) f xs)) + 1
        = length (filter (is_active jobID) xs)"
      using Cons.prems(1) \<open>j \<in> set xs\<close> by (intro Cons.IH Cons.prems(3,4)) simp_all
    ultimately show ?thesis by simp
  qed
qed simp

text \<open>The run that a replacement cancels, and the run table it leaves.\<close>

definition oldest_active :: "uuid \<Rightarrow> store_db \<Rightarrow> job_run \<Rightarrow> bool" where
  "oldest_active jobID db j \<longleftrightarrow> j \<in> set (db_job_runs db) \<and> is_active jobID j
     \<and> (\<forall>x \<in> set (db_job_runs db). is_active jobID x \<longrightarrow> JRStartedAt j \<le> JRStartedAt x)"

definition replaced_run :: "timestamp \<Rightarrow> job_run \<Rightarrow> job_run" where
  "replaced_run now j = j\<lparr>JRStatus := StatusCancelled, JRCompletedAt := Some now,
     JRError := ''cancelled by concurrency replacement''\<rparr>"

lemma sorted_key_hd: "sort_key k xs = y # ys \<Longrightarrow> x \<in> set xs \<Longrightarrow> k y \<le> k x"
  using sorted_sort_key [of k xs] set_sort [of k xs] by (auto simp: sorted_wrt_map)

lemma cancelOldest_run:
  assumes ids: "distinct (map JRID (db_job_runs db))" and act: "0 < CountActive db jobID"
  obtains j c db' where "oldest_active jobID db j" "cancelOldestActiveRunTx jobID now db = Inr (c, db')"
    "db_job_runs db' = map (\<lambda>x. if x = j then replaced_run now j else x) (db_job_runs db)"
    "CountActive db' jobID + 1 = CountActive db jobID"
proof -
  have "filter (is_active jobID) (db_job_runs db) \<noteq> []" using act by (auto simp: CountActive_def)
  then have "set (sort_key JRStartedAt (filter (is_active jobID) (db_job_runs db))) \<noteq> {}"
    by (simp only: set_sort set_empty not_False_eq_True)
  then obtain j js where s: "sort_key JRStartedAt (filter (is_active jobID) (db_job_runs db)) = j # js"
    by (cases "sort_key JRStartedAt (filter (is_active jobID) (db_job_runs db))") simp_all
  have "j \<in> set (sort_key JRStartedAt (filter (is_active jobID) (db_job_runs db)))" unfolding s by simp
  then have j: "j \<in> set (db_job_runs db)" "is_active jobID j" by auto
  then have old: "oldest_active jobID db j" using sorted_key_hd [OF s] by (auto simp: oldest_active_def)
  let ?P = "\<lambda>x. JRID x = JRID j \<and> JRStatus x = StatusRunning"
  have only: "?P x \<longleftrightarrow> x = j" if "x \<in> set (db_job_runs db)" for x
    using that j ids by (auto simp: distinct_map is_active_def dest: inj_onD)
  have upd: "update_where ?P (replaced_run now) (db_job_runs db)
      = map (\<lambda>x. if x = j then replaced_run now j else x) (db_job_runs db)"
    unfolding update_where_def by (intro map_cong refl if_cong only) (auto simp: only)
  have ne: "rows_affected ?P (db_job_runs db) \<noteq> 0" using j by (auto simp: rows_affected_zero is_active_def)
  obtain x where "find (\<lambda>x. JRID x = JRID j) (update_where ?P (replaced_run now) (db_job_runs db)) = Some x"
    using find_update_where [of ?P "\<lambda>x. JRID x = JRID j" "replaced_run now" "db_job_runs db"] find_unique [OF ids j(1)]
    by (simp add: replaced_run_def)
  with ne obtain c db' where "cancelRunTx (JRID j) ''cancelled by concurrency replacement'' now db = Inr (c, db')"
    "db_job_runs db' = update_where ?P (replaced_run now) (db_job_runs db)"
    by (simp add: cancelRunTx_def the_job_run_def tx_simps Let_def TrimSpace_def is_go_space_def replaced_run_def [abs_def])
  moreover have "length (filter (is_active jobID) (update_where ?P (replaced_run now) (db_job_runs db))) + 1 = CountActive db jobID"
    unfolding CountActive_def by (rule cancel_count [OF ids j]) (simp add: is_active_def replaced_run_def)
  ultimately show thesis using that [OF old] s upd by (simp add: cancelOldestActiveRunTx_def CountActive_def)
qed

text \<open>
  C31. Replacement above the limit cancels without starting. When a job has more active runs than
  its limit allows (the limit was lowered while they ran), a start under the \<open>replace\<close> strategy
  is refused as over the limit, yet the same, committed transaction cancels a run: an active run of
  the job that no other active run is older than becomes cancelled, and every other run is left as
  it was.
\<close>

theorem replace_over_limit:
  assumes "distinct (map JRID (db_job_runs db))"
    and "concurrencyConfigTx (JRJobID model) db = Inr ((cfg, True), db)" "CCStrategy cfg = ConcurrencyStrategyReplace"
    and "JRBackfillID model = None" "CCMaxRuns cfg < int (CountActive db (JRJobID model))"
  shows "\<exists>res db' j. admit model req queueID maxDepth now db = Inr (res, db') \<and> ARDecision res = admissionFailed
    \<and> oldest_active (JRJobID model) db j
    \<and> db_job_runs db' = map (\<lambda>x. if x = j then replaced_run now j else x) (db_job_runs db)"
proof -
  have pos: "0 < CCMaxRuns cfg" using concurrencyConfigTx_limit(3) [OF assms(2)] by simp
  then have "0 < CountActive db (JRJobID model)" using assms(5) by simp
  from cancelOldest_run [OF assms(1) this] obtain j c db'
    where c: "oldest_active (JRJobID model) db j" "cancelOldestActiveRunTx (JRJobID model) now db = Inr (c, db')"
      "db_job_runs db' = map (\<lambda>x. if x = j then replaced_run now j else x) (db_job_runs db)"
      "CountActive db' (JRJobID model) + 1 = CountActive db (JRJobID model)"
    by blast
  have "insertRunIfSlotTx model (CCMaxRuns cfg) db = Inr (False, db)"
    "insertRunIfSlotTx model (CCMaxRuns cfg) db' = Inr (False, db')"
    using pos assms(5) c(4) by (simp_all add: insertRunIfSlotTx_def)
  with c(2) assms(2-4) have "\<exists>res. admit model req queueID maxDepth now db = Inr (res, db') \<and> ARDecision res = admissionFailed"
    by (simp add: admit_def tx_bind_def tx_ok_def Let_def strategy_defs)
  with c(1,3) show ?thesis by blast
qed

theorem replace_over_limit_witness:
  "let db = one_job_db ''replace'' [sample_run 10 5, sample_run 11 5]
   in \<exists>res db' j. admit (sample_run 12 5) manual_start 90 0 3 db = Inr (res, db') \<and> ARDecision res = admissionFailed
        \<and> oldest_active 5 db j \<and> db_job_runs db' = map (\<lambda>x. if x = j then replaced_run 3 j else x) (db_job_runs db)"
proof -
  let ?db = "one_job_db ''replace'' [sample_run 10 5, sample_run 11 5]"
  have 1: "distinct (map JRID (db_job_runs ?db))" "JRBackfillID (sample_run 12 5) = None" "JRJobID (sample_run 12 5) = 5"
    "CountActive ?db 5 = 2"
    by (simp_all add: one_job_db_def sample_defs CountActive_def is_active_def)
  have 2: "concurrencyConfigTx (JRJobID (sample_run 12 5)) ?db =
      Inr ((\<lparr>CCJobAlias = ''etl'', CCMaxRuns = 1, CCStrategy = ConcurrencyStrategyReplace\<rparr>, True), ?db)"
    by code_simp
  from replace_over_limit [OF 1(1) 2 _ 1(2), of manual_start 90 0 3] 1(3,4) show ?thesis by simp
qed

lemma find_ex: "x \<in> set xs \<Longrightarrow> P x \<Longrightarrow> \<exists>y. find P xs = Some y"
  by (induction xs) auto

text \<open>The head of the dispatch order: the highest priority, and among those the oldest.\<close>

lemma sort_key_hd_stable:
  assumes "sort_key k (sort_key l xs) = y # ys" "x \<in> set xs" "k x = k y"
  shows "l y \<le> l x"
proof -
  have "filter (\<lambda>z. k z = k y) (sort_key k (sort_key l xs)) = filter (\<lambda>z. k z = k y) (sort_key l xs)"
    by (rule sort_key_stable)
  also have "\<dots> = sort_key l (filter (\<lambda>z. k z = k y) xs)" by (rule filter_sort)
  finally have "sort_key l (filter (\<lambda>z. k z = k y) xs) = y # filter (\<lambda>z. k z = k y) ys" by (simp add: assms(1))
  then show ?thesis by (rule sorted_key_hd) (use assms in simp)
qed

lemma queue_order_hd:
  assumes "queue_order jobID q = y # ys"
  shows "y \<in> set q" "unclaimed jobID y"
    "\<And>r. r \<in> set q \<Longrightarrow> unclaimed jobID r \<Longrightarrow>
       RQPriority r < RQPriority y \<or> RQPriority r = RQPriority y \<and> RQCreatedAt y \<le> RQCreatedAt r"
proof -
  have "y \<in> set (queue_order jobID q)" by (simp add: assms)
  then show "y \<in> set q" "unclaimed jobID y" by (simp_all add: queue_order_def)
  fix r assume r: "r \<in> set q" "unclaimed jobID r"
  have "- RQPriority y \<le> - RQPriority r"
    by (rule sorted_key_hd [OF assms [unfolded queue_order_def]]) (use r in simp)
  moreover have "RQCreatedAt y \<le> RQCreatedAt r" if "RQPriority r = RQPriority y"
    by (rule sort_key_hd_stable [OF assms [unfolded queue_order_def]]) (use r that in simp_all)
  ultimately show "RQPriority r < RQPriority y \<or> RQPriority r = RQPriority y \<and> RQCreatedAt y \<le> RQCreatedAt r"
    by linarith
qed

text \<open>The claim of the head of the order.\<close>

lemma Dequeue_head:
  assumes "distinct (map RQID (db_run_queue db))" "TrimSpace c \<noteq> []"
    and "\<forall>r \<in> set (db_run_queue db). RQJobID r = jobID \<longrightarrow> RQClaimedBy r \<noteq> TrimSpace c"
    and order: "queue_order jobID (db_run_queue db) = q0 # rest"
  shows "DequeueNextRun jobID c fresh now db =
    (let q = q0\<lparr>RQClaimedBy := TrimSpace c, RQClaimedAt := Some now\<rparr>
     in Inr (Some q, db\<lparr>db_run_queue := map (\<lambda>r. if r = q0 then q else r) (db_run_queue db)\<rparr>))"
proof -
  note H = queue_order_hd [OF order]
  let ?h = "\<lambda>r. r\<lparr>RQClaimedBy := TrimSpace c, RQClaimedAt := Some now\<rparr>"
  let ?q = "update_where (\<lambda>r. RQID r = RQID q0 \<and> RQClaimedBy r = []) ?h (db_run_queue db)"
  have uniq: "RQID r = RQID q0 \<and> RQClaimedBy r = [] \<longleftrightarrow> r = q0" if "r \<in> set (db_run_queue db)" for r
    using that assms(1) H(1,2) by (auto simp: distinct_map unclaimed_def dest: inj_onD)
  then have upd: "?q = map (\<lambda>r. if r = q0 then ?h q0 else r) (db_run_queue db)"
    by (simp add: update_where_def)
  have all: "r = ?h q0" if r: "r \<in> set ?q" "RQJobID r = jobID" "RQClaimedBy r = TrimSpace c" for r
    using r assms(3) unfolding upd by (auto split: if_splits)
  have "?h q0 \<in> set ?q" "RQJobID (?h q0) = jobID" unfolding upd using H(1,2) by (auto simp: unclaimed_def)
  then obtain r where f: "find (\<lambda>r. RQJobID r = jobID \<and> RQClaimedBy r = TrimSpace c) ?q = Some r"
    using find_ex [of "?h q0" ?q "\<lambda>r. RQJobID r = jobID \<and> RQClaimedBy r = TrimSpace c"] by auto
  then have "r = ?h q0" using find_Some_in [OF f] by (intro all) simp_all
  with f assms(2) order show ?thesis by (simp add: DequeueNextRun_def Let_def upd)
qed

text \<open>
  C27. Dequeuing claims the right run: for a claim name that holds no other queued run of the job,
  \<open>DequeueNextRun\<close> claims exactly one unclaimed run, one of the highest priority and the
  oldest of those, and leaves every other queue row alone; it returns nothing only when
  no unclaimed run of the job is queued.
\<close>

theorem dequeue_picks_next:
  assumes "distinct (map RQID (db_run_queue db))" "TrimSpace c \<noteq> ''''"
    and "\<forall>r \<in> set (db_run_queue db). RQJobID r = jobID \<longrightarrow> RQClaimedBy r \<noteq> TrimSpace c"
    and "DequeueNextRun jobID c fresh now db = Inr (res, db')"
  shows "case res of
      None \<Rightarrow> db' = db \<and> (\<forall>r \<in> set (db_run_queue db). \<not> unclaimed jobID r)
    | Some q \<Rightarrow> \<exists>q0 \<in> set (db_run_queue db). unclaimed jobID q0
        \<and> q = q0\<lparr>RQClaimedBy := TrimSpace c, RQClaimedAt := Some now\<rparr>
        \<and> (\<forall>r \<in> set (db_run_queue db). unclaimed jobID r \<longrightarrow>
              RQPriority r < RQPriority q0 \<or> RQPriority r = RQPriority q0 \<and> RQCreatedAt q0 \<le> RQCreatedAt r)
        \<and> db_run_queue db' = map (\<lambda>r. if r = q0 then q else r) (db_run_queue db)"
proof (cases "queue_order jobID (db_run_queue db)")
  case Nil
  then have "set (queue_order jobID (db_run_queue db)) = {}" by simp
  then have "\<forall>r \<in> set (db_run_queue db). \<not> unclaimed jobID r" by (simp add: queue_order_def filter_empty_conv)
  with Nil assms(4) show ?thesis by (auto simp: DequeueNextRun_def)
next
  case (Cons q0 rest)
  from Dequeue_head [OF assms(1-3) Cons, of fresh now] assms(4) queue_order_hd [OF Cons] show ?thesis
    by (auto simp: Let_def intro!: bexI [of _ q0])
qed

definition queue_row :: "uuid \<Rightarrow> int \<Rightarrow> timestamp \<Rightarrow> run_queue_row" where
  "queue_row i p t = \<lparr>RQID = i, RQJobID = 5, RQParams = [], RQPriority = p, RQClaimedBy = '''', RQClaimedAt = None, RQCreatedAt = t\<rparr>"

definition queued_db :: store_db where
  "queued_db = (sample_db [] [])\<lparr>db_run_queue := [queue_row 1 2 10, queue_row 2 3 30, queue_row 3 3 20]\<rparr>"

theorem dequeue_picks_next_witness:
  "let q = fst (projr (DequeueNextRun 5 ''n1'' '''' 40 queued_db))
   in \<exists>q0 \<in> set (db_run_queue queued_db). q = Some (q0\<lparr>RQClaimedBy := ''n1'', RQClaimedAt := Some 40\<rparr>)
        \<and> {r \<in> set (db_run_queue queued_db). RQPriority r > RQPriority q0} = {} \<and> RQID q0 = 3"
proof -
  have t: "TrimSpace ''n1'' = ''n1''" by code_simp
  let ?db' = "snd (projr (DequeueNextRun 5 ''n1'' '''' 40 queued_db))"
  let ?q = "(queue_row 3 3 20)\<lparr>RQClaimedBy := ''n1'', RQClaimedAt := Some 40\<rparr>"
  have r: "DequeueNextRun 5 ''n1'' '''' 40 queued_db = Inr (Some ?q, ?db')" by code_simp
  have 1: "distinct (map RQID (db_run_queue queued_db))" "TrimSpace ''n1'' \<noteq> ''''"
    "\<forall>r \<in> set (db_run_queue queued_db). RQJobID r = 5 \<longrightarrow> RQClaimedBy r \<noteq> TrimSpace ''n1''"
    unfolding t by (simp_all add: queued_db_def queue_row_def)
  from dequeue_picks_next [OF 1 r] obtain q0 where "q0 \<in> set (db_run_queue queued_db)"
    "?q = q0\<lparr>RQClaimedBy := ''n1'', RQClaimedAt := Some 40\<rparr>"
    "\<forall>r \<in> set (db_run_queue queued_db). unclaimed 5 r \<longrightarrow>
       RQPriority r < RQPriority q0 \<or> RQPriority r = RQPriority q0 \<and> RQCreatedAt q0 \<le> RQCreatedAt r"
    by (auto simp: t)
  moreover have "fst (projr (DequeueNextRun 5 ''n1'' '''' 40 queued_db)) = Some ?q" by code_simp
  ultimately show ?thesis by (auto simp: Let_def queued_db_def queue_row_def unclaimed_def)
qed

end
