(* ===== verification/Owner_Manager.thy ===== *)
theory Owner_Manager
  imports Run_Recovery Run_Topology Run_Store
begin

text \<open>
  The owner manager (\<open>internal/run/owner_manager.go\<close>): the in-memory engine of each owned run
  together with the durable rows and checkpoints it writes. Work on one run is serialized by
  that run's lock, so its operations are functions on the node's state; a crash forgets the
  memory and keeps the database.
\<close>

section \<open>State\<close>

record owned_run =
  OState :: run_state
  OWriter :: checkpoint_writer
  OGen :: int

text \<open>A manager and the database it writes to.\<close>

record owner_node =
  on_cfg :: checkpoint_config
  on_runs :: "uuid \<Rightarrow> owned_run option"
  on_db :: store_db
  on_cps :: checkpoint_table

record dispatchable_task =
  DTTaskID :: uuid
  DTAttempt :: int

record complete_result =
  CRReady :: "uuid list"
  CRComplete :: bool
  CROwned :: bool

text \<open>
  What the database may do to an operation: refuse the durable transaction with an error, or
  fail the best-effort checkpoint write.
\<close>

record db_faults =
  write_fault :: "store_error option"
  checkpoint_fault :: bool

definition no_faults :: db_faults where
  "no_faults = \<lparr>write_fault = None, checkpoint_fault = False\<rparr>"

section \<open>Operations\<close>

definition om_get :: "owner_node \<Rightarrow> uuid \<Rightarrow> owned_run option" where
  "om_get n runID = on_runs n runID"

definition om_put :: "uuid \<Rightarrow> owned_run \<Rightarrow> owner_node \<Rightarrow> owner_node \<times> bool" where
  "om_put runID own n =
     (if on_runs n runID \<noteq> None then (n, False)
      else (n\<lparr>on_runs := (on_runs n)(runID := Some own)\<rparr>, True))"

definition Adopt :: "uuid \<Rightarrow> int \<Rightarrow> timestamp \<Rightarrow> owner_node \<Rightarrow> owner_node \<times> store_error option" where
  "Adopt runID generation now n =
     (if om_get n runID \<noteq> None then (n, None)
      else case LoadRunTopology (on_db n) runID of
        Inl e \<Rightarrow> (n, Some e)
      | Inr tp \<Rightarrow> (fst (om_put runID \<lparr>OState = NewRunState tp 0,
                     OWriter = NewCheckpointWriter runID (on_cfg n) now, OGen = generation\<rparr> n), None))"

text \<open>A checkpoint write whose failure the callers ignore.\<close>

definition try_force ::
    "bool \<Rightarrow> checkpoint_writer \<Rightarrow> checkpoint_table \<Rightarrow> run_state \<Rightarrow> int \<Rightarrow> timestamp
       \<Rightarrow> checkpoint_writer \<times> checkpoint_table" where
  "try_force fault w tab rs gen now = (if fault then (w, tab) else Force w tab rs gen now)"

definition try_maybe ::
    "bool \<Rightarrow> checkpoint_writer \<Rightarrow> checkpoint_table \<Rightarrow> run_state \<Rightarrow> int \<Rightarrow> timestamp
       \<Rightarrow> checkpoint_writer \<times> checkpoint_table" where
  "try_maybe fault w tab rs gen now = (if fault then (w, tab) else Maybe w tab rs gen now)"

definition Recover ::
    "uuid \<Rightarrow> int \<Rightarrow> bool \<Rightarrow> timestamp \<Rightarrow> owner_node \<Rightarrow> owner_node \<times> (store_error + recovery_result)" where
  "Recover runID generation cpFault now n =
     (case LoadRunTopology (on_db n) runID of
        Inl e \<Rightarrow> (n, Inl e)
      | Inr tp \<Rightarrow>
          let checkpoint = LatestFullCheckpoint (on_cps n) runID;
              afterSeq = (case checkpoint of None \<Rightarrow> 0 | Some cp \<Rightarrow> SequenceHigh cp);
              rows = TerminalTaskRunsSince (db_task_runs (on_db n)) runID afterSeq;
              (rs, res) = RecoverRunState tp checkpoint rows;
              db1 = best_effort (ResetInFlightTasks runID) (on_db n);
              (w, cps) = try_force cpFault (NewCheckpointWriter runID (on_cfg n) now) (on_cps n) rs generation now
          in (fst (om_put runID \<lparr>OState = rs, OWriter = w, OGen = generation\<rparr>
                     (n\<lparr>on_db := db1, on_cps := cps\<rparr>)), Inr res))"

definition Owns :: "owner_node \<Rightarrow> uuid \<Rightarrow> bool" where
  "Owns n runID \<longleftrightarrow> om_get n runID \<noteq> None"

definition om_Ready :: "owner_node \<Rightarrow> uuid \<Rightarrow> uuid list" where
  "om_Ready n runID = (case om_get n runID of None \<Rightarrow> [] | Some own \<Rightarrow> ReadyTasks (OState own))"

definition ReadyForDispatch :: "owner_node \<Rightarrow> uuid \<Rightarrow> dispatchable_task list" where
  "ReadyForDispatch n runID = (case om_get n runID of
       None \<Rightarrow> []
     | Some own \<Rightarrow> map (\<lambda>i. \<lparr>DTTaskID = i, DTAttempt =
           (case TaskState (OState own) i of
              None \<Rightarrow> 1
            | Some st \<Rightarrow> if Attempt st > 0 then Attempt st else 1)\<rparr>) (ReadyTasks (OState own)))"

definition set_run :: "uuid \<Rightarrow> owned_run \<Rightarrow> owner_node \<Rightarrow> owner_node" where
  "set_run runID own n = n\<lparr>on_runs := (on_runs n)(runID := Some own)\<rparr>"

definition om_MarkDispatched :: "uuid \<Rightarrow> uuid \<Rightarrow> string \<Rightarrow> int \<Rightarrow> int \<Rightarrow> owner_node \<Rightarrow> owner_node" where
  "om_MarkDispatched runID taskID worker attempt leaseExpiresAtMs n = (case om_get n runID of
       None \<Rightarrow> n
     | Some own \<Rightarrow> set_run runID (own\<lparr>OState := MarkDispatched (OState own) taskID worker attempt leaseExpiresAtMs\<rparr>) n)"

definition Drop :: "uuid \<Rightarrow> bool \<Rightarrow> timestamp \<Rightarrow> owner_node \<Rightarrow> owner_node" where
  "Drop runID cpFault now n = (case om_get n runID of
       None \<Rightarrow> n
     | Some own \<Rightarrow> n\<lparr>on_runs := (on_runs n)(runID := None),
                     on_cps := snd (try_force cpFault (OWriter own) (on_cps n) (OState own) (OGen own) now)\<rparr>)"

definition finalize_run :: "(uuid \<Rightarrow> string) \<Rightarrow> uuid \<Rightarrow> bool \<Rightarrow> timestamp \<Rightarrow> store_db \<Rightarrow> store_db" where
  "finalize_run ustr runID hasFailures now = best_effort (Complete runID
     (if hasFailures then Some (''run '' @ ustr runID @ '' completed with failed task(s)'') else None) now)"

text \<open>
  The completion of a task on the owner path. The engine is advanced before the durable write,
  so that an error of the write leaves the memory ahead of the database.
\<close>

definition om_Complete ::
    "(uuid \<Rightarrow> string) \<Rightarrow> uuid \<Rightarrow> uuid \<Rightarrow> task_status \<Rightarrow> string \<Rightarrow> string \<Rightarrow> string \<Rightarrow> (string \<times> string) list
       \<Rightarrow> string list \<Rightarrow> db_faults \<Rightarrow> timestamp \<Rightarrow> owner_node \<Rightarrow> owner_node \<times> (store_error + complete_result)" where
  "om_Complete ustr runID taskID status result errMsg claimedBy output branchSelections faults now n =
     (case om_get n runID of
        None \<Rightarrow> (n, Inr \<lparr>CRReady = [], CRComplete = False, CROwned = False\<rparr>)
      | Some own \<Rightarrow>
          (case (if branchSelections = [] then Inr []
                 else ResolveBranchSkips ustr (on_db n) runID taskID branchSelections) of
             Inl e \<Rightarrow> (n, Inl e)
           | Inr branchSkips \<Rightarrow>
               let (rs1, res) = ApplyCompletion (OState own) taskID status branchSkips;
                   n1 = set_run runID (own\<lparr>OState := rs1\<rparr>) n
               in (case (case write_fault faults of
                           Some e \<Rightarrow> Inl e
                         | None \<Rightarrow> CompleteTaskOwner runID taskID status result errMsg claimedBy output
                             branchSelections (ResTerminalSequence res) (OGen own) (ResSkipped res) now (on_db n)) of
                     Inl e \<Rightarrow> (n1, Inl e)
                   | Inr (_, db1) \<Rightarrow>
                       let (w1, cps1) = try_maybe (checkpoint_fault faults) (OWriter own) (on_cps n) rs1 (OGen own) now;
                           n2 = (set_run runID (own\<lparr>OState := rs1, OWriter := w1\<rparr>) n)\<lparr>on_db := db1, on_cps := cps1\<rparr>;
                           n3 = (if ResComplete res
                                 then Drop runID (checkpoint_fault faults) now
                                        (n2\<lparr>on_db := finalize_run ustr runID (HasFailures rs1) now (on_db n2)\<rparr>)
                                 else n2)
                       in (n3, Inr \<lparr>CRReady = ResReady res, CRComplete = ResComplete res, CROwned = True\<rparr>))))"


section \<open>The durable write, row by row\<close>

definition skip_row :: "uuid \<Rightarrow> int \<Rightarrow> timestamp \<Rightarrow> skipped_task \<Rightarrow> task_run \<Rightarrow> task_run" where
  "skip_row runID gen now sk r =
     (if is_row runID (SkTaskID sk) r \<and> TRStatus r \<notin> set terminalStatusStrings
      then owner_skip_columns sk gen now r else r)"

lemma recordTaskEventTx_rows:
  "recordTaskEventTx et runID taskID db = Inr (x, db') \<Longrightarrow> db_task_runs db' = db_task_runs db"
  by (auto simp: recordTaskEventTx_def the_task_run_def the_job_run_def tx_simps split: option.splits)

lemma skip_row_ids [simp]:
  "TRJobRunID (skip_row R g now sk r) = TRJobRunID r" "TRTaskID (skip_row R g now sk r) = TRTaskID r"
  by (simp_all add: skip_row_def owner_skip_columns_def)

lemma write_skips_rows:
  "write_skips R g now sks db = Inr (u, db') \<Longrightarrow>
     db_task_runs db' = map (\<lambda>r. foldl (\<lambda>r sk. skip_row R g now sk r) r sks) (db_task_runs db)"
proof (induction sks arbitrary: db)
  case Nil
  then show ?case by (simp add: tx_ok_def)
next
  case (Cons sk sks)
  let ?P = "\<lambda>r. is_row R (SkTaskID sk) r \<and> TRStatus r \<notin> set terminalStatusStrings"
  let ?db = "db\<lparr>db_task_runs := update_where ?P (owner_skip_columns sk g now) (db_task_runs db)\<rparr>"
  have eq: "db_task_runs ?db = map (skip_row R g now sk) (db_task_runs db)"
    by (simp add: update_where_def skip_row_def [abs_def])
  have "\<exists>db1. db_task_runs db1 = db_task_runs ?db \<and> write_skips R g now sks db1 = Inr (u, db')"
  proof (cases "rows_affected ?P (db_task_runs db) = 0")
    case True
    with Cons.prems have "write_skips R g now sks ?db = Inr (u, db')" by (simp add: tx_bind_Inr update_task_runs_def)
    then show ?thesis by blast
  next
    case False
    with Cons.prems obtain x db1 where "recordTaskEventTx TypeTaskSkipped R (SkTaskID sk) ?db = Inr (x, db1)"
      "write_skips R g now sks db1 = Inr (u, db')" by (auto simp: tx_bind_Inr update_task_runs_def)
    with recordTaskEventTx_rows show ?thesis by blast
  qed
  then obtain db1 where db1: "db_task_runs db1 = db_task_runs ?db" "write_skips R g now sks db1 = Inr (u, db')"
    by blast
  from Cons.IH [OF db1(2)] show ?case unfolding db1(1) eq by (simp add: comp_def)
qed

definition owner_row ::
    "uuid \<Rightarrow> uuid \<Rightarrow> string \<Rightarrow> (task_run \<Rightarrow> task_run) \<Rightarrow> int \<Rightarrow> timestamp \<Rightarrow> skipped_task list \<Rightarrow> task_run \<Rightarrow> task_run" where
  "owner_row R t c cols g now sks r =
     foldl (\<lambda>r sk. skip_row R g now sk r) (if claim_row R t c True r then cols r else r) sks"

lemma CompleteTaskOwner_rows:
  assumes "CompleteTaskOwner R t s result errMsg c out sels sq g sks now db = Inr (u, db')"
  shows "db_task_runs db' =
      map (owner_row R t c (owner_columns s result errMsg out sels sq g now) g now sks) (db_task_runs db)"
    and "\<exists>r \<in> set (db_task_runs db). claim_row R t c True r"
proof -
  let ?cols = "owner_columns s result errMsg out sels sq g now"
  let ?db = "db\<lparr>db_task_runs := update_where (claim_row R t c True) ?cols (db_task_runs db)\<rparr>"
  show "\<exists>r \<in> set (db_task_runs db). claim_row R t c True r"
    using assms find_Some_in [of "claim_row R t c True" "db_task_runs db"]
    by (auto simp: CompleteTaskOwner_def tx_bind_Inr tx_read_def tx_fail_def split: if_splits)
  obtain db1 where db1: "db_task_runs db1 = db_task_runs ?db" "write_skips R g now sks db1 = Inr (u, db')"
    using assms
    by (auto simp: CompleteTaskOwner_def tx_bind_Inr tx_read_def tx_fail_def update_task_runs_def
        split: if_splits dest!: recordTaskEventTx_rows)
  show "db_task_runs db' = map (owner_row R t c ?cols g now sks) (db_task_runs db)"
    using write_skips_rows [OF db1(2)] unfolding db1(1)
    by (simp add: update_where_def owner_row_def [abs_def] comp_def)
qed

lemma foldl_skip_row_other:
  "TRTaskID r \<notin> SkTaskID ` set sks \<or> TRJobRunID r \<noteq> R \<Longrightarrow> foldl (\<lambda>r sk. skip_row R g now sk r) r sks = r"
  by (induction sks arbitrary: r) (auto simp: skip_row_def is_row_def)

lemma foldl_skip_row_terminal:
  "IsTerminal (TRStatus r) \<Longrightarrow> foldl (\<lambda>r sk. skip_row R g now sk r) r sks = r"
  by (induction sks arbitrary: r) (auto simp: skip_row_def IsTerminal_iff_terminalStatusStrings)

lemma foldl_skip_row_hit:
  assumes "distinct (map SkTaskID sks)" "sk \<in> set sks" "is_row R (SkTaskID sk) r" "\<not> IsTerminal (TRStatus r)"
  shows "foldl (\<lambda>r sk. skip_row R g now sk r) r sks = owner_skip_columns sk g now r"
  using assms
proof (induction sks arbitrary: r)
  case (Cons x xs)
  show ?case
  proof (cases "sk = x")
    case True
    then have "skip_row R g now x r = owner_skip_columns sk g now r"
      using Cons.prems by (simp add: skip_row_def IsTerminal_iff_terminalStatusStrings)
    moreover have "IsTerminal (TRStatus (owner_skip_columns sk g now r))" by (simp add: owner_skip_columns_def)
    ultimately show ?thesis by (simp add: foldl_skip_row_terminal)
  next
    case False
    then have "sk \<in> set xs" "SkTaskID sk \<noteq> SkTaskID x" using Cons.prems(1,2) by (auto simp: image_iff)
    moreover from this have "skip_row R g now x r = r" using Cons.prems(3) by (simp add: skip_row_def is_row_def)
    ultimately show ?thesis using Cons.IH Cons.prems by simp
  qed
qed simp

lemma owner_columns_simps [simp]:
  "TRJobRunID (owner_columns s res em out sels sq g now r) = TRJobRunID r"
  "TRTaskID (owner_columns s res em out sels sq g now r) = TRTaskID r"
  "TRStatus (owner_columns s res em out sels sq g now r) = s"
  "TRTerminalSequence (owner_columns s res em out sels sq g now r) = sq"
  by (simp_all add: owner_columns_def Let_def)

lemma foldl_skip_row_ids [simp]:
  "TRJobRunID (foldl (\<lambda>r sk. skip_row R g now sk r) r sks) = TRJobRunID r"
  "TRTaskID (foldl (\<lambda>r sk. skip_row R g now sk r) r sks) = TRTaskID r"
  by (induction sks arbitrary: r) simp_all

section \<open>Memory and database agree\<close>

definition run_rows :: "store_db \<Rightarrow> uuid \<Rightarrow> task_run list" where
  "run_rows db R = filter (\<lambda>r. TRJobRunID r = R) (db_task_runs db)"

definition terminal_rows :: "store_db \<Rightarrow> uuid \<Rightarrow> task_run set" where
  "terminal_rows db R = {r \<in> set (run_rows db R). IsTerminal (TRStatus r)}"

text \<open>
  The run has one row per task of the topology; the row of a closed task has the task's
  status; the sequence numbers on the terminal rows are those the engine has handed out.
\<close>

definition rows_match :: "run_topology \<Rightarrow> uuid \<Rightarrow> store_db \<Rightarrow> run_state \<Rightarrow> bool" where
  "rows_match tp R db rs \<longleftrightarrow> distinct (map TRTaskID (run_rows db R))
     \<and> TRTaskID ` set (run_rows db R) = topo_keys tp
     \<and> (\<forall>r \<in> set (run_rows db R). if is_open rs (TRTaskID r) then \<not> IsTerminal (TRStatus r)
          else task_status_of rs (TRTaskID r) = Some (TRStatus r))
     \<and> TRTerminalSequence ` terminal_rows db R = {1 .. seq rs}"

text \<open>
  The state recovery starts from, and what it has to do with the rows: the rows after the
  checkpoint are those of the tasks that were still open in it.
\<close>

definition base_match ::
    "run_topology \<Rightarrow> uuid \<Rightarrow> store_db \<Rightarrow> checkpoint_table \<Rightarrow> run_state \<Rightarrow> run_state \<Rightarrow> bool" where
  "base_match tp R db cps rs0 rs \<longleftrightarrow>
     (case LatestFullCheckpoint cps R of None \<Rightarrow> rs0 = NewRunState tp 0
       | Some c \<Rightarrow> StateBlob c = Snapshot rs0 \<and> SequenceHigh c = seq rs0)
     \<and> rs_inv tp rs0 \<and> extends rs0 rs \<and> 0 \<le> seq rs0 \<and> seq rs0 \<le> seq rs
     \<and> (\<forall>r \<in> terminal_rows db R. TRTerminalSequence r > seq rs0 \<longleftrightarrow> is_open rs0 (TRTaskID r))"

definition durable :: "run_topology \<Rightarrow> uuid \<Rightarrow> store_db \<Rightarrow> checkpoint_table \<Rightarrow> run_state \<Rightarrow> bool" where
  "durable tp R db cps rs \<longleftrightarrow> topo_wf tp \<and> rs_inv tp rs \<and> settled rs \<and> seq rs = terminalCount rs
     \<and> rows_match tp R db rs \<and> checkpoints_ok cps \<and> (\<exists>rs0. base_match tp R db cps rs0 rs)"


lemma owner_row_ids [simp]:
  assumes "\<And>r. TRJobRunID (cols r) = TRJobRunID r \<and> TRTaskID (cols r) = TRTaskID r"
  shows "TRJobRunID (owner_row R t c cols g now sks r) = TRJobRunID r"
    "TRTaskID (owner_row R t c cols g now sks r) = TRTaskID r"
  using assms by (simp_all add: owner_row_def)

text \<open>The three kinds of rows of a completion: the task's own, a skipped task's, any other.\<close>

lemma owner_row_cases:
  assumes rows: "rows_match tp R db rs" and r: "r \<in> set (run_rows db R)"
    and claim: "\<exists>r \<in> set (db_task_runs db). claim_row R t c True r"
    and s: "IsTerminal s" "\<And>r. TRStatus (cols r) = s"
    and sks: "distinct (map SkTaskID sks)" "\<forall>sk \<in> set sks. is_open rs (SkTaskID sk)" "t \<notin> SkTaskID ` set sks"
  shows "owner_row R t c cols g now sks r =
    (if TRTaskID r = t then cols r
     else case find (\<lambda>sk. SkTaskID sk = TRTaskID r) sks of
            Some sk \<Rightarrow> owner_skip_columns sk g now r | None \<Rightarrow> r)"
proof (cases "TRTaskID r = t")
  case True
  obtain r0 where r0: "r0 \<in> set (db_task_runs db)" "claim_row R t c True r0" using claim by blast
  then have "r0 \<in> set (run_rows db R)" "TRTaskID r0 = TRTaskID r"
    using True by (auto simp: run_rows_def claim_row_def is_row_def)
  then have "r0 = r" using rows r by (auto simp: rows_match_def distinct_map dest: inj_onD)
  with r0 have "owner_row R t c cols g now sks r = foldl (\<lambda>r sk. skip_row R g now sk r) (cols r) sks"
    by (simp add: owner_row_def)
  with s True show ?thesis by (simp add: foldl_skip_row_terminal)
next
  case False
  then have o: "owner_row R t c cols g now sks r = foldl (\<lambda>r sk. skip_row R g now sk r) r sks"
    by (simp add: owner_row_def claim_row_def is_row_def)
  show ?thesis
  proof (cases "find (\<lambda>sk. SkTaskID sk = TRTaskID r) sks")
    case None
    then have "TRTaskID r \<notin> SkTaskID ` set sks" by (auto simp: find_None_iff)
    with None False show ?thesis by (simp add: o foldl_skip_row_other)
  next
    case (Some sk)
    then have sk: "sk \<in> set sks" "SkTaskID sk = TRTaskID r" by (auto dest: find_Some_in)
    with sks(2) have "is_open rs (TRTaskID r)" by metis
    then have "\<not> IsTerminal (TRStatus r)" using rows r by (auto simp: rows_match_def)
    then have "foldl (\<lambda>r sk. skip_row R g now sk r) r sks = owner_skip_columns sk g now r"
      using sk r sks(1) by (intro foldl_skip_row_hit) (auto simp: is_row_def run_rows_def)
    with Some False show ?thesis by (simp add: o)
  qed
qed

lemma run_rows_map:
  "db_task_runs db' = map f (db_task_runs db) \<Longrightarrow> (\<And>r. TRJobRunID (f r) = TRJobRunID r) \<Longrightarrow>
     run_rows db' R = map f (run_rows db R)"
  by (simp add: run_rows_def filter_map comp_def)

lemma find_SkTaskID:
  assumes "distinct (map SkTaskID sks)" "sk \<in> set sks"
  shows "find (\<lambda>x. SkTaskID x = SkTaskID sk) sks = Some sk"
  using assms by (rule find_unique)

lemma find_SkTaskID_None: "find (\<lambda>x. SkTaskID x = i) sks = None \<longleftrightarrow> i \<notin> SkTaskID ` set sks"
  by (auto simp: find_None_iff)

lemma complete_rows:
  assumes rows: "rows_match tp R db rs" and eff: "completion_effect rs t s bs rs' res"
    and keys: "keys_ok tp rs" "0 \<le> seq rs" and op: "is_open rs t" and s: "IsTerminal s"
    and w: "CompleteTaskOwner R t s result em c out sels (ResTerminalSequence res) g (ResSkipped res) now db = Inr (u, db')"
  shows "rows_match tp R db' rs'"
    and "r' \<in> terminal_rows db' R \<Longrightarrow>
           r' \<in> terminal_rows db R \<or> is_open rs (TRTaskID r') \<and> seq rs < TRTerminalSequence r'"
proof -
  let ?cols = "owner_columns s result em out sels (ResTerminalSequence res) g now"
  let ?sks = "ResSkipped res"
  define f where "f = owner_row R t c ?cols g now ?sks"
  have E: "distinct (t # map SkTaskID ?sks)" "\<forall>j \<in> set (map SkTaskID ?sks). is_open rs j"
    "ResTerminalSequence res = seq rs + 1" "map SkTerminalSequence ?sks = [seq rs + 2 .. seq rs']"
    "seq rs' = seq rs + 1 + int (length ?sks)"
    "\<And>j. task_status_of rs' j = (if j = t then Some s
          else if j \<in> SkTaskID ` set ?sks then Some TaskStatusSkipped else task_status_of rs j)"
    using eff by (auto simp: completion_effect_def Let_def)
  note W = CompleteTaskOwner_rows [OF w]
  have ids: "TRJobRunID (f r) = TRJobRunID r" "TRTaskID (f r) = TRTaskID r" for r
    by (simp_all add: f_def)
  have rr: "run_rows db' R = map f (run_rows db R)"
    by (rule run_rows_map) (use W(1) ids in \<open>simp_all add: f_def\<close>)
  have f: "f r = (if TRTaskID r = t then ?cols r
     else case find (\<lambda>sk. SkTaskID sk = TRTaskID r) ?sks of
            Some sk \<Rightarrow> owner_skip_columns sk g now r | None \<Rightarrow> r)" if "r \<in> set (run_rows db R)" for r
    unfolding f_def by (rule owner_row_cases [OF rows that W(2) s]) (use E(1,2) in auto)
  have stat: "if is_open rs' (TRTaskID r) then \<not> IsTerminal (TRStatus (f r))
      else task_status_of rs' (TRTaskID r) = Some (TRStatus (f r))" if r: "r \<in> set (run_rows db R)" for r
  proof (cases "find (\<lambda>sk. SkTaskID sk = TRTaskID r) ?sks")
    case None
    then have "TRTaskID r \<notin> SkTaskID ` set ?sks" by (auto simp: find_None_iff)
    moreover have "if is_open rs (TRTaskID r) then \<not> IsTerminal (TRStatus r)
        else task_status_of rs (TRTaskID r) = Some (TRStatus r)" using rows r by (simp add: rows_match_def)
    ultimately show ?thesis using None s E(6) [of "TRTaskID r"] by (auto simp: f [OF r] is_open_status)
  next
    case (Some sk)
    then have "TRTaskID r \<in> SkTaskID ` set ?sks" using find_SkTaskID_None [of "TRTaskID r" ?sks] by simp
    with Some E(1) E(6) [of "TRTaskID r"] show ?thesis
      by (auto simp: f [OF r] is_open_status owner_skip_columns_def)
  qed
  have row_ex: "\<exists>r \<in> set (run_rows db R). TRTaskID r = i" if "is_open rs i" for i
  proof -
    have "i \<in> fst ` set (tasks rs)" using that by (force simp: is_open_def split: option.splits dest: map_of_SomeD)
    then have "i \<in> TRTaskID ` set (run_rows db R)" using rows keys(1) by (simp add: rows_match_def keys_ok_def)
    then show ?thesis by auto
  qed
  have T: "terminal_rows db' R = terminal_rows db R
      \<union> f ` {r \<in> set (run_rows db R). TRTaskID r = t \<or> TRTaskID r \<in> SkTaskID ` set ?sks}"
    (is "_ = _ \<union> f ` ?N")
  proof -
    have 1: "IsTerminal (TRStatus (f r))" if "r \<in> ?N" for r
      using that s find_SkTaskID_None [of "TRTaskID r" ?sks] by (auto simp: f owner_skip_columns_def split: option.splits)
    have 2: "f r = r" if "r \<in> set (run_rows db R)" "r \<notin> ?N" for r
      using that find_SkTaskID_None [of "TRTaskID r" ?sks] by (auto simp: f)
    have 3: "r \<notin> ?N" if "r \<in> terminal_rows db R" for r
      using that rows op E(2) by (auto simp: terminal_rows_def rows_match_def)
    have "terminal_rows db' R = {r'. \<exists>r \<in> set (run_rows db R). r' = f r \<and> IsTerminal (TRStatus (f r))}"
      by (auto simp: terminal_rows_def rr)
    also have "\<dots> = terminal_rows db R \<union> f ` ?N"
      using 1 2 3 unfolding terminal_rows_def by (auto simp: image_iff) (metis+)
    finally show ?thesis .
  qed
  have new: "TRTerminalSequence ` f ` ?N = {seq rs + 1 .. seq rs'}"
  proof -
    obtain rt where rt: "rt \<in> set (run_rows db R)" "TRTaskID rt = t" using row_ex [OF op] by blast
    have a: "TRTerminalSequence (f r) \<in> {seq rs + 1 .. seq rs'}" if "r \<in> ?N" for r
    proof (cases "TRTaskID r = t")
      case True
      with that E(3,5) show ?thesis by (simp add: f)
    next
      case False
      with that obtain sk where "find (\<lambda>sk. SkTaskID sk = TRTaskID r) ?sks = Some sk"
        by (cases "find (\<lambda>sk. SkTaskID sk = TRTaskID r) ?sks") (auto simp: find_None_iff)
      moreover from this have "SkTerminalSequence sk \<in> set (map SkTerminalSequence ?sks)"
        by (auto dest!: find_Some_in)
      then have "SkTerminalSequence sk \<in> {seq rs + 2 .. seq rs'}" unfolding E(4) by simp
      ultimately show ?thesis using False that by (auto simp: f owner_skip_columns_def)
    qed
    have b: "n \<in> TRTerminalSequence ` f ` ?N" if "n \<in> {seq rs + 1 .. seq rs'}" for n
    proof (cases "n = seq rs + 1")
      case True
      with rt E(3) show ?thesis by (intro image_eqI [of _ _ "f rt"] image_eqI [of _ f rt]) (auto simp: f)
    next
      case False
      then have "n \<in> set (map SkTerminalSequence ?sks)" using that unfolding E(4) by auto
      then obtain sk where sk: "sk \<in> set ?sks" "SkTerminalSequence sk = n" by auto
      then obtain r where r: "r \<in> set (run_rows db R)" "TRTaskID r = SkTaskID sk" using row_ex E(2) by auto
      with sk E(1) have "f r = owner_skip_columns sk g now r"
        using find_SkTaskID [of ?sks sk] by (auto simp: f)
      with sk r show ?thesis
        by (intro image_eqI [of _ _ "f r"] image_eqI [of _ f r]) (auto simp: owner_skip_columns_def)
    qed
    from a b show ?thesis by blast
  qed
  have "TRTerminalSequence ` terminal_rows db' R = {1 .. seq rs'}"
  proof -
    have "TRTerminalSequence ` terminal_rows db R = {1 .. seq rs}" using rows by (simp add: rows_match_def)
    then have "TRTerminalSequence ` terminal_rows db' R = {1 .. seq rs} \<union> {seq rs + 1 .. seq rs'}"
      unfolding T image_Un new by simp
    then show ?thesis using keys(2) E(5) by auto
  qed
  moreover have m: "map TRTaskID (run_rows db' R) = map TRTaskID (run_rows db R)"
    by (simp add: rr ids)
  moreover have "TRTaskID ` set (run_rows db' R) = TRTaskID ` set (run_rows db R)"
    using arg_cong [OF m, of set] by simp
  moreover have "\<forall>r \<in> set (run_rows db' R). if is_open rs' (TRTaskID r) then \<not> IsTerminal (TRStatus r)
      else task_status_of rs' (TRTaskID r) = Some (TRStatus r)"
    using stat unfolding rr by (simp add: ids)
  ultimately show "rows_match tp R db' rs'"
    using rows by (simp add: rows_match_def)
  assume "r' \<in> terminal_rows db' R"
  then consider "r' \<in> terminal_rows db R" | "r' \<in> f ` ?N" unfolding T by blast
  then show "r' \<in> terminal_rows db R \<or> is_open rs (TRTaskID r') \<and> seq rs < TRTerminalSequence r'"
  proof cases
    case 2
    then have "TRTerminalSequence r' \<in> {seq rs + 1 .. seq rs'}" using new by blast
    moreover have "is_open rs (TRTaskID r')" using 2 op E(2) by (auto simp: ids)
    ultimately show ?thesis by simp
  qed simp
qed


lemma durableD:
  assumes "durable tp R db cps rs"
  shows "topo_wf tp" "rs_inv tp rs" "settled rs" "rows_match tp R db rs" "checkpoints_ok cps" "0 \<le> seq rs"
    "seq rs = terminalCount rs" "keys_ok tp rs"
  using assms terminalCount_card(1) [of tp rs]
  by (auto simp: durable_def rs_inv_def rs_inv_lag_def)

lemma rows_match_row:
  assumes "rows_match tp R db rs" "r \<in> set (run_rows db R)"
  shows "IsTerminal (TRStatus r) \<longleftrightarrow> \<not> is_open rs (TRTaskID r)"
    "\<not> is_open rs (TRTaskID r) \<Longrightarrow> task_status_of rs (TRTaskID r) = Some (TRStatus r)"
proof -
  have m: "if is_open rs (TRTaskID r) then \<not> IsTerminal (TRStatus r)
      else task_status_of rs (TRTaskID r) = Some (TRStatus r)" using assms by (simp add: rows_match_def)
  then show st: "\<not> is_open rs (TRTaskID r) \<Longrightarrow> task_status_of rs (TRTaskID r) = Some (TRStatus r)" by simp
  show "IsTerminal (TRStatus r) \<longleftrightarrow> \<not> is_open rs (TRTaskID r)"
  proof (cases "is_open rs (TRTaskID r)")
    case False
    from st [OF this] this show ?thesis by (simp add: is_open_status)
  qed (use m in simp)
qed

lemma durable_complete:
  assumes d: "durable tp R db cps rs" and op: "is_open rs t" and s: "IsTerminal s"
    and run: "ApplyCompletion rs t s bs = (rs', res)"
    and w: "CompleteTaskOwner R t s result em c out sels (ResTerminalSequence res) g (ResSkipped res) now db = Inr (u, db')"
  shows "durable tp R db' cps rs'"
proof -
  note D = durableD [OF d]
  note A = ApplyCompletion_inv [OF D(1-3) op s run]
  note C = completion_counts [OF D(2) A(1) op s A(3)]
  note W = complete_rows [OF D(4) A(3) D(8) D(6) op s w]
  obtain rs0 where b: "base_match tp R db cps rs0 rs" using d by (auto simp: durable_def)
  have ext: "extends rs rs'" by (rule completion_extends [OF A(3) op])
  have "base_match tp R db' cps rs0 rs'"
    unfolding base_match_def
  proof (intro conjI ballI)
    show "extends rs0 rs'" using b ext by (auto simp: base_match_def intro: extends_trans)
    show "seq rs0 \<le> seq rs'" using b C(2) by (simp add: base_match_def)
    fix r assume "r \<in> terminal_rows db' R"
    from W(2) [OF this] show "(seq rs0 < TRTerminalSequence r) = is_open rs0 (TRTaskID r)"
    proof
      assume "is_open rs (TRTaskID r) \<and> seq rs < TRTerminalSequence r"
      moreover from this have "is_open rs0 (TRTaskID r)" using b extends_closed [of rs0 rs] by (auto simp: base_match_def)
      ultimately show ?thesis using b by (auto simp: base_match_def)
    qed (use b in \<open>simp add: base_match_def\<close>)
  qed (use b in \<open>simp_all add: base_match_def\<close>)
  then show ?thesis using D A W(1) C(1,2) by (auto simp: durable_def)
qed

lemma Force_table:
  "Force w cps rs g now = (w', cps') \<Longrightarrow> CWRunID w' = CWRunID w \<and>
     cps' = PruneCheckpoints (WriteCheckpoint cps (CWRunID w) (seq rs) g (Snapshot rs) False now) (CWRunID w)
              (KeepFulls (CWCfg w))"
  by (auto simp: Force_def Let_def Sequence_def)

lemma durable_force:
  assumes d: "durable tp R db cps rs" and f: "Force w cps rs g now = (w', cps')" and w: "CWRunID w = R"
  shows "durable tp R db cps' rs"
proof -
  note D = durableD [OF d]
  obtain rs0 where b: "base_match tp R db cps rs0 rs" using d by (auto simp: durable_def)
  have cps': "cps' = PruneCheckpoints (WriteCheckpoint cps R (seq rs) g (Snapshot rs) False now) R (KeepFulls (CWCfg w))"
    using Force_table [OF f] w by simp
  have high: "SequenceHigh c \<le> seq rs" if "LatestFullCheckpoint cps R = Some c" for c
    using b that by (simp add: base_match_def)
  from checkpoints.latest_force [OF D(5) high] have l: "LatestFullCheckpoint cps' R =
      Some \<lparr>CPRunID = R, SequenceHigh = seq rs, OwnerGeneration = g, StateBlob = Snapshot rs,
            IsIncremental = False, CPCreatedAt = now\<rparr>"
    by (simp add: cps')
  have ok: "checkpoints_ok cps'"
    unfolding cps' by (intro checkpoints.ok_prune checkpoints.ok_write D(5))
  have "base_match tp R db cps' rs rs"
    unfolding base_match_def
  proof (intro conjI ballI)
    fix r assume r: "r \<in> terminal_rows db R"
    then have "TRTerminalSequence r \<in> {1 .. seq rs}" using D(4) unfolding rows_match_def by blast
    moreover have "\<not> is_open rs (TRTaskID r)" using D(4) r by (auto simp: rows_match_def terminal_rows_def)
    ultimately show "(seq rs < TRTerminalSequence r) = is_open rs (TRTaskID r)" by simp
  qed (use l D in \<open>simp_all add: extends_refl\<close>)
  then show ?thesis using D ok by (auto simp: durable_def)
qed

lemma durable_try:
  assumes "durable tp R db cps rs" "CWRunID w = R"
  shows "durable tp R db (snd (try_force x w cps rs g now)) rs" "CWRunID (fst (try_force x w cps rs g now)) = R"
    "durable tp R db (snd (try_maybe x w cps rs g now)) rs" "CWRunID (fst (try_maybe x w cps rs g now)) = R"
  using assms durable_force [OF assms(1) prod.collapse [symmetric] assms(2)]
    Force_table [OF prod.collapse [symmetric], of w cps rs g now, THEN conjunct1]
  by (auto simp: try_force_def try_maybe_def Maybe_def)

text \<open>A change of the rows that leaves terminal rows alone and makes none.\<close>

definition no_closing :: "task_run \<Rightarrow> task_run \<Rightarrow> bool" where
  "no_closing r r' \<longleftrightarrow> TRJobRunID r' = TRJobRunID r \<and> TRTaskID r' = TRTaskID r
     \<and> TRCreatedAt r' = TRCreatedAt r \<and> TRExecutionDescriptor r' = TRExecutionDescriptor r
     \<and> (IsTerminal (TRStatus r') \<longleftrightarrow> IsTerminal (TRStatus r))
     \<and> (IsTerminal (TRStatus r) \<longrightarrow> TRStatus r' = TRStatus r \<and> TRTerminalSequence r' = TRTerminalSequence r)"

interpretation no_closing: decrement_relation no_closing
  by unfold_locales (auto simp: no_closing_def)

lemma list_all2_filter:
  "list_all2 Q xs ys \<Longrightarrow> (\<And>x y. Q x y \<Longrightarrow> P y = P x) \<Longrightarrow> list_all2 Q (filter P xs) (filter P ys)"
  by (induction rule: list_all2_induct) auto

lemma list_all2_map_eq: "list_all2 Q xs ys \<Longrightarrow> (\<And>x y. Q x y \<Longrightarrow> f y = f x) \<Longrightarrow> map f ys = map f xs"
  by (induction rule: list_all2_induct) auto

lemma no_closing_run_rows:
  "list_all2 no_closing (db_task_runs db) (db_task_runs db') \<Longrightarrow> list_all2 no_closing (run_rows db R) (run_rows db' R)"
  unfolding run_rows_def by (erule list_all2_filter) (simp add: no_closing_def)

lemma list_all2_in:
  "list_all2 Q xs ys \<Longrightarrow> y \<in> set ys \<Longrightarrow> \<exists>x \<in> set xs. Q x y"
  "list_all2 Q xs ys \<Longrightarrow> x \<in> set xs \<Longrightarrow> \<exists>y \<in> set ys. Q x y"
  by (induction rule: list_all2_induct) auto

lemma durable_no_closing:
  assumes d: "durable tp R db cps rs" and q: "list_all2 no_closing (db_task_runs db) (db_task_runs db')"
  shows "durable tp R db' cps rs"
proof -
  note D = durableD [OF d]
  note rr = no_closing_run_rows [OF q, of R]
  have ids: "map TRTaskID (run_rows db' R) = map TRTaskID (run_rows db R)"
    by (rule list_all2_map_eq [OF rr]) (simp add: no_closing_def)
  have bwd: "\<exists>r \<in> set (run_rows db R). no_closing r r'" if "r' \<in> set (run_rows db' R)" for r'
    using list_all2_in(1) [OF rr that] .
  have fwd: "\<exists>r' \<in> set (run_rows db' R). no_closing r r'" if "r \<in> set (run_rows db R)" for r
    using list_all2_in(2) [OF rr that] .
  have same: "(\<lambda>r. (TRTaskID r, TRTerminalSequence r)) ` terminal_rows db' R
      = (\<lambda>r. (TRTaskID r, TRTerminalSequence r)) ` terminal_rows db R"
    using bwd fwd by (fastforce simp: terminal_rows_def no_closing_def image_iff)
  have "TRTerminalSequence ` terminal_rows db' R = TRTerminalSequence ` terminal_rows db R"
    using arg_cong [OF same, of "\<lambda>X. snd ` X"] by (simp add: image_image)
  moreover have "if is_open rs (TRTaskID r') then \<not> IsTerminal (TRStatus r')
      else task_status_of rs (TRTaskID r') = Some (TRStatus r')" if r': "r' \<in> set (run_rows db' R)" for r'
  proof -
    obtain r where r: "r \<in> set (run_rows db R)" "no_closing r r'" using bwd [OF r'] by blast
    then have m: "if is_open rs (TRTaskID r) then \<not> IsTerminal (TRStatus r)
        else task_status_of rs (TRTaskID r) = Some (TRStatus r)" using D(4) by (simp add: rows_match_def)
    show ?thesis
    proof (cases "is_open rs (TRTaskID r)")
      case False
      then have eq: "task_status_of rs (TRTaskID r) = Some (TRStatus r)" using m by simp
      with False have "IsTerminal (TRStatus r)" by (auto simp: is_open_status)
      with r(2) eq False show ?thesis by (simp add: no_closing_def)
    qed (use m r(2) in \<open>simp add: no_closing_def\<close>)
  qed
  ultimately have "rows_match tp R db' rs"
    using D(4) ids unfolding rows_match_def by (metis list.set_map)
  moreover have "base_match tp R db' cps rs0 rs" if b: "base_match tp R db cps rs0 rs" for rs0
  proof -
    have "(TRTerminalSequence r' > seq rs0) = is_open rs0 (TRTaskID r')" if "r' \<in> terminal_rows db' R" for r'
    proof -
      have "(TRTaskID r', TRTerminalSequence r') \<in> (\<lambda>r. (TRTaskID r, TRTerminalSequence r)) ` terminal_rows db R"
        using that same by blast
      then show ?thesis using b by (auto simp: base_match_def)
    qed
    then show ?thesis using b by (simp add: base_match_def)
  qed
  ultimately show ?thesis using d unfolding durable_def by blast
qed


section \<open>Takeover\<close>

lemma sorted_key_seq:
  fixes xs :: "task_run list"
  assumes "inj_on TRTerminalSequence (set xs)" "distinct xs" "TRTerminalSequence ` set xs = {a .. b}"
  shows "map TRTerminalSequence (sort_key TRTerminalSequence xs) = [a .. b]"
proof (rule sorted_distinct_set_unique)
  have "distinct (map TRTerminalSequence xs)" using assms(1,2) by (simp add: distinct_map)
  then show "distinct (map TRTerminalSequence (sort_key TRTerminalSequence xs))" by (rule distinct_sort_key_map)
qed (use assms(3) in simp_all)

text \<open>The rows a recovering owner reads are the input that recovery needs.\<close>

lemma durable_terminal_card:
  assumes d: "durable tp R db cps rs"
  shows "inj_on TRTerminalSequence (terminal_rows db R)"
proof -
  note D = durableD [OF d]
  have inj: "inj_on TRTaskID (terminal_rows db R)"
    using D(4) by (auto simp: rows_match_def distinct_map terminal_rows_def intro: inj_on_subset)
  have "TRTaskID ` terminal_rows db R = {i. \<exists>s. task_status_of rs i = Some s \<and> IsTerminal s}"
  proof (intro equalityI subsetI)
    fix i assume "i \<in> TRTaskID ` terminal_rows db R"
    then obtain r where "r \<in> set (run_rows db R)" "IsTerminal (TRStatus r)" "i = TRTaskID r"
      by (auto simp: terminal_rows_def)
    with rows_match_row [OF D(4), of r] show "i \<in> {i. \<exists>s. task_status_of rs i = Some s \<and> IsTerminal s}" by simp
  next
    fix i assume i: "i \<in> {i. \<exists>s. task_status_of rs i = Some s \<and> IsTerminal s}"
    then have "i \<in> fst ` set (tasks rs)" by (force simp: task_status_of_def dest: map_of_SomeD)
    then have "i \<in> TRTaskID ` set (run_rows db R)" using D(4,8) by (simp add: rows_match_def keys_ok_def)
    then obtain r where r: "r \<in> set (run_rows db R)" "TRTaskID r = i" by auto
    have "\<not> is_open rs i" using i by (auto simp: is_open_status)
    with rows_match_row(1) [OF D(4) r(1)] r show "i \<in> TRTaskID ` terminal_rows db R" by (force simp: terminal_rows_def)
  qed
  then have "int (card (terminal_rows db R)) = terminalCount rs"
    using card_image [OF inj] terminalCount_card(1) [OF D(2)] by simp
  moreover have "card (TRTerminalSequence ` terminal_rows db R) = nat (seq rs)" using D(4) by (simp add: rows_match_def)
  moreover have "finite (terminal_rows db R)" by (simp add: terminal_rows_def)
  ultimately show ?thesis using D(6,7) by (intro eq_card_imp_inj_on) auto
qed

lemma TerminalTaskRunsSince_set:
  "set (TerminalTaskRunsSince (db_task_runs db) R n) = {r \<in> terminal_rows db R. n < TRTerminalSequence r}"
proof -
  have "TRStatus r \<in> {TaskStatusSucceeded, TaskStatusFailed, TaskStatusSkipped, TaskStatusCached, TaskStatusCancelled}
      \<longleftrightarrow> IsTerminal (TRStatus r)" for r
    by (auto simp: IsTerminal_iff_terminalStatusStrings terminalStatusStrings_def)
  then show ?thesis by (auto simp: TerminalTaskRunsSince_def terminal_rows_def run_rows_def)
qed

lemma durable_recovery_input:
  assumes d: "durable tp R db cps rs" and b: "base_match tp R db cps rs0 rs"
  shows "recovery_input tp rs0 rs (LatestFullCheckpoint cps R)
    (TerminalTaskRunsSince (db_task_runs db) R (seq rs0))"
proof -
  let ?rows = "TerminalTaskRunsSince (db_task_runs db) R (seq rs0)"
  note D = durableD [OF d]
  have set: "set ?rows = {r \<in> terminal_rows db R. is_open rs0 (TRTaskID r)}"
    using b by (auto simp: TerminalTaskRunsSince_set base_match_def)
  have dist: "distinct (map TRTaskID (run_rows db R))" using D(4) by (simp add: rows_match_def)
  define raw where "raw = filter (\<lambda>r. TRTerminalSequence r > seq rs0
        \<and> TRStatus r \<in> set [TaskStatusSucceeded, TaskStatusFailed, TaskStatusSkipped,
                            TaskStatusCached, TaskStatusCancelled]) (run_rows db R)"
  have rows: "?rows = sort_key TRTerminalSequence raw"
    by (simp add: TerminalTaskRunsSince_def raw_def run_rows_def conj_commute)
  have raw: "set raw = {r \<in> terminal_rows db R. seq rs0 < TRTerminalSequence r}" "distinct (map TRTaskID raw)"
    using TerminalTaskRunsSince_set [of db R "seq rs0"] dist unfolding rows
    by (simp_all add: raw_def distinct_map_filter)
  have img: "TRTerminalSequence ` set raw = {seq rs0 + 1 .. seq rs}"
  proof -
    have "TRTerminalSequence ` set raw = {n \<in> TRTerminalSequence ` terminal_rows db R. seq rs0 < n}"
      unfolding raw by auto
    then show ?thesis using D(4) b by (auto simp: rows_match_def base_match_def)
  qed
  have seqs: "map TRTerminalSequence ?rows = [seq rs0 + 1 .. seq rs]"
    unfolding rows
    by (rule sorted_key_seq)
       (use raw img inj_on_subset [OF durable_terminal_card [OF d]] in \<open>auto simp: distinct_map\<close>)
  have ids: "distinct (map TRTaskID ?rows)" unfolding rows by (rule distinct_sort_key_map [OF raw(2)])
  have stat: "task_status_of rs (TRTaskID r) = Some (TRStatus r)" if "r \<in> terminal_rows db R" for r
    using rows_match_row [OF D(4), of r] that by (simp add: terminal_rows_def)
  have cover: "i \<in> TRTaskID ` set ?rows" if i: "is_open rs0 i" "\<not> is_open rs i" for i
  proof -
    have "keys_ok tp rs0" using b by (simp add: base_match_def rs_inv_def rs_inv_lag_def)
    moreover have "i \<in> fst ` set (tasks rs0)" using i(1) by (force simp: is_open_def split: option.splits dest: map_of_SomeD)
    ultimately have "i \<in> TRTaskID ` set (run_rows db R)" using D(4) by (simp add: rows_match_def keys_ok_def)
    then obtain r where r: "r \<in> set (run_rows db R)" "TRTaskID r = i" by auto
    with rows_match_row(1) [OF D(4) r(1)] i(2) have "IsTerminal (TRStatus r)" by simp
    with r i(1) show ?thesis unfolding set by (force simp: terminal_rows_def)
  qed
  show ?thesis
    unfolding recovery_input_def
    using b ids seqs stat cover set by (auto simp: base_match_def terminal_rows_def)
qed

text \<open>The database side depends on the memory through the terminal statuses and the sequence only.\<close>

lemma durable_same:
  assumes d: "durable tp R db cps rs" and inv: "rs_inv tp rs'" "seq rs' = seq rs"
    and same: "\<And>i s. IsTerminal s \<Longrightarrow> task_status_of rs' i = Some s \<longleftrightarrow> task_status_of rs i = Some s"
  shows "durable tp R db cps rs'"
proof -
  note D = durableD [OF d]
  obtain rs0 where b: "base_match tp R db cps rs0 rs" using d by (auto simp: durable_def)
  have det: "is_open rs' = is_open rs" "settled rs' = settled rs" "terminalCount rs' = terminalCount rs"
    by (rule rs_inv_determined [OF inv(1) D(2)], rule same, assumption)+
  have st: "task_status_of rs' i = task_status_of rs i" if "\<not> is_open rs i" "task_status_of rs i \<noteq> None" for i
    using that same [of "the (task_status_of rs i)" i] by (auto simp: is_open_status)
  have k: "keys_ok tp rs'" using inv by (simp add: rs_inv_def rs_inv_lag_def)
  have "rows_match tp R db rs'"
    unfolding rows_match_def
  proof (intro conjI ballI)
    fix x assume x: "x \<in> set (run_rows db R)"
    show "if is_open rs' (TRTaskID x) then \<not> IsTerminal (TRStatus x)
        else task_status_of rs' (TRTaskID x) = Some (TRStatus x)"
      unfolding det(1) using rows_match_row [OF D(4) x] st [of "TRTaskID x"] by simp
  qed (use D(4) inv(2) in \<open>simp_all add: rows_match_def\<close>)
  moreover have "extends rs0 rs'"
  proof -
    have n: "task_status_of rs' i = None \<longleftrightarrow> task_status_of rs i = None" for i
      using k D(8) map_of_eq_None_iff [of "tasks rs'" i] map_of_eq_None_iff [of "tasks rs" i]
      by (simp add: task_status_of_def keys_ok_def)
    have "extends rs rs'"
      unfolding extends_def
    proof (intro conjI allI impI)
      show "topo rs' = topo rs" using k D(8) by (simp add: keys_ok_def)
      fix i assume "\<not> is_open rs i"
      with st [of i] n [of i] show "task_status_of rs' i = task_status_of rs i" by (cases "task_status_of rs i") simp_all
    qed
    with b show ?thesis by (auto simp: base_match_def intro: extends_trans)
  qed
  ultimately show ?thesis
    using D b det(2,3) inv by (auto simp: durable_def base_match_def intro!: exI [of _ rs0])
qed

lemma recovered_durable: "durable tp R db cps rs \<Longrightarrow> recovered tp rs rs' res \<Longrightarrow> durable tp R db cps rs'"
  by (erule durable_same) (simp_all add: recovered_def)

lemma relabels_durable:
  assumes "durable tp R db cps rs" "relabels tp rs rs'"
  shows "durable tp R db cps rs'"
  using assms(1)
proof (rule durable_same)
  show "rs_inv tp rs'" "seq rs' = seq rs" using assms(2) by (simp_all add: relabels_def)
  show "task_status_of rs' i = Some s \<longleftrightarrow> task_status_of rs i = Some s" if "IsTerminal s" for i s
    by (rule relabels_extends(2) [OF durableD(2) [OF assms(1)] assms(2) that])
qed

end
