(* ===== verification/Owner_Takeover.thy ===== *)
theory Owner_Takeover
  imports Owner_Manager
begin

text \<open>
  Crashes and takeovers of an owned run: the operations of the owner and of its workers, the
  loss of the owner's memory and the recovery by the next owner, as one step relation on the
  node, and the theorem that a takeover gives back the state the crashed owner had.
\<close>

section \<open>The topology is fixed while a run executes\<close>











section \<open>What the workers do to the rows\<close>






section \<open>Takeover gives the state back\<close>


lemma NewCheckpointWriter_run [simp]: "CWRunID (NewCheckpointWriter R cfg now) = R"
  by (simp add: NewCheckpointWriter_def Let_def)


section \<open>The life of an owned run\<close>


definition owner_inv :: "run_topology \<Rightarrow> uuid \<Rightarrow> owner_node \<Rightarrow> bool" where
  "owner_inv tp R n \<longleftrightarrow> LoadRunTopology (on_db n) R = Inr tp
     \<and> (\<exists>rs. durable tp R (on_db n) (on_cps n) rs
          \<and> (\<forall>own. on_runs n R = Some own \<longrightarrow> OState own = rs \<and> CWRunID (OWriter own) = R))"

text \<open>
  The start: the run is adopted, its topology loads, it has one row per task, none of them
  terminal, and no checkpoint.
\<close>

definition owner_start :: "run_topology \<Rightarrow> uuid \<Rightarrow> owner_node \<Rightarrow> bool" where
  "owner_start tp R n \<longleftrightarrow> (\<exists>g now n0. n = fst (Adopt R g now n0) \<and> on_runs n0 R = None
     \<and> LoadRunTopology (on_db n0) R = Inr tp
     \<and> distinct (map TRTaskID (run_rows (on_db n0) R)) \<and> TRTaskID ` set (run_rows (on_db n0) R) = topo_keys tp
     \<and> terminal_rows (on_db n0) R = {} \<and> checkpoints_ok (on_cps n0) \<and> LatestFullCheckpoint (on_cps n0) R = None)"

lemma fresh_durable:
  assumes wf: "topo_wf tp" and rows: "distinct (map TRTaskID (run_rows db R))"
      "TRTaskID ` set (run_rows db R) = topo_keys tp" "terminal_rows db R = {}"
    and cps: "checkpoints_ok cps" "LatestFullCheckpoint cps R = None"
  shows "durable tp R db cps (NewRunState tp 0)"
proof -
  note N = NewRunState_inv [OF wf, of 0]
  have op: "is_open (NewRunState tp 0) i \<longleftrightarrow> i \<in> topo_keys tp" for i
    by (auto simp: is_open_status N(3))
  have "terminalCount (NewRunState tp 0) = 0"
    by (rule NewRunState_shape [OF wf, of 0]) simp
  moreover have "rows_match tp R db (NewRunState tp 0)"
    using rows by (auto simp: rows_match_def op terminal_rows_def N(5))
  moreover have "base_match tp R db cps (NewRunState tp 0) (NewRunState tp 0)"
    using cps N rows(3) by (simp add: base_match_def extends_refl)
  ultimately show ?thesis using wf N cps by (auto simp: durable_def)
qed

lemma owner_invI:
  assumes "LoadRunTopology (on_db n) R = Inr tp" "durable tp R (on_db n) (on_cps n) rs"
    and "\<And>own. on_runs n R = Some own \<Longrightarrow> OState own = rs \<and> CWRunID (OWriter own) = R"
  shows "owner_inv tp R n"
  using assms by (auto simp: owner_inv_def)

lemma owner_start_inv: "owner_start tp R n \<Longrightarrow> owner_inv tp R n"
  by (auto simp: owner_start_def Adopt_def om_get_def om_put_def
      intro!: owner_invI [of _ R tp "NewRunState tp 0"] fresh_durable LoadRunTopology_topo_wf)



lemma foldl_skip_row_keeps [simp]:
  "TRCreatedAt (foldl (\<lambda>r sk. skip_row R g now sk r) r sks) = TRCreatedAt r"
  "TRExecutionDescriptor (foldl (\<lambda>r sk. skip_row R g now sk r) r sks) = TRExecutionDescriptor r"
  by (induction sks arbitrary: r) (simp_all add: skip_row_def owner_skip_columns_def)

lemma owner_columns_keeps [simp]:
  "TRCreatedAt (owner_columns s res em out sels sq g now r) = TRCreatedAt r"
  "TRExecutionDescriptor (owner_columns s res em out sels sq g now r) = TRExecutionDescriptor r"
  by (simp_all add: owner_columns_def Let_def)




lemma owner_invD:
  assumes "owner_inv tp R n" "on_runs n R = Some own"
  shows "LoadRunTopology (on_db n) R = Inr tp" "durable tp R (on_db n) (on_cps n) (OState own)"
    "CWRunID (OWriter own) = R"
  using assms by (auto simp: owner_inv_def)



lemma Complete_task_runs: "db_task_runs (best_effort (Complete R res now) db) = db_task_runs db"
  by (auto simp: best_effort_def Complete_def completeTx_def the_job_run_def tx_simps Let_def split: sum.splits option.splits if_splits)

text \<open>The parts of a completion that was written.\<close>

lemma om_Complete_cases:
  assumes own: "on_runs n R = Some own"
    and run: "om_Complete ustr R t s result em c out sels f now n = (n', Inr cr)"
  obtains bs rs1 res u db1 w1 cps1 where
    "(if sels = [] then Inr [] else ResolveBranchSkips ustr (on_db n) R t sels) = Inr bs"
    "ApplyCompletion (OState own) t s bs = (rs1, res)"
    "CompleteTaskOwner R t s result em c out sels (ResTerminalSequence res) (OGen own) (ResSkipped res) now (on_db n)
       = Inr (u, db1)"
    "try_maybe (checkpoint_fault f) (OWriter own) (on_cps n) rs1 (OGen own) now = (w1, cps1)"
    "cr = \<lparr>CRReady = ResReady res, CRComplete = ResComplete res, CROwned = True\<rparr>"
    "n' = (let n2 = (set_run R (own\<lparr>OState := rs1, OWriter := w1\<rparr>) n)\<lparr>on_db := db1, on_cps := cps1\<rparr>
           in if ResComplete res
              then Drop R (checkpoint_fault f) now (n2\<lparr>on_db := finalize_run ustr R (HasFailures rs1) now (on_db n2)\<rparr>)
              else n2)"
  using run own
  by (auto simp: om_Complete_def om_get_def Let_def split: sum.splits prod.splits option.splits if_splits)






section \<open>An example node\<close>

text \<open>
  Run 10 of job 5 with the diamond of tasks 1 to 4; a worker holds task 1, reports it, and
  then the owner crashes.
\<close>

definition example_db :: store_db where
  "example_db = (sample_db [sample_run 10 5]
       [(sample_row 10 1 TaskStatusRunning)\<lparr>TRClaimedBy := ''w''\<rparr>, sample_row 10 2 TaskStatusPending,
        sample_row 10 3 TaskStatusPending, sample_row 10 4 TaskStatusPending])\<lparr>
     db_tasks := map (\<lambda>t. sample_task 5 t '''' ''task'') [1, 2, 3, 4],
     db_task_edges := map (\<lambda>(a, b). \<lparr>TEJobID = 5, TEFromTaskID = a, TEToTaskID = b\<rparr>) [(1, 2), (1, 3), (2, 4), (3, 4)]\<rparr>"

definition example_node :: owner_node where
  "example_node = fst (Adopt 10 1 0 \<lparr>on_cfg = \<lparr>Events = 0, Interval = 0, KeepFulls = 0\<rparr>,
     on_runs = (\<lambda>_. None), on_db = example_db, on_cps = []\<rparr>)"

definition example_topology :: run_topology where
  "example_topology = catalogTopology example_db 5"


lemma example_start: "owner_start example_topology 10 example_node"
proof -
  have "topo_keys example_topology = {1, 2, 3, 4}"
    using catalogTopology_wf [of example_db 5] by (simp add: example_topology_def example_db_def sample_defs job_tasks_def)
  then show ?thesis
    unfolding owner_start_def example_node_def
    by (intro exI [of _ 1] exI [of _ 0] exI [of _ "\<lparr>on_cfg = \<lparr>Events = 0, Interval = 0, KeepFulls = 0\<rparr>,
          on_runs = (\<lambda>_. None), on_db = example_db, on_cps = []\<rparr>"])
       (auto simp: LoadRunTopology_def example_topology_def example_db_def run_rows_def terminal_rows_def
          sample_defs checkpoints_ok_def LatestFullCheckpoint_def full_checkpoints_def)
qed


lemma example_owned: "on_runs example_node 10 = Some (the (on_runs example_node 10))"
  "OState (the (on_runs example_node 10)) = NewRunState example_topology 0"
proof -
  have "LoadRunTopology example_db 10 = Inr example_topology"
    by (simp add: LoadRunTopology_def example_topology_def example_db_def sample_defs)
  then show "on_runs example_node 10 = Some (the (on_runs example_node 10))"
    "OState (the (on_runs example_node 10)) = NewRunState example_topology 0"
    by (simp_all add: example_node_def Adopt_def om_get_def om_put_def)
qed

lemma example_open: "is_open (OState (the (on_runs example_node 10))) 1"
  unfolding is_open_def by code_simp




section \<open>Properties\<close>



text \<open>
  C28. A completion whose durable write fails is not undone in memory: the database is left as it
  was, while the engine has the task finished with the reported status, so that memory and
  database disagree until the report is delivered again.
\<close>

theorem failed_write_ahead:
  assumes "owner_inv tp R n" "on_runs n R = Some own" "is_open (OState own) t" "IsTerminal s"
    and "om_Complete ustr R t s result em c out [] f now n = (n', Inl e)"
  shows "on_db n' = on_db n \<and> (\<exists>own'. on_runs n' R = Some own' \<and> task_status_of (OState own') t = Some s)
    \<and> {r \<in> set (run_rows (on_db n') R). TRTaskID r = t \<and> IsTerminal (TRStatus r)} = {}"
proof -
  note I = owner_invD [OF assms(1,2)]
  note D = durableD [OF I(2)]
  obtain rs1 res where a: "ApplyCompletion (OState own) t s [] = (rs1, res)" by fastforce
  have n': "n' = set_run R (own\<lparr>OState := rs1\<rparr>) n"
    using assms(2,5) by (auto simp: om_Complete_def om_get_def a Let_def split: sum.splits prod.splits option.splits)
  have "task_status_of rs1 t = Some s"
    using completion_effectD(1) [OF ApplyCompletion_inv(3) [OF D(1-3) assms(3,4) a]] by simp
  with rows_match_row(1) [OF D(4)] assms(3) show ?thesis by (auto simp: n' set_run_def)
qed

theorem failed_write_ahead_witness:
  "let n' = fst (om_Complete (\<lambda>_. '''') 10 1 TaskStatusSucceeded ''ok'' '''' ''stale'' [] [] no_faults 5 example_node)
   in on_db n' = on_db example_node
      \<and> (\<exists>own'. on_runs n' 10 = Some own' \<and> task_status_of (OState own') 1 = Some TaskStatusSucceeded)
      \<and> {r \<in> set (run_rows (on_db n') 10). TRTaskID r = 1 \<and> IsTerminal (TRStatus r)} = {}"
proof -
  let ?x = "om_Complete (\<lambda>_. '''') 10 1 TaskStatusSucceeded ''ok'' '''' ''stale'' [] [] no_faults 5 example_node"
  have "snd ?x = Inl ErrTaskClaimMismatch" by code_simp
  then have "?x = (fst ?x, Inl ErrTaskClaimMismatch)" by (simp add: prod_eq_iff)
  from failed_write_ahead [OF owner_start_inv [OF example_start] example_owned(1) example_open _ this]
  show ?thesis by (simp add: Let_def)
qed

text \<open>
  C29. A report for a task that the engine has already finished, be it a duplicate or the retry of
  a report whose write failed, is written with sequence number 0: the task's row is terminal
  afterwards but not among the rows that a recovery without checkpoint reads, and no other row
  of the run is written, so the tasks that the engine skipped with the first report stay open in
  the database. Nothing is assumed of the owner's memory but that the task is finished in it; in
  the table each task of the run has one row.
\<close>

theorem repeated_report_hides_row:
  assumes "distinct (map TRTaskID (run_rows (on_db n) R))" "on_runs n R = Some own" "\<not> is_open (OState own) t" "IsTerminal s"
    and "om_Complete ustr R t s result em c out sels f now n = (n', Inr cr)"
  shows "(\<exists>r \<in> set (run_rows (on_db n') R). TRTaskID r = t \<and> TRStatus r = s \<and> TRTerminalSequence r = 0)
    \<and> t \<notin> TRTaskID ` set (TerminalTaskRunsSince (db_task_runs (on_db n')) R 0)
    \<and> filter (\<lambda>r. TRTaskID r \<noteq> t) (run_rows (on_db n') R) = filter (\<lambda>r. TRTaskID r \<noteq> t) (run_rows (on_db n) R)"
proof -
  obtain bs rs1 res u db1 w1 cps1 where C: "ApplyCompletion (OState own) t s bs = (rs1, res)"
      "CompleteTaskOwner R t s result em c out sels (ResTerminalSequence res) (OGen own) (ResSkipped res) now (on_db n)
         = Inr (u, db1)"
    and n': "n' = (let n2 = (set_run R (own\<lparr>OState := rs1, OWriter := w1\<rparr>) n)\<lparr>on_db := db1, on_cps := cps1\<rparr>
           in if ResComplete res
              then Drop R (checkpoint_fault f) now (n2\<lparr>on_db := finalize_run ustr R (HasFailures rs1) now (on_db n2)\<rparr>)
              else n2)"
    by (rule om_Complete_cases [OF assms(2,5)]) blast
  have res: "ResTerminalSequence res = 0" "ResSkipped res = []"
    using C(1) ApplyCompletion_closed [OF assms(3), of s bs] by auto
  let ?cols = "owner_columns s result em out sels 0 (OGen own) now"
  note W = CompleteTaskOwner_rows [OF C(2), unfolded res]
  obtain r0 where r0: "r0 \<in> set (db_task_runs (on_db n))" "claim_row R t c True r0" using W(2) by blast
  have uniq: "r = r0" if "r \<in> set (run_rows (on_db n) R)" "TRTaskID r = t" for r
    using that r0 assms(1) by (auto simp: distinct_map run_rows_def claim_row_def is_row_def dest: inj_onD)
  have rr: "run_rows db1 R = map (owner_row R t c ?cols (OGen own) now []) (run_rows (on_db n) R)"
    by (rule run_rows_map [OF W(1)]) simp
  have ex: "\<exists>r \<in> set (run_rows db1 R). TRTaskID r = t \<and> TRStatus r = s \<and> TRTerminalSequence r = 0"
  proof (rule bexI)
    show "owner_row R t c ?cols (OGen own) now [] r0 \<in> set (run_rows db1 R)"
      using r0 unfolding rr by (auto simp: run_rows_def claim_row_def is_row_def)
  qed (use r0 in \<open>simp add: owner_row_def claim_row_def is_row_def\<close>)
  have all: "TRStatus r = s \<and> TRTerminalSequence r = 0"
    if r: "r \<in> set (run_rows db1 R)" "TRTaskID r = t" for r
  proof -
    obtain q where q: "q \<in> set (run_rows (on_db n) R)" "r = owner_row R t c ?cols (OGen own) now [] q"
      using r(1) unfolding rr by auto
    with r(2) have "q = r0" by (intro uniq) auto
    with q r0 show ?thesis by (simp add: owner_row_def)
  qed
  have same: "run_rows (on_db n') R = run_rows db1 R"
    unfolding n' Let_def
    by (auto simp: Drop_def om_get_def set_run_def finalize_run_def run_rows_def Complete_task_runs split: option.splits)
  have "owner_row R t c ?cols (OGen own) now [] q = q" if "TRTaskID q \<noteq> t" for q
    using that by (simp add: owner_row_def claim_row_def is_row_def)
  then have "filter (\<lambda>r. TRTaskID r \<noteq> t) (map (owner_row R t c ?cols (OGen own) now []) qs) = filter (\<lambda>r. TRTaskID r \<noteq> t) qs" for qs
    by (induction qs) auto
  then have others: "filter (\<lambda>r. TRTaskID r \<noteq> t) (run_rows (on_db n') R) = filter (\<lambda>r. TRTaskID r \<noteq> t) (run_rows (on_db n) R)"
    unfolding same rr by blast
  have "t \<notin> TRTaskID ` set (TerminalTaskRunsSince (db_task_runs (on_db n')) R 0)"
    unfolding TerminalTaskRunsSince_set terminal_rows_def same using all by auto
  with ex others show ?thesis unfolding same by blast
qed

text \<open>The report of task 1 fails to be written, is delivered again, and is written then.\<close>

definition example_failed :: owner_node where
  "example_failed = fst (om_Complete (\<lambda>_. '''') 10 1 TaskStatusSucceeded ''ok'' '''' ''w'' [] []
     (no_faults\<lparr>write_fault := Some (StoreErr ''database is locked'')\<rparr>) 5 example_node)"

theorem repeated_report_hides_row_witness:
  "let n' = fst (om_Complete (\<lambda>_. '''') 10 1 TaskStatusSucceeded ''ok'' '''' ''w'' [] [] no_faults 6 example_failed)
   in (\<exists>r \<in> set (run_rows (on_db n') 10). TRTaskID r = 1 \<and> TRStatus r = TaskStatusSucceeded \<and> TRTerminalSequence r = 0)
      \<and> 1 \<notin> TRTaskID ` set (TerminalTaskRunsSince (db_task_runs (on_db n')) 10 0)"
proof -
  let ?x = "om_Complete (\<lambda>_. '''') 10 1 TaskStatusSucceeded ''ok'' '''' ''w'' [] [] no_faults 6 example_failed"
  have "snd ?x = Inr \<lparr>CRReady = [], CRComplete = False, CROwned = True\<rparr>" unfolding example_failed_def by code_simp
  then have x: "?x = (fst ?x, Inr \<lparr>CRReady = [], CRComplete = False, CROwned = True\<rparr>)" by (simp add: prod_eq_iff)
  have "\<not> Option.is_none (on_runs example_failed 10)" unfolding example_failed_def by code_simp
  then have own: "on_runs example_failed 10 = Some (the (on_runs example_failed 10))" by (simp add: Option.is_none_def)
  have closed: "\<not> is_open (OState (the (on_runs example_failed 10))) 1"
    unfolding is_open_def example_failed_def by code_simp
  have "distinct (map TRTaskID (run_rows (on_db example_failed) 10))" unfolding example_failed_def by code_simp
  from repeated_report_hides_row [OF this own closed _ x] show ?thesis by (simp add: Let_def)
qed

end
