(* ===== verification/Run_Queue.thy ===== *)
theory Run_Queue
  imports Run_Store
begin

text \<open>
  The dequeuer of the run queue (\<open>internal/runqueue/dequeuer.go\<close>): on the leader, every tick
  gives back stale claims and starts queued runs of each job while the job has free slots.
\<close>

section \<open>Configuration\<close>

record dequeuer =
  DQNodeID :: string
  DQInterval :: int
  DQStaleClaimThreshold :: int
  DQLease :: "(string \<times> int) option"
  DQMaxDepth :: int

definition NewDequeuer :: "string \<Rightarrow> int \<Rightarrow> int \<Rightarrow> (string \<times> int) option \<Rightarrow> int \<Rightarrow> dequeuer" where
  "NewDequeuer nodeID0 interval stale lease maxDepth =
     (let nodeID = TrimSpace nodeID0
      in \<lparr>DQNodeID = (if nodeID = '''' then ''runqueue'' else nodeID),
          DQInterval = (if interval \<le> 0 then 1000000000 else interval),
          DQStaleClaimThreshold = (if stale \<le> 0 then 2 * 60 * 1000000000 else stale),
          DQLease = lease, DQMaxDepth = maxDepth\<rparr>)"

text \<open>
  The limit of a job whose strategy is to queue. A decoded \<open>null\<close> is an absent column; other
  strategies have no queue to drain.
\<close>

definition loadConcurrencyConfig :: "uuid \<Rightarrow> int option tx" where
  "loadConcurrencyConfig jobID =
     tx_bind (tx_read (\<lambda>db. find (\<lambda>m. JMID m = jobID) (db_jobs db))) (\<lambda>job.
       case job of
         None \<Rightarrow> tx_ok None
       | Some m \<Rightarrow> (case JMConcurrency m of
             NoConcurrency \<Rightarrow> tx_ok None
           | UndecodableConcurrency e \<Rightarrow> tx_fail (StoreErr e)
           | Concurrency maxRuns strategy0 \<Rightarrow>
               let strategy = ToLower (TrimSpace strategy0)
               in if strategy = '''' \<or> strategy = ConcurrencyStrategyQueue then tx_ok (Some maxRuns) else tx_ok None))"

section \<open>Draining\<close>

definition reclaimStaleClaims :: "dequeuer \<Rightarrow> timestamp \<Rightarrow> unit tx" where
  "reclaimStaleClaims d now =
     (let cutoff = now - DQStaleClaimThreshold d
      in tx_modify (\<lambda>db. db\<lparr>db_run_queue := update_where
           (\<lambda>q. RQClaimedBy q \<noteq> '''' \<and> (case RQClaimedAt q of None \<Rightarrow> True | Some t \<Rightarrow> t < cutoff))
           (\<lambda>q. q\<lparr>RQClaimedBy := '''', RQClaimedAt := None\<rparr>) (db_run_queue db)\<rparr>))"

text \<open>Handing a started run to the executor; only the lookup of its job can fail.\<close>

definition launch :: "job_run \<Rightarrow> job_model tx" where
  "launch started = tx_first db_jobs (\<lambda>m. JMID m = JRJobID started)"

text \<open>
  What one turn of the loop draws from outside: the random part of the claim name, the id of
  the new run and the clock.
\<close>

record drain_draw =
  DrClaim :: string
  DrRunID :: uuid
  DrNow :: timestamp

definition drain_claim :: "dequeuer \<Rightarrow> drain_draw \<Rightarrow> string" where
  "drain_claim d w = DQNodeID d @ ''/'' @ DrClaim w"

definition unclaimed_count :: "uuid \<Rightarrow> store_db \<Rightarrow> nat" where
  "unclaimed_count jobID db = length (filter (unclaimed jobID) (db_run_queue db))"

section \<open>Each turn takes a run off the queue\<close>

lemma TrimSpace_not_blank: "c \<in> set s \<Longrightarrow> \<not> is_go_space c \<Longrightarrow> TrimSpace s \<noteq> ''''"
proof -
  assume c: "c \<in> set s" "\<not> is_go_space c"
  then have "dropWhile is_go_space s \<noteq> []" by (auto simp: dropWhile_eq_Nil_conv)
  then have "\<not> is_go_space (hd (dropWhile is_go_space s))" "hd (dropWhile is_go_space s) \<in> set (dropWhile is_go_space s)"
    using hd_dropWhile hd_in_set by blast+
  then have "dropWhile is_go_space (rev (dropWhile is_go_space s)) \<noteq> []"
    unfolding dropWhile_eq_Nil_conv by auto
  then show ?thesis by (simp add: TrimSpace_def)
qed

lemma drain_claim_not_blank: "TrimSpace (drain_claim d w) \<noteq> ''''"
  by (rule TrimSpace_not_blank [of "CHR ''/''"]) (auto simp: drain_claim_def is_go_space_def)

lemma count_claimed_less:
  assumes "q \<in> set qs" "unclaimed j q" "\<And>r. \<not> unclaimed j (f r)"
  shows "length (filter (unclaimed j) (update_where (\<lambda>r. RQID r = RQID q \<and> RQClaimedBy r = '''') f qs))
       < length (filter (unclaimed j) qs)"
  using assms(1)
proof (induction qs)
  case (Cons x xs)
  have le: "length (filter (unclaimed j) (update_where (\<lambda>r. RQID r = RQID q \<and> RQClaimedBy r = '''') f xs))
       \<le> length (filter (unclaimed j) xs)"
    by (rule count_update_where_le) (simp add: assms(3))
  show ?case
  proof (cases "x = q")
    case True
    then have "unclaimed j x" "RQClaimedBy x = ''''" using assms(2) by (simp_all add: unclaimed_def)
    with True le assms(3) show ?thesis by simp
  next
    case False
    with Cons have "length (filter (unclaimed j) (update_where (\<lambda>r. RQID r = RQID q \<and> RQClaimedBy r = '''') f xs))
       < length (filter (unclaimed j) xs)" by simp
    with assms(3) show ?thesis by simp
  qed
qed simp

lemma Dequeue_count:
  assumes "DequeueNextRun jobID c fresh now db = Inr (Some q, db1)" "TrimSpace c \<noteq> ''''"
  shows "unclaimed_count jobID db1 < unclaimed_count jobID db"
proof -
  obtain q0 rest where o: "queue_order jobID (db_run_queue db) = q0 # rest"
    using assms(1) by (auto simp: DequeueNextRun_def Let_def split: list.splits)
  let ?f = "\<lambda>r. r\<lparr>RQClaimedBy := TrimSpace c, RQClaimedAt := Some now\<rparr>"
  have "db_run_queue db1 = update_where (\<lambda>r. RQID r = RQID q0 \<and> RQClaimedBy r = '''') ?f (db_run_queue db)"
    using assms o by (auto simp: DequeueNextRun_def Let_def split: option.splits)
  then show ?thesis
    unfolding unclaimed_count_def
    using count_claimed_less [OF queue_order_hd(1,2) [OF o], of ?f] assms(2) by (simp add: unclaimed_def)
qed


text \<open>Starting a queued run leaves the queue alone: it is never queued again.\<close>

definition same_queue :: "store_db \<Rightarrow> store_db \<Rightarrow> bool" where
  "same_queue db db' \<longleftrightarrow> db_run_queue db' = db_run_queue db"

interpretation same_queue: tx_order same_queue
  by unfold_locales (simp_all add: same_queue_def)

lemma same_queue_modify:
  "(\<And>db. db_run_queue (f db) = db_run_queue db) \<Longrightarrow> tx_rel same_queue (tx_modify f)"
  "tx_rel same_queue (update_job_runs P g)"
  by (simp_all add: tx_rel_def tx_modify_def same_queue_def update_job_runs_def)

lemmas same_queue_intros = same_queue.rel_bind same_queue.rel_basic same_queue_modify

lemma same_queue_cancel: "tx_rel same_queue (cancelRunTx runID reason now)"
  unfolding cancelRunTx_def the_job_run_def Let_def
  by (auto intro!: same_queue_intros split: if_splits)

lemma same_queue_cancelOldest: "tx_rel same_queue (cancelOldestActiveRunTx jobID now)"
  unfolding tx_rel_def cancelOldestActiveRunTx_def
  by (auto simp: same_queue.R_refl split: list.splits dest: tx_relD [OF same_queue_cancel])

lemma same_queue_insert: "tx_rel same_queue (insertRunIfSlotTx model n)"
  by (auto simp: tx_rel_def insertRunIfSlotTx_def same_queue_def split: if_splits)

lemma same_queue_config: "tx_rel same_queue (concurrencyConfigTx jobID)"
  unfolding concurrencyConfigTx_def Let_def
  by (auto intro!: same_queue_intros split: option.splits concurrency_column.splits)

lemma same_queue_admit: "SRFromQueue req \<Longrightarrow> tx_rel same_queue (admit model req queueID maxDepth now)"
  unfolding admit_def Let_def
  by (auto intro!: same_queue_intros same_queue_config same_queue_insert same_queue_cancelOldest)

lemma same_queue_priority: "tx_rel same_queue (startPriorityTx jobID p)"
  unfolding startPriorityTx_def priority_tx_def
  by (auto intro!: same_queue_intros split: option.splits sum.splits priority_error.splits)

lemma same_queue_finish: "tx_rel same_queue (finish_start req model result)"
  unfolding finish_start_def
  by (auto intro!: same_queue_intros split: admission_decision.splits)

lemma startRun_same_queue:
  assumes "SRFromQueue req"
  shows "db_run_queue (fst (startRun lease req newID queueID maxDepth now db)) = db_run_queue db"
proof -
  have "tx_rel same_queue (startRunTx req newID queueID maxDepth now)"
    unfolding startRunTx_def Let_def
    by (intro same_queue.rel_bind same_queue_priority same_queue_admit same_queue_finish assms)
  then show ?thesis
    by (auto simp: startRun_def Let_def same_queue_def split: sum.splits admission_decision.splits option.splits
        dest: tx_relD)
qed

lemma StartQueuedRun_same_queue:
  "StartQueuedRun lease queued newID queueID maxDepth now db = (db', r) \<Longrightarrow> db_run_queue db' = db_run_queue db"
  using startRun_same_queue [of "\<lparr>SRJobID = RQJobID queued, SRTriggerID = None, SRBackfillID = None,
      SRParams = RQParams queued, SRPriorityOverride = PriorityLabel (RQPriority queued), SRFromQueue = True,
      SRPolicyOnly = False\<rparr>" lease newID queueID maxDepth now db]
  by (simp add: StartQueuedRun_def)

lemma drain_turn_count:
  assumes "DequeueNextRun jobID (drain_claim d w) fresh now db = Inr (Some q, db1)"
    and "StartQueuedRun lease queued newID queueID maxDepth now' db1 = (db2, r)"
    and "DeleteQueuedRun i db2 = Inr (u, db3)"
  shows "unclaimed_count jobID db3 < unclaimed_count jobID db"
proof -
  have "unclaimed_count jobID db3 \<le> unclaimed_count jobID db2"
    using assms(3) by (auto simp: DeleteQueuedRun_def tx_modify_def unclaimed_count_def intro!: length_filter_mono)
  also have "\<dots> = unclaimed_count jobID db1"
    using StartQueuedRun_same_queue [OF assms(2)] by (simp add: unclaimed_count_def)
  also have "\<dots> < unclaimed_count jobID db" by (rule Dequeue_count [OF assms(1) drain_claim_not_blank])
  finally show ?thesis .
qed

section \<open>Draining a job\<close>

text \<open>Each turn claims an unclaimed run of the job, so the loop ends.\<close>

function drain_loop ::
    "dequeuer \<Rightarrow> uuid \<Rightarrow> int \<Rightarrow> (nat \<Rightarrow> drain_draw) \<Rightarrow> nat \<Rightarrow> int \<Rightarrow> store_db \<Rightarrow> job_run list
       \<Rightarrow> store_db \<times> job_run list \<times> store_error option" where
  "drain_loop d jobID maxRuns draw k active db out =
     (if \<not> active < maxRuns then (db, out, None)
      else case DequeueNextRun jobID (drain_claim d (draw k)) '''' (DrNow (draw k)) db of
        Inl e \<Rightarrow> (db, out, Some e)
      | Inr (None, db1) \<Rightarrow> (db1, out, None)
      | Inr (Some queued, db1) \<Rightarrow>
          (case StartQueuedRun (DQLease d) queued (DrRunID (draw k)) uuid_Nil (DQMaxDepth d) (DrNow (draw k)) db1 of
             (db2, Inl e) \<Rightarrow>
               if e = ErrRunSkipped
               then (case DeleteQueuedRun (RQID queued) db2 of
                       Inl e' \<Rightarrow> (best_effort (ReleaseQueuedRun (RQID queued) (drain_claim d (draw k))) db2, out, Some e')
                     | Inr (_, db3) \<Rightarrow> drain_loop d jobID maxRuns draw (k + 1) active db3 out)
               else
                 let db3 = best_effort (ReleaseQueuedRun (RQID queued) (drain_claim d (draw k))) db2
                 in if e = ErrMaxConcurrentRunsReached \<or> e = ErrRunQueued then (db3, out, None)
                    else (db3, out, Some e)
           | (db2, Inr None) \<Rightarrow>
               (case ReleaseQueuedRun (RQID queued) (drain_claim d (draw k)) db2 of
                  Inl e \<Rightarrow> (db2, out, Some e)
                | Inr (_, db3) \<Rightarrow> (db3, out, None))
           | (db2, Inr (Some started)) \<Rightarrow>
               (case DeleteQueuedRun (RQID queued) db2 of
                  Inl e \<Rightarrow> (db2, out, Some e)
                | Inr (_, db3) \<Rightarrow>
                    (case launch started db3 of
                       Inl e \<Rightarrow> (db3, out, Some e)
                     | Inr _ \<Rightarrow> drain_loop d jobID maxRuns draw (k + 1) (active + 1) db3 (out @ [started])))))"
  by pat_completeness auto
termination
  by (relation "measure (\<lambda>(d, jobID, maxRuns, draw, k, active, db, out). unclaimed_count jobID db)")
     (auto intro: drain_turn_count [OF _ sym])

declare drain_loop.simps [simp del]

definition drainJob ::
    "dequeuer \<Rightarrow> (nat \<Rightarrow> drain_draw) \<Rightarrow> uuid \<Rightarrow> store_db \<Rightarrow> store_db \<times> job_run list \<times> store_error option" where
  "drainJob d draw jobID db =
     (case loadConcurrencyConfig jobID db of
        Inl e \<Rightarrow> (db, [], Some e)
      | Inr (None, _) \<Rightarrow> (db, [], None)
      | Inr (Some maxRuns, _) \<Rightarrow>
          if maxRuns \<le> 0 then (db, [], None)
          else drain_loop d jobID maxRuns draw 0 (int (CountActive db jobID)) db [])"

fun drain_jobs ::
    "dequeuer \<Rightarrow> (uuid \<Rightarrow> nat \<Rightarrow> drain_draw) \<Rightarrow> uuid list \<Rightarrow> store_db \<Rightarrow> store_db \<times> job_run list \<times> store_error option" where
  "drain_jobs d draw [] db = (db, [], None)"
| "drain_jobs d draw (jobID # rest) db =
     (case drainJob d (draw jobID) jobID db of
        (db1, out, Some e) \<Rightarrow> (db1, out, Some e)
      | (db1, out, None) \<Rightarrow> (case drain_jobs d draw rest db1 of (db2, out2, e) \<Rightarrow> (db2, out @ out2, e)))"

text \<open>
  One tick. \<open>leader\<close> is the answer of the leader check, absent when none is configured; the
  jobs with unclaimed runs come in some order without repetition.
\<close>

definition DrainOnce ::
    "dequeuer \<Rightarrow> (store_error + bool) option \<Rightarrow> (uuid \<Rightarrow> nat \<Rightarrow> drain_draw) \<Rightarrow> timestamp \<Rightarrow> store_db
       \<Rightarrow> store_db \<times> job_run list \<times> store_error option" where
  "DrainOnce d leader draw now db =
     (case leader of
        Some (Inl e) \<Rightarrow> (db, [], Some e)
      | Some (Inr False) \<Rightarrow> (db, [], None)
      | _ \<Rightarrow>
          (case reclaimStaleClaims d now db of
             Inl e \<Rightarrow> (db, [], Some e)
           | Inr (_, db1) \<Rightarrow>
               drain_jobs d draw (remdups (map RQJobID (filter (\<lambda>q. RQClaimedBy q = '''') (db_run_queue db1)))) db1))"


section \<open>A drain starts exactly the runs that fit\<close>

text \<open>A job that queues: its row, limit and strategy.\<close>

definition queues :: "store_db \<Rightarrow> uuid \<Rightarrow> int \<Rightarrow> bool" where
  "queues db jobID n \<longleftrightarrow> 0 < n \<and> (\<exists>m strat. find (\<lambda>m. JMID m = jobID) (db_jobs db) = Some m
     \<and> JMConcurrency m = Concurrency n strat
     \<and> (ToLower (TrimSpace strat) = '''' \<or> ToLower (TrimSpace strat) = ConcurrencyStrategyQueue))"

lemma queues_config:
  assumes "queues db jobID n"
  shows "\<exists>al. concurrencyConfigTx jobID db =
      Inr ((\<lparr>CCJobAlias = al, CCMaxRuns = n, CCStrategy = ConcurrencyStrategyQueue\<rparr>, True), db)"
    "loadConcurrencyConfig jobID db = Inr (Some n, db)"
  using assms by (auto simp: queues_def concurrencyConfigTx_def loadConcurrencyConfig_def tx_simps Let_def)

lemma PriorityLabel_parses:
  "TrimSpace (PriorityLabel p) \<noteq> ''''" "\<exists>v. PriorityValue (PriorityLabel p) = Inr v"
proof -
  have "TrimSpace ''low'' \<noteq> ''''" "TrimSpace ''high'' \<noteq> ''''" "TrimSpace ''normal'' \<noteq> ''''" by code_simp+
  moreover have "\<exists>v. PriorityValue ''low'' = Inr v" "\<exists>v. PriorityValue ''high'' = Inr v" "\<exists>v. PriorityValue ''normal'' = Inr v"
    by (simp_all add: PriorityValue_def TrimSpace_def is_go_space_def ToLower_def ascii_lower_def Let_def)
  ultimately show "TrimSpace (PriorityLabel p) \<noteq> ''''" "\<exists>v. PriorityValue (PriorityLabel p) = Inr v"
    by (simp_all add: PriorityLabel_def)
qed

lemma StartQueuedRun_slot:
  assumes cfg: "queues db jobID n" and slot: "int (CountActive db jobID) < n"
    and fresh: "newID \<notin> JRID ` set (db_job_runs db)" and q: "RQJobID q = jobID"
  obtains db' j where "StartQueuedRun lease q newID queueID maxDepth now db = (db', Inr (Some j))"
    "JRID j = newID" "JRJobID j = jobID" "JRParams j = RQParams q"
    "CountActive db' jobID = CountActive db jobID + 1" "db_jobs db' = db_jobs db"
    "JRID ` set (db_job_runs db') = insert newID (JRID ` set (db_job_runs db))"
proof -
  let ?req = "\<lparr>SRJobID = RQJobID q, SRTriggerID = None, SRBackfillID = None,
      SRParams = RQParams q, SRPriorityOverride = PriorityLabel (RQPriority q), SRFromQueue = True, SRPolicyOnly = False\<rparr>"
  obtain v where v: "PriorityValue (PriorityLabel (RQPriority q)) = Inr v" using PriorityLabel_parses(2) by blast
  then have prio: "startPriorityTx (RQJobID q) (PriorityLabel (RQPriority q)) db = Inr (v, db)"
    using PriorityLabel_parses(1) by (simp add: startPriorityTx_def priority_tx_def tx_ok_def)
  define model where "model = (newStartRunModel ?req newID now)\<lparr>JRPriority := v\<rparr>"
  have model: "JRID model = newID" "JRJobID model = jobID" "JRParams model = RQParams q" "JRBackfillID model = None"
    "JRStatus model = StatusRunning" "\<not> JRQuarantine model"
    by (simp_all add: model_def newStartRunModel_def q)
  obtain al where al: "concurrencyConfigTx jobID db =
      Inr ((\<lparr>CCJobAlias = al, CCMaxRuns = n, CCStrategy = ConcurrencyStrategyQueue\<rparr>, True), db)"
    using queues_config(1) [OF cfg] by blast
  have "insertRunIfSlotTx model n db = Inr (True, add_run model db)"
    using slot cfg by (simp add: insertRunIfSlotTx_def add_run_def model queues_def)
  then obtain res where adm: "admit model ?req queueID maxDepth now db = Inr (res, add_run model db)"
      "ARDecision res = admissionCreated"
    using al by (simp add: admit_def tx_bind_def tx_ok_def model Let_def)
  let ?db1 = "(add_run model db)\<lparr>db_events := db_events db @ [run_event TypeRunStarted model]\<rparr>"
  have tx: "startRunTx ?req newID queueID maxDepth now db = Inr (res, ?db1)"
    using prio adm by (simp add: startRunTx_def tx_bind_def Let_def finish_start_def append_event_def tx_modify_def
        tx_ok_def add_run_def flip: model_def)
  have "find (\<lambda>j. JRID j = newID) (js @ [model]) = Some model" if "newID \<notin> JRID ` set js" for js
    using that model(1) by (induction js) auto
  note find = this [OF fresh]
  define db' where "db' = (case lease of None \<Rightarrow> ?db1
     | Some (node, ttl) \<Rightarrow> ?db1\<lparr>db_run_leases := fst (AcquireLease (db_run_leases ?db1) newID node ttl now)\<rparr>)"
  have "db_job_runs db' = db_job_runs db @ [model]" "db_jobs db' = db_jobs db"
    by (simp_all add: db'_def add_run_def split: option.splits prod.splits)
  moreover from this have "StartQueuedRun lease q newID queueID maxDepth now db = (db', Inr (Some model))"
    using find adm(2) by (simp add: StartQueuedRun_def startRun_def tx db'_def Let_def)
  moreover have "CountActive db' jobID = CountActive db jobID + 1"
    using calculation(1) model by (simp add: CountActive_def is_active_def)
  ultimately show thesis using that [of db' model] model by simp
qed


text \<open>Removing the head of the dispatch order leaves its tail.\<close>

lemma queue_order_delete:
  assumes "distinct (map RQID q)" "queue_order jobID q = q0 # rest"
  shows "queue_order jobID (filter (\<lambda>r. RQID r \<noteq> RQID q0) q) = rest"
proof -
  have "queue_order jobID (filter (\<lambda>r. RQID r \<noteq> RQID q0) q) = filter (\<lambda>r. RQID r \<noteq> RQID q0) (queue_order jobID q)"
    by (simp add: queue_order_def filter_sort conj_commute)
  also have "\<dots> = rest"
  proof -
    have "distinct (map RQID (queue_order jobID q))"
      unfolding queue_order_def by (intro distinct_sort_key_map distinct_map_filter assms(1))
    then have "RQID q0 \<notin> RQID ` set rest" by (simp add: assms(2))
    then show ?thesis by (auto simp: assms(2) filter_id_conv image_iff)
  qed
  finally show ?thesis .
qed

text \<open>
  What the loop needs of its surroundings: unique queue ids, run ids that are new, and claim
  names that no queued run carries.
\<close>

definition drain_ready :: "dequeuer \<Rightarrow> (nat \<Rightarrow> drain_draw) \<Rightarrow> nat \<Rightarrow> store_db \<Rightarrow> bool" where
  "drain_ready d draw k db \<longleftrightarrow> distinct (map RQID (db_run_queue db))
     \<and> inj (\<lambda>i. DrRunID (draw i)) \<and> (\<forall>i \<ge> k. DrRunID (draw i) \<notin> JRID ` set (db_job_runs db))
     \<and> (\<forall>i \<ge> k. \<forall>r \<in> set (db_run_queue db). RQClaimedBy r \<noteq> TrimSpace (drain_claim d (draw i)))"

lemma drain_loop_exact:
  assumes "queue_order jobID (db_run_queue db) = qs" "queues db jobID n" "drain_ready d draw k db"
  shows "\<exists>db' new. drain_loop d jobID n draw k (int (CountActive db jobID)) db out = (db', out @ new, None)
    \<and> map JRParams new = map RQParams (take (nat (n - int (CountActive db jobID))) qs)
    \<and> (\<forall>j \<in> set new. JRJobID j = jobID)
    \<and> queue_order jobID (db_run_queue db') = drop (nat (n - int (CountActive db jobID))) qs
    \<and> CountActive db' jobID = CountActive db jobID + length new"
  using assms
proof (induction qs arbitrary: db k out)
  case Nil
  have "DequeueNextRun jobID c f now db = Inr (None, db)" for c f now
    by (simp add: DequeueNextRun_def Nil.prems(1))
  then show ?case by (subst drain_loop.simps) (simp add: Nil.prems(1))
next
  case (Cons q0 rest)
  show ?case
  proof (cases "int (CountActive db jobID) < n")
    case False
    then show ?thesis by (subst drain_loop.simps) (simp add: Cons.prems(1))
  next
    case True
    let ?c = "drain_claim d (draw k)" and ?now = "DrNow (draw k)"
    let ?q = "q0\<lparr>RQClaimedBy := TrimSpace ?c, RQClaimedAt := Some ?now\<rparr>"
    let ?db1 = "db\<lparr>db_run_queue := map (\<lambda>r. if r = q0 then ?q else r) (db_run_queue db)\<rparr>"
    note R = Cons.prems(3) [unfolded drain_ready_def]
    note H = queue_order_hd [OF Cons.prems(1)]
    have deq: "DequeueNextRun jobID ?c '''' ?now db = Inr (Some ?q, ?db1)"
      using Dequeue_head [OF _ drain_claim_not_blank _ Cons.prems(1), of d "draw k" "''''" ?now] R
      by (simp add: Let_def)
    have jobs1: "queues ?db1 jobID n" "CountActive ?db1 jobID = CountActive db jobID"
      using Cons.prems(2) by (simp_all add: queues_def CountActive_def)
    have f1: "DrRunID (draw k) \<notin> JRID ` set (db_job_runs ?db1)" using R by simp
    have qj: "RQJobID ?q = jobID" using H(2) by (simp add: unclaimed_def)
    have sl: "int (CountActive ?db1 jobID) < n" using True jobs1(2) by simp
    obtain db2 j where st: "StartQueuedRun (DQLease d) ?q (DrRunID (draw k)) uuid_Nil (DQMaxDepth d) ?now ?db1 = (db2, Inr (Some j))"
      "JRJobID j = jobID" "JRParams j = RQParams ?q" "CountActive db2 jobID = CountActive ?db1 jobID + 1"
      "db_jobs db2 = db_jobs ?db1" "JRID ` set (db_job_runs db2) = insert (DrRunID (draw k)) (JRID ` set (db_job_runs ?db1))"
      by (rule StartQueuedRun_slot [OF jobs1(1) sl f1 qj]) blast
    let ?db3 = "db2\<lparr>db_run_queue := filter (\<lambda>r. RQID r \<noteq> RQID q0) (db_run_queue db2)\<rparr>"
    have del: "DeleteQueuedRun (RQID q0) db2 = Inr ((), ?db3)" by (simp add: DeleteQueuedRun_def tx_modify_def)
    have q3: "db_run_queue ?db3 = filter (\<lambda>r. RQID r \<noteq> RQID q0) (db_run_queue db)"
    proof -
      have "filter (\<lambda>r. RQID r \<noteq> RQID q0) (map (\<lambda>r. if r = q0 then ?q else r) xs) = filter (\<lambda>r. RQID r \<noteq> RQID q0) xs" for xs
        by (induction xs) auto
      then show ?thesis using StartQueuedRun_same_queue [OF st(1)] by simp
    qed
    have q3': "queues ?db3 jobID n" using Cons.prems(2) st(5) by (simp add: queues_def)
    then have lau: "\<exists>m. launch j ?db3 = Inr (m, ?db3)" using st(2) by (auto simp: launch_def tx_first_def queues_def)
    have act: "CountActive ?db3 jobID = CountActive db jobID + 1" using st(4) jobs1(2) by (simp add: CountActive_def)
    have "drain_ready d draw (k + 1) ?db3"
    proof -
      have "DrRunID (draw i) \<noteq> DrRunID (draw k)" if "k + 1 \<le> i" for i
        using R that by (auto dest: injD)
      then show ?thesis using R st(6) unfolding drain_ready_def q3
        by (auto simp: distinct_map_filter)
    qed
    from Cons.IH [OF _ q3' this, of "out @ [j]"] queue_order_delete [OF _ Cons.prems(1)] R
    obtain db' new where ih: "drain_loop d jobID n draw (k + 1) (int (CountActive db jobID) + 1) ?db3 (out @ [j])
        = (db', (out @ [j]) @ new, None)"
      "map JRParams new = map RQParams (take (nat (n - (int (CountActive db jobID) + 1))) rest)" "\<forall>j \<in> set new. JRJobID j = jobID"
      "queue_order jobID (db_run_queue db') = drop (nat (n - (int (CountActive db jobID) + 1))) rest"
      "CountActive db' jobID = CountActive db jobID + 1 + length new"
      unfolding act q3 by (auto simp: add.commute)
    have nat: "nat (n - int (CountActive db jobID)) = Suc (nat (n - (int (CountActive db jobID) + 1)))" using True by simp
    have run: "drain_loop d jobID n draw k (int (CountActive db jobID)) db out = (db', out @ (j # new), None)"
      using True lau ih(1) by (subst drain_loop.simps) (auto simp: deq st(1) del)
    from ih st(2,3) show ?thesis by (intro exI [of _ db'] exI [of _ "j # new"]) (simp add: run nat)
  qed
qed


section \<open>Properties\<close>

text \<open>
  C26. A drain of a job starts exactly the queued runs that fit: with \<open>n\<close> allowed and \<open>a\<close> active
  runs, the first \<open>n - a\<close> queued runs in dispatch order (priority, then age) are started
  with their parameters, in that order, and leave the queue; the others stay in their order,
  and no error is returned.
\<close>

theorem drain_starts_what_fits:
  assumes "queues db jobID n" "drain_ready d draw 0 db"
  shows "\<exists>db' new. drainJob d draw jobID db = (db', new, None)
    \<and> map JRParams new =
        map RQParams (take (nat (n - int (CountActive db jobID))) (queue_order jobID (db_run_queue db)))
    \<and> queue_order jobID (db_run_queue db') =
        drop (nat (n - int (CountActive db jobID))) (queue_order jobID (db_run_queue db))
    \<and> CountActive db' jobID = CountActive db jobID + length new"
proof -
  have "0 < n" using assms(1) by (simp add: queues_def)
  then show ?thesis
    using drain_loop_exact [OF refl assms, of "[]"] by (auto simp: drainJob_def queues_config(2) [OF assms(1)])
qed

definition drain_example_db :: store_db where
  "drain_example_db = (one_job_db ''queue'' [])\<lparr>db_run_queue := [queue_row 1 2 10, queue_row 2 3 30, queue_row 3 3 20]\<rparr>"

definition drain_example_draw :: "nat \<Rightarrow> drain_draw" where
  "drain_example_draw k = \<lparr>DrClaim = ''u'', DrRunID = 100 + k, DrNow = 50\<rparr>"

theorem drain_starts_what_fits_witness:
  "let d = NewDequeuer '' n1 '' 0 0 None 0
   in \<exists>db' new. drainJob d drain_example_draw 5 drain_example_db = (db', new, None) \<and> length new = 1
        \<and> map RQID (queue_order 5 (db_run_queue db')) = [2, 1]"
proof -
  let ?d = "NewDequeuer '' n1 '' 0 0 None 0"
  have q: "queues drain_example_db 5 1"
    by (simp add: queues_def drain_example_db_def one_job_db_def sample_defs TrimSpace_def is_go_space_def ToLower_def
        ascii_lower_def strategy_defs)
  have "drain_ready ?d drain_example_draw 0 drain_example_db"
    by (auto simp: drain_ready_def drain_example_db_def one_job_db_def sample_defs queue_row_def drain_example_draw_def inj_def
        drain_claim_not_blank dest!: sym [of "''''"])
  from drain_starts_what_fits [OF q this] obtain db' new where
    "drainJob ?d drain_example_draw 5 drain_example_db = (db', new, None)"
    "map JRParams new = map RQParams (take (nat (1 - int (CountActive drain_example_db 5))) (queue_order 5 (db_run_queue drain_example_db)))"
    "queue_order 5 (db_run_queue db') = drop (nat (1 - int (CountActive drain_example_db 5))) (queue_order 5 (db_run_queue drain_example_db))"
    by blast
  moreover have "CountActive drain_example_db 5 = 0"
    "queue_order 5 (db_run_queue drain_example_db) = [queue_row 3 3 20, queue_row 2 3 30, queue_row 1 2 10]" by code_simp+
  ultimately show ?thesis by (auto simp: Let_def queue_row_def dest: map_eq_imp_length_eq)
qed

end
