(* ===== verification/Dispatch.thy ===== *)
theory Dispatch
  imports Owner_Takeover
begin

text \<open>
  The internal endpoints between owner and workers (\<open>internal/dispatch/dispatch.go\<close>): a worker
  accepts a pushed task, an owner applies a reported completion. A handler is a function from the
  request and the node's state to the new state and the reply.
\<close>

section \<open>Requests and replies\<close>

datatype http_method = POST | OtherMethod string

record dispatch_request =
  DqRunID :: uuid
  DqTaskID :: uuid
  DqOwnerGeneration :: int
  DqAttempt :: int
  DqWorkerNode :: string
  DqOwnerBaseURL :: string
  DqDeadline :: timestamp

record complete_request =
  CqRunID :: uuid
  CqTaskID :: uuid
  CqOwnerGeneration :: int
  CqAttempt :: int
  CqWorkerNode :: string
  CqStatus :: string
  CqResult :: string
  CqOutputs :: "(string \<times> string) list"
  CqBranchSelections :: "string list"
  CqError :: string

record inbound_dispatch =
  IdTask :: task_run
  IdOwnerBaseURL :: string
  IdOwnerGeneration :: int
  IdAttempt :: int
  IdWorkerNode :: string

text \<open>The reply: the status code and the \<open>code\<close> label of an error body.\<close>

record reply =
  RpStatus :: int
  RpCode :: string

definition StatusOK :: int where "StatusOK = 200"
definition StatusAccepted :: int where "StatusAccepted = 202"
definition StatusBadRequest :: int where "StatusBadRequest = 400"
definition StatusUnauthorized :: int where "StatusUnauthorized = 401"
definition StatusMethodNotAllowed :: int where "StatusMethodNotAllowed = 405"
definition StatusConflict :: int where "StatusConflict = 409"
definition StatusServiceUnavailable :: int where "StatusServiceUnavailable = 503"

lemmas http_status_defs = StatusOK_def StatusAccepted_def StatusBadRequest_def StatusUnauthorized_def
  StatusMethodNotAllowed_def StatusConflict_def StatusServiceUnavailable_def

definition ok_reply :: reply where "ok_reply = \<lparr>RpStatus = StatusOK, RpCode = ''''\<rparr>"
definition accepted_reply :: reply where "accepted_reply = \<lparr>RpStatus = StatusAccepted, RpCode = ''''\<rparr>"
definition conflict :: "string \<Rightarrow> reply" where "conflict code = \<lparr>RpStatus = StatusConflict, RpCode = code\<rparr>"

definition ReasonStaleGeneration :: string where "ReasonStaleGeneration = ''stale_generation''"
definition ReasonWrongWorker :: string where "ReasonWrongWorker = ''wrong_worker''"
definition ReasonInvalidStatus :: string where "ReasonInvalidStatus = ''invalid_status''"
definition ReasonTaskNotRunning :: string where "ReasonTaskNotRunning = ''task_not_running''"
definition ReasonNotOwner :: string where "ReasonNotOwner = ''not_owner''"
definition ReasonMissingRun :: string where "ReasonMissingRun = ''missing_run''"
definition ReasonMalformed :: string where "ReasonMalformed = ''malformed''"
definition ReasonContention :: string where "ReasonContention = ''contention''"

lemmas reason_defs = ReasonStaleGeneration_def ReasonWrongWorker_def ReasonInvalidStatus_def
  ReasonTaskNotRunning_def ReasonNotOwner_def ReasonMissingRun_def ReasonMalformed_def ReasonContention_def

text \<open>The handler of a node. \<open>HOwnerManager\<close> says whether the in-memory path is enabled.\<close>

record handler =
  HNodeID :: string
  HToken :: string
  HSubmitter :: bool
  HOwnerManager :: bool

definition NewHandler :: "string \<Rightarrow> string \<Rightarrow> handler" where
  "NewHandler nodeID token = \<lparr>HNodeID = nodeID, HToken = token, HSubmitter = False, HOwnerManager = False\<rparr>"

definition WithWorkerSubmitter :: "handler \<Rightarrow> handler" where
  "WithWorkerSubmitter h = h\<lparr>HSubmitter := True\<rparr>"

definition WithOwnerManager :: "handler \<Rightarrow> handler" where
  "WithOwnerManager h = h\<lparr>HOwnerManager := True\<rparr>"

text \<open>Both sides of the token comparison are hashed; \<open>sha\<close> is the digest function.\<close>

definition authorized :: "(string \<Rightarrow> string) \<Rightarrow> handler \<Rightarrow> string \<Rightarrow> bool" where
  "authorized sha h header =
     (if HToken h = '''' then False
      else let auth = TrimSpace header
           in if ToLower (take 7 auth) = ''bearer ''
              then sha (TrimSpace (drop 7 auth)) = sha (HToken h) else False)"

definition ValidCompleteStatuses :: "string \<Rightarrow> task_status option" where
  "ValidCompleteStatuses s =
     (if s = ''succeeded'' then Some TaskStatusSucceeded
      else if s = ''failed'' then Some TaskStatusFailed
      else if s = ''cached'' then Some TaskStatusCached else None)"

section \<open>Accepting a dispatch\<close>

text \<open>
  The calls to the database of one dispatch, with the error of each when the database fails:
  the claim and its rollback are transactions, which change nothing then.
\<close>

record dispatch_faults =
  DFClaim :: "store_error option"
  DFLoad :: "store_error option"
  DFRelease :: "store_error option"

definition no_dispatch_faults :: dispatch_faults where
  "no_dispatch_faults = \<lparr>DFClaim = None, DFLoad = None, DFRelease = None\<rparr>"

definition db_call :: "store_error option \<Rightarrow> store_error + 'a \<Rightarrow> store_error + 'a" where
  "db_call fault r = (case fault of Some e \<Rightarrow> Inl e | None \<Rightarrow> r)"

text \<open>The error of a rollback is logged and nothing else.\<close>

definition rollbackClaim :: "dispatch_faults \<Rightarrow> handler \<Rightarrow> dispatch_request \<Rightarrow> store_db \<Rightarrow> store_db" where
  "rollbackClaim faults h req = best_effort (\<lambda>db. db_call (DFRelease faults)
     (ReleaseTaskClaim (DqRunID req) (DqTaskID req) (HNodeID h) (DqOwnerGeneration req) db))"

definition claim_ttl :: "timestamp \<Rightarrow> timestamp \<Rightarrow> int" where
  "claim_ttl deadline now =
     (let ttl = deadline - now in if ttl < 30 * 1000000000 then 5 * 60 * 1000000000 else ttl)"

text \<open>
  \<open>body\<close> is the decoded request, absent when the body does not decode; \<open>submit\<close> is the answer of
  the local worker to the task it is handed; \<open>faults\<close> are the failures of the database.
\<close>

definition HandleDispatch ::
    "(string \<Rightarrow> string) \<Rightarrow> handler \<Rightarrow> http_method \<Rightarrow> string \<Rightarrow> dispatch_request option
       \<Rightarrow> (inbound_dispatch \<Rightarrow> bool) \<Rightarrow> dispatch_faults \<Rightarrow> timestamp \<Rightarrow> store_db
       \<Rightarrow> store_db \<times> reply \<times> inbound_dispatch option" where
  "HandleDispatch sha h method header body submit faults now db =
     (if method \<noteq> POST then (db, \<lparr>RpStatus = StatusMethodNotAllowed, RpCode = ''''\<rparr>, None)
      else if \<not> authorized sha h header then (db, \<lparr>RpStatus = StatusUnauthorized, RpCode = ''''\<rparr>, None)
      else case body of
        None \<Rightarrow> (db, \<lparr>RpStatus = StatusBadRequest, RpCode = ReasonMalformed\<rparr>, None)
      | Some req \<Rightarrow>
          if DqWorkerNode req \<noteq> HNodeID h then (db, conflict ReasonWrongWorker, None)
          else if \<not> HSubmitter h then (db, conflict ReasonTaskNotRunning, None)
          else (case db_call (DFClaim faults)
                       (ClaimTaskForDispatch (DqRunID req) (DqTaskID req) (HNodeID h) (DqOwnerGeneration req)
                         (claim_ttl (DqDeadline req) now) (HOwnerManager h) now db) of
                  Inl e \<Rightarrow> (db, conflict ReasonTaskNotRunning, None)
                | Inr (_, db1) \<Rightarrow>
                    (case db_call (DFLoad faults) (LoadDispatchedTaskRun db1 (DqRunID req) (DqTaskID req) (HNodeID h)) of
                       Inl e \<Rightarrow> (rollbackClaim faults h req db1, conflict ReasonTaskNotRunning, None)
                     | Inr taskRun \<Rightarrow>
                         let d = \<lparr>IdTask = taskRun, IdOwnerBaseURL = DqOwnerBaseURL req,
                                  IdOwnerGeneration = DqOwnerGeneration req, IdAttempt = DqAttempt req,
                                  IdWorkerNode = HNodeID h\<rparr>
                         in if submit d then (db1, accepted_reply, Some d)
                            else (rollbackClaim faults h req db1, conflict ReasonTaskNotRunning, None))))"

section \<open>Applying a completion\<close>

text \<open>The SQL path: a claimed completion, failure or cache hit, unless the database refuses.\<close>

definition apply_claimed ::
    "(uuid \<Rightarrow> string) \<Rightarrow> complete_request \<Rightarrow> task_status \<Rightarrow> db_faults \<Rightarrow> timestamp \<Rightarrow> store_db
       \<Rightarrow> store_error + store_db" where
  "apply_claimed ustr req status faults now db =
     (case write_fault faults of
        Some e \<Rightarrow> Inl e
      | None \<Rightarrow>
          if status = TaskStatusSucceeded
          then map_sum id snd (completeTask ustr (CqRunID req) (CqTaskID req) (CqResult req) (CqWorkerNode req) True
                 (CqOutputs req) (CqBranchSelections req) now db)
          else if status = TaskStatusFailed
          then map_sum id snd (failTask (CqRunID req) (CqTaskID req) (CqError req) (CqWorkerNode req) True now db)
          else map_sum id snd (cacheHitTask ustr (CqRunID req) (CqTaskID req) (CqRunID req, 0, None) (CqResult req)
                 (CqWorkerNode req) True (CqOutputs req) (CqBranchSelections req) now db))"

text \<open>How an error of the apply step is answered; \<open>contention\<close> classifies transient errors.\<close>

definition reject_error :: "(store_error \<Rightarrow> bool) \<Rightarrow> store_error \<Rightarrow> reply" where
  "reject_error contention e =
     (if contention e then \<lparr>RpStatus = StatusServiceUnavailable, RpCode = ReasonContention\<rparr>
      else if e = ErrTaskClaimMismatch then conflict ReasonWrongWorker
      else conflict ReasonTaskNotRunning)"

definition reject_sql :: "(store_error \<Rightarrow> bool) \<Rightarrow> store_error \<Rightarrow> reply" where
  "reject_sql contention e =
     (if e = ErrTaskClaimMismatch then conflict ReasonWrongWorker
      else if contention e then \<lparr>RpStatus = StatusServiceUnavailable, RpCode = ReasonContention\<rparr>
      else conflict ReasonTaskNotRunning)"

definition complete_sql ::
    "(uuid \<Rightarrow> string) \<Rightarrow> (store_error \<Rightarrow> bool) \<Rightarrow> complete_request \<Rightarrow> task_status \<Rightarrow> db_faults \<Rightarrow> timestamp
       \<Rightarrow> owner_node \<Rightarrow> owner_node \<times> reply" where
  "complete_sql ustr contention req status faults now n =
     (case apply_claimed ustr req status faults now (on_db n) of
        Inl e \<Rightarrow> (n, reject_sql contention e)
      | Inr db1 \<Rightarrow> (n\<lparr>on_db := db1\<rparr>, ok_reply))"

definition HandleComplete ::
    "(string \<Rightarrow> string) \<Rightarrow> (uuid \<Rightarrow> string) \<Rightarrow> (store_error \<Rightarrow> bool) \<Rightarrow> handler \<Rightarrow> http_method \<Rightarrow> string
       \<Rightarrow> complete_request option \<Rightarrow> db_faults \<Rightarrow> timestamp \<Rightarrow> owner_node \<Rightarrow> owner_node \<times> reply" where
  "HandleComplete sha ustr contention h method header body faults now n =
     (if method \<noteq> POST then (n, \<lparr>RpStatus = StatusMethodNotAllowed, RpCode = ''''\<rparr>)
      else if \<not> authorized sha h header then (n, \<lparr>RpStatus = StatusUnauthorized, RpCode = ''''\<rparr>)
      else case body of
        None \<Rightarrow> (n, \<lparr>RpStatus = StatusBadRequest, RpCode = ReasonMalformed\<rparr>)
      | Some req \<Rightarrow>
          (case ValidCompleteStatuses (CqStatus req) of
             None \<Rightarrow> (n, conflict ReasonInvalidStatus)
           | Some status \<Rightarrow>
               (case GetLease (db_run_leases (on_db n)) (CqRunID req) of
                  None \<Rightarrow> (n, conflict ReasonMissingRun)
                | Some lease \<Rightarrow>
                    if RLOwnerNode lease \<noteq> HNodeID h \<or> RLLeaseExpiresAt lease < now then (n, conflict ReasonNotOwner)
                    else if RLGeneration lease \<noteq> CqOwnerGeneration req then (n, conflict ReasonStaleGeneration)
                    else if HOwnerManager h
                    then (case om_Complete ustr (CqRunID req) (CqTaskID req) status (CqResult req) (CqError req)
                                 (CqWorkerNode req) (CqOutputs req) (CqBranchSelections req) faults now n of
                            (n1, Inl e) \<Rightarrow> (n1, reject_error contention e)
                          | (n1, Inr res) \<Rightarrow>
                              if CROwned res then (n1, ok_reply)
                              else complete_sql ustr contention req status faults now n1)
                    else complete_sql ustr contention req status faults now n)))"


section \<open>A dispatch is accepted or undone\<close>

text \<open>What a claim that is given back may leave of itself: the claim counter, the owner's generation and cleared clocks.\<close>

definition unclaimed_view :: "task_run \<Rightarrow> task_run" where
  "unclaimed_view r = r\<lparr>TRClaimAttempt := 0, TROwnerGeneration := 0, TRClaimExpiresAt := None, TRRuntimeID := '''',
     TRStartedAt := None, TRRateLimitRetryAfter := None\<rparr>"

lemma rollbackClaim_rows:
  "db_task_runs (rollbackClaim faults h req db) = (if DFRelease faults = None then update_where
     (\<lambda>r. is_row (DqRunID req) (DqTaskID req) r \<and> TRClaimedBy r = HNodeID h \<and> TRStatus r = TaskStatusRunning
            \<and> (TROwnerGeneration r = DqOwnerGeneration req \<or> TROwnerGeneration r = 0))
     (\<lambda>r. r\<lparr>TRStatus := TaskStatusPending, TRClaimedBy := '''', TRClaimExpiresAt := None,
              TRRuntimeID := '''', TRStartedAt := None\<rparr>) (db_task_runs db) else db_task_runs db)"
  by (simp add: rollbackClaim_def db_call_def best_effort_def ReleaseTaskClaim_def tx_bind_def update_task_runs_def tx_ok_def
      split: option.splits)

lemma claim_free:
  assumes "rows_unique db" "ClaimTaskForDispatch runID t node g ttl trust now db = Inr (u, db1)"
    "r \<in> set (db_task_runs db)" "is_row runID t r"
  shows "TRStatus r = TaskStatusPending \<and> TRClaimedBy r = ''''"
proof -
  obtain q where q: "q \<in> set (db_task_runs db)" "is_row runID t q" "TRStatus q = TaskStatusPending" "TRClaimedBy q = ''''"
    using assms(2) unfolding ClaimTaskForDispatch_def must_update_eq by (auto split: if_splits)
  with rows_unique_eq [OF assms(1,3) q(1)] assms(4) show ?thesis by blast
qed

lemma claim_rollback_rows:
  assumes "rows_unique db"
    "ClaimTaskForDispatch (DqRunID req) (DqTaskID req) (HNodeID h) (DqOwnerGeneration req) ttl trust now db = Inr (u, db1)"
    and "DFRelease faults = None"
  shows "map unclaimed_view (db_task_runs (rollbackClaim faults h req db1)) = map unclaimed_view (db_task_runs db)"
proof -
  note free = claim_free [OF assms(1,2)]
  obtain r0 where rows: "db_task_runs db1 = update_where (is_row (DqRunID req) (DqTaskID req))
      (\<lambda>r. r\<lparr>TRStatus := TaskStatusRunning, TRClaimedBy := HNodeID h,
        TRClaimExpiresAt := Some (now + ttl), TRClaimAttempt := TRClaimAttempt r + 1,
        TRStartedAt := Some now, TROwnerGeneration := DqOwnerGeneration req, TRRateLimitRetryAfter := None\<rparr>) (db_task_runs db)"
    by (rule claim_rows [OF assms(1,2)]) blast
  have "r\<lparr>TRStatus := TaskStatusPending, TRClaimedBy := ''''\<rparr> = r" if "r \<in> set (db_task_runs db)" "is_row (DqRunID req) (DqTaskID req) r" for r
    using free [OF that] by simp
  then show ?thesis
    unfolding rollbackClaim_rows rows update_where_def map_map map_eq_conv if_P [OF assms(3)]
    using free by (auto simp: unclaimed_view_def is_row_def)
qed

text \<open>A claim that stays behind: the row runs nowhere, held by this node until the claim expires.\<close>

definition left_claimed :: "handler \<Rightarrow> dispatch_request \<Rightarrow> timestamp \<Rightarrow> store_db \<Rightarrow> store_db \<Rightarrow> bool" where
  "left_claimed h req now db db' \<longleftrightarrow>
     filter (\<lambda>r. \<not> is_row (DqRunID req) (DqTaskID req) r) (db_task_runs db')
       = filter (\<lambda>r. \<not> is_row (DqRunID req) (DqTaskID req) r) (db_task_runs db)
     \<and> (\<exists>r \<in> set (db_task_runs db'). is_row (DqRunID req) (DqTaskID req) r \<and> TRStatus r = TaskStatusRunning
          \<and> TRClaimedBy r = HNodeID h \<and> TROwnerGeneration r = DqOwnerGeneration req
          \<and> TRClaimExpiresAt r = Some (now + claim_ttl (DqDeadline req) now))"

lemma claim_left:
  assumes "rows_unique db"
    "ClaimTaskForDispatch (DqRunID req) (DqTaskID req) (HNodeID h) (DqOwnerGeneration req)
       (claim_ttl (DqDeadline req) now) trust now db = Inr (u, db1)"
    and "DFRelease faults \<noteq> None"
  shows "left_claimed h req now db (rollbackClaim faults h req db1)"
proof -
  let ?f = "\<lambda>r. r\<lparr>TRStatus := TaskStatusRunning, TRClaimedBy := HNodeID h,
        TRClaimExpiresAt := Some (now + claim_ttl (DqDeadline req) now), TRClaimAttempt := TRClaimAttempt r + 1,
        TRStartedAt := Some now, TROwnerGeneration := DqOwnerGeneration req, TRRateLimitRetryAfter := None\<rparr>"
  obtain r0 where r0: "r0 \<in> set (db_task_runs db)" "is_row (DqRunID req) (DqTaskID req) r0"
    and rows: "db_task_runs db1 = update_where (is_row (DqRunID req) (DqTaskID req)) ?f (db_task_runs db)"
    by (rule claim_rows [OF assms(1,2)]) blast
  have "?f r0 \<in> set (db_task_runs db1)" unfolding rows set_update_where using r0 by blast
  then have "\<exists>r \<in> set (db_task_runs db1). is_row (DqRunID req) (DqTaskID req) r \<and> TRStatus r = TaskStatusRunning
      \<and> TRClaimedBy r = HNodeID h \<and> TROwnerGeneration r = DqOwnerGeneration req
      \<and> TRClaimExpiresAt r = Some (now + claim_ttl (DqDeadline req) now)"
    using r0(2) by (intro bexI [of _ "?f r0"]) (simp_all add: is_row_def)
  moreover have "filter (\<lambda>r. \<not> is_row (DqRunID req) (DqTaskID req) r) (db_task_runs db1)
      = filter (\<lambda>r. \<not> is_row (DqRunID req) (DqTaskID req) r) (db_task_runs db)"
    unfolding rows by (rule filter_update_where_other) (simp add: is_row_def)
  moreover have "db_task_runs (rollbackClaim faults h req db1) = db_task_runs db1"
    using assms(3) by (auto simp: rollbackClaim_rows)
  ultimately show ?thesis by (simp add: left_claimed_def)
qed


lemma claim_ttl_floor: "30 * 1000000000 \<le> claim_ttl deadline now"
  by (simp add: claim_ttl_def Let_def)

lemma claim_loads:
  assumes "rows_unique db"
    "ClaimTaskForDispatch runID t node g ttl trust now db = Inr (u, db1)" "LoadDispatchedTaskRun db1 runID t node = Inr r"
  shows "r \<in> set (db_task_runs db1) \<and> is_row runID t r \<and> TRStatus r = TaskStatusRunning \<and> TRClaimedBy r = node
    \<and> TROwnerGeneration r = g \<and> TRClaimExpiresAt r = Some (now + ttl)"
proof -
  define f where "f r = r\<lparr>TRStatus := TaskStatusRunning, TRClaimedBy := node,
        TRClaimExpiresAt := Some (now + ttl), TRClaimAttempt := TRClaimAttempt r + 1,
        TRStartedAt := Some now, TROwnerGeneration := g, TRRateLimitRetryAfter := None\<rparr>" for r :: task_run
  obtain r0 where rows: "db_task_runs db1 = update_where (is_row runID t) f (db_task_runs db)"
    by (rule claim_rows [OF assms(1,2)]) (auto simp: f_def [abs_def])
  have r: "r \<in> set (db_task_runs db1)" "is_row runID t r" "TRClaimedBy r = node" "TRStatus r = TaskStatusRunning"
    using assms(3) by (auto simp: LoadDispatchedTaskRun_def find_Some_iff split: option.splits)
  obtain q where "r = f q" using r(1,2) unfolding rows set_update_where by blast
  with r show ?thesis by (simp add: f_def)
qed

lemma HandleDispatch_effect:
  assumes "rows_unique db" "HandleDispatch sha h method header body submit faults now db = (db', rp, sub)"
  shows "(RpStatus rp = StatusAccepted \<longleftrightarrow> sub \<noteq> None)
    \<and> (case sub of
         None \<Rightarrow> map unclaimed_view (db_task_runs db') = map unclaimed_view (db_task_runs db)
           \<or> DFRelease faults \<noteq> None \<and> (\<exists>req. body = Some req \<and> left_claimed h req now db db')
       | Some d \<Rightarrow> submit d \<and> authorized sha h header \<and> IdTask d \<in> set (db_task_runs db')
           \<and> TRStatus (IdTask d) = TaskStatusRunning \<and> TRClaimedBy (IdTask d) = HNodeID h \<and> IdWorkerNode d = HNodeID h
           \<and> TROwnerGeneration (IdTask d) = IdOwnerGeneration d
           \<and> (\<exists>req. body = Some req \<and> is_row (DqRunID req) (DqTaskID req) (IdTask d) \<and> DqWorkerNode req = HNodeID h
                \<and> DqOwnerGeneration req = IdOwnerGeneration d)
           \<and> (\<exists>e. TRClaimExpiresAt (IdTask d) = Some e \<and> now + 30 * 1000000000 \<le> e))"
proof (cases "method \<noteq> POST \<or> \<not> authorized sha h header \<or> body = None \<or> DqWorkerNode (the body) \<noteq> HNodeID h \<or> \<not> HSubmitter h")
  case True
  then show ?thesis using assms(2)
    by (auto simp: HandleDispatch_def conflict_def http_status_defs split: if_splits option.splits)
next
  case False
  then obtain req where req: "method = POST" "authorized sha h header" "body = Some req" "DqWorkerNode req = HNodeID h" "HSubmitter h"
    by auto
  let ?claim = "ClaimTaskForDispatch (DqRunID req) (DqTaskID req) (HNodeID h) (DqOwnerGeneration req)
                       (claim_ttl (DqDeadline req) now) (HOwnerManager h) now db"
  show ?thesis
  proof (cases "db_call (DFClaim faults) ?claim")
    case (Inl e)
    then show ?thesis using assms(2) req by (auto simp: HandleDispatch_def conflict_def http_status_defs)
  next
    case (Inr x)
    then obtain db1 where c: "db_call (DFClaim faults) ?claim = Inr ((), db1)" by (cases x) auto
    then have c': "?claim = Inr ((), db1)" by (simp add: db_call_def split: option.splits)
    note loads = claim_loads [OF assms(1) c']
    have undone: "map unclaimed_view (db_task_runs (rollbackClaim faults h req db1)) = map unclaimed_view (db_task_runs db)
        \<or> DFRelease faults \<noteq> None \<and> left_claimed h req now db (rollbackClaim faults h req db1)"
      using claim_rollback_rows [OF assms(1) c'] claim_left [OF assms(1) c'] by blast
    show ?thesis
    proof (cases "db_call (DFLoad faults) (LoadDispatchedTaskRun db1 (DqRunID req) (DqTaskID req) (HNodeID h))")
      case (Inl e)
      then have "db' = rollbackClaim faults h req db1" "sub = None" "rp = conflict ReasonTaskNotRunning"
        using assms(2) req c by (simp_all add: HandleDispatch_def)
      then show ?thesis using undone req(3) by (simp add: conflict_def http_status_defs)
    next
      case (Inr r)
      then have "LoadDispatchedTaskRun db1 (DqRunID req) (DqTaskID req) (HNodeID h) = Inr r"
        by (simp add: db_call_def split: option.splits)
      from loads [OF this] Inr show ?thesis
        using assms(2) req c undone claim_ttl_floor [of "DqDeadline req" now]
        by (auto simp: HandleDispatch_def conflict_def accepted_reply_def http_status_defs Let_def split: if_splits)
    qed
  qed
qed

text \<open>
  C16. A pushed task is handed to a worker or given back, and what happens when it cannot be given
  back. The node answers 202 exactly when its worker has been handed the task, and then the row
  handed over is in the table, running, claimed by this node under the owner's generation for at
  least thirty seconds. On every other answer the task rows are what they were before the request,
  apart from the claim counter, the generation stamp and cleared runtime columns: no row has
  changed status or holder. There is one exception: the database fails the rollback of a claim, which
  the node only logs. Then every other row is untouched, and the task's row stays running and
  claimed by this node, with no worker, until the claim expires at the deadline of the request
  (in five minutes, when the deadline is less than thirty seconds away).
\<close>

theorem dispatch_accepted_or_undone:
  assumes "rows_unique db" "HandleDispatch sha h method header body submit faults now db = (db', rp, sub)"
  shows "(RpStatus rp = StatusAccepted \<longleftrightarrow> sub \<noteq> None)
    \<and> (case sub of
         None \<Rightarrow> map unclaimed_view (db_task_runs db') = map unclaimed_view (db_task_runs db)
           \<or> DFRelease faults \<noteq> None \<and> (\<exists>req. body = Some req \<and> left_claimed h req now db db')
       | Some d \<Rightarrow> submit d \<and> authorized sha h header \<and> IdTask d \<in> set (db_task_runs db')
           \<and> TRStatus (IdTask d) = TaskStatusRunning \<and> TRClaimedBy (IdTask d) = HNodeID h \<and> IdWorkerNode d = HNodeID h
           \<and> TROwnerGeneration (IdTask d) = IdOwnerGeneration d
           \<and> (\<exists>e. TRClaimExpiresAt (IdTask d) = Some e \<and> now + 30 * 1000000000 \<le> e))"
  using HandleDispatch_effect [OF assms] by (auto split: option.splits)

definition dispatch_example :: dispatch_request where
  "dispatch_example = \<lparr>DqRunID = 10, DqTaskID = 2, DqOwnerGeneration = 3, DqAttempt = 1, DqWorkerNode = ''w'',
     DqOwnerBaseURL = ''http://o'', DqDeadline = 100\<rparr>"

definition example_handler :: handler where
  "example_handler = WithWorkerSubmitter (NewHandler ''w'' ''secret'')"

definition dispatch_example_run :: "bool \<Rightarrow> dispatch_faults \<Rightarrow> store_db \<times> reply \<times> inbound_dispatch option" where
  "dispatch_example_run ok faults =
     HandleDispatch id example_handler POST ''Bearer secret'' (Some dispatch_example) (\<lambda>_. ok) faults 7 two_tasks_db"

definition release_fault :: dispatch_faults where
  "release_fault = no_dispatch_faults\<lparr>DFRelease := Some (StoreErr ''database is locked'')\<rparr>"

theorem dispatch_accepted_or_undone_witness:
  "IdTask (the (snd (snd (dispatch_example_run True no_dispatch_faults))))
       \<in> set (db_task_runs (fst (dispatch_example_run True no_dispatch_faults)))
   \<and> RpStatus (fst (snd (dispatch_example_run False no_dispatch_faults))) = 409
   \<and> map unclaimed_view (db_task_runs (fst (dispatch_example_run False no_dispatch_faults)))
       = map unclaimed_view (db_task_runs two_tasks_db)
   \<and> left_claimed example_handler dispatch_example 7 two_tasks_db (fst (dispatch_example_run False release_fault))"
proof -
  have run: "HandleDispatch id example_handler POST ''Bearer secret'' (Some dispatch_example) (\<lambda>_. ok) faults 7 two_tasks_db
      = (fst (dispatch_example_run ok faults), fst (snd (dispatch_example_run ok faults)), snd (snd (dispatch_example_run ok faults)))"
    for ok faults by (simp add: dispatch_example_run_def)
  have 1: "RpStatus (fst (snd (dispatch_example_run True no_dispatch_faults))) = StatusAccepted"
    "RpStatus (fst (snd (dispatch_example_run False no_dispatch_faults))) = 409"
    "snd (snd (dispatch_example_run False no_dispatch_faults)) = None"
    "snd (snd (dispatch_example_run False release_fault)) = None"
    "map TRStatus (db_task_runs (fst (dispatch_example_run False release_fault))) \<noteq> map TRStatus (db_task_runs two_tasks_db)"
    by code_simp+
  have "map TRStatus rs = map TRStatus (map unclaimed_view rs)" for rs by (simp add: unclaimed_view_def)
  with 1(5) have "map unclaimed_view (db_task_runs (fst (dispatch_example_run False release_fault)))
      \<noteq> map unclaimed_view (db_task_runs two_tasks_db)" by metis
  with 1 dispatch_accepted_or_undone [OF two_tasks_unique run, of True no_dispatch_faults]
    dispatch_accepted_or_undone [OF two_tasks_unique run, of False no_dispatch_faults]
    dispatch_accepted_or_undone [OF two_tasks_unique run, of False release_fault]
  show ?thesis by (auto simp: no_dispatch_faults_def)
qed


section \<open>A completion passes the fence\<close>

lemma HandleComplete_fence:
  assumes "HandleComplete sha ustr contention h method header body faults now n = (n', rp)"
    and "n' \<noteq> n \<or> RpStatus rp = StatusOK"
  obtains req status lease where "method = POST" "authorized sha h header" "body = Some req"
    "ValidCompleteStatuses (CqStatus req) = Some status" "GetLease (db_run_leases (on_db n)) (CqRunID req) = Some lease"
    "RLOwnerNode lease = HNodeID h" "now \<le> RLLeaseExpiresAt lease" "RLGeneration lease = CqOwnerGeneration req"
proof -
  have "\<not> (method \<noteq> POST \<or> \<not> authorized sha h header \<or> body = None)"
    using assms by (cases body) (auto simp: HandleComplete_def http_status_defs split: if_splits)
  then obtain req where req: "method = POST" "authorized sha h header" "body = Some req" by auto
  with assms obtain status where status: "ValidCompleteStatuses (CqStatus req) = Some status"
    by (cases "ValidCompleteStatuses (CqStatus req)") (auto simp: HandleComplete_def conflict_def http_status_defs)
  with assms req obtain lease where lease: "GetLease (db_run_leases (on_db n)) (CqRunID req) = Some lease"
    by (cases "GetLease (db_run_leases (on_db n)) (CqRunID req)") (auto simp: HandleComplete_def conflict_def http_status_defs)
  with assms req status have "\<not> (RLOwnerNode lease \<noteq> HNodeID h \<or> RLLeaseExpiresAt lease < now)" "RLGeneration lease = CqOwnerGeneration req"
    by (auto simp: HandleComplete_def conflict_def http_status_defs split: if_splits)
  with req status lease that show thesis by force
qed

text \<open>
  C11. An old owner cannot accept completions. Once a run's lease has reached a generation, then
  after any further acquisitions, sweeps and renewals of leases no node accepts a completion
  that was dispatched under a lower generation, whatever else its database and memory hold: the
  node's state is unchanged and the answer is not 200. A completion that is accepted, or changes
  anything, comes with the shared token, reports one of the three final statuses, and reaches
  the node that holds the run's lease, not yet expired, at exactly the generation it names.
\<close>

theorem stale_completion_refused:
  assumes "reachable_from lease_step [] tab" "reachable_from lease_step tab (db_run_leases (on_db n))"
    and "GetLease tab (CqRunID req) = Some l"
    and "HandleComplete sha ustr contention h method header (Some req) faults now n = (n', rp)"
  shows "(CqOwnerGeneration req < RLGeneration l \<longrightarrow> n' = n \<and> RpStatus rp \<noteq> StatusOK)
    \<and> (n' \<noteq> n \<or> RpStatus rp = StatusOK \<longrightarrow> method = POST \<and> authorized sha h header
         \<and> CqStatus req \<in> {''succeeded'', ''failed'', ''cached''}
         \<and> (\<exists>l'. GetLease (db_run_leases (on_db n)) (CqRunID req) = Some l' \<and> RLOwnerNode l' = HNodeID h
              \<and> now \<le> RLLeaseExpiresAt l' \<and> RLGeneration l' = CqOwnerGeneration req \<and> RLGeneration l \<le> RLGeneration l'))"
proof (cases "n' \<noteq> n \<or> RpStatus rp = StatusOK")
  case True
  obtain l' status where l': "method = POST" "authorized sha h header" "ValidCompleteStatuses (CqStatus req) = Some status"
    "GetLease (db_run_leases (on_db n)) (CqRunID req) = Some l'" "RLOwnerNode l' = HNodeID h"
    "now \<le> RLLeaseExpiresAt l'" "RLGeneration l' = CqOwnerGeneration req"
    by (rule HandleComplete_fence [OF assms(4) True]) blast
  have "RLGeneration l \<le> RLGeneration l'"
    using leases_reachable_forward [OF leases_reachable_ok [OF assms(1)] assms(2), unfolded lease_forward_def, rule_format, OF assms(3)]
      l'(4) by auto
  moreover have "CqStatus req \<in> {''succeeded'', ''failed'', ''cached''}"
    using l'(3) by (auto simp: ValidCompleteStatuses_def split: if_splits)
  ultimately show ?thesis using l' by auto
qed simp


definition example_leases :: lease_table where
  "example_leases = fst (AcquireExpiredLeases (fst (AcquireLease [] 10 ''a'' 10 0)) ''b'' 10 20)"

definition leased_node :: owner_node where
  "leased_node = example_node\<lparr>on_db := (on_db example_node)\<lparr>db_run_leases := example_leases\<rparr>\<rparr>"

definition example_completion :: "int \<Rightarrow> complete_request" where
  "example_completion g = \<lparr>CqRunID = 10, CqTaskID = 1, CqOwnerGeneration = g, CqAttempt = 1, CqWorkerNode = ''w'',
     CqStatus = ''succeeded'', CqResult = ''ok'', CqOutputs = [], CqBranchSelections = [], CqError = ''''\<rparr>"

definition example_complete :: "int \<Rightarrow> owner_node \<times> reply" where
  "example_complete g = HandleComplete id (\<lambda>_. '''') (\<lambda>_. False) (WithOwnerManager (NewHandler ''b'' ''secret'')) POST
     ''bearer secret'' (Some (example_completion g)) no_faults 25 leased_node"

theorem stale_completion_refused_witness:
  "fst (example_complete 1) = leased_node \<and> RpStatus (snd (example_complete 1)) \<noteq> StatusOK
   \<and> RpStatus (snd (example_complete 2)) = StatusOK
   \<and> (\<exists>l'. GetLease example_leases 10 = Some l' \<and> RLOwnerNode l' = ''b'' \<and> 25 \<le> RLLeaseExpiresAt l')"
proof -
  have leases: "db_run_leases (on_db leased_node) = example_leases" by (simp add: leased_node_def)
  have "lease_step [] (fst (AcquireLease [] 10 ''a'' 10 0))" "lease_step (fst (AcquireLease [] 10 ''a'' 10 0)) example_leases"
    unfolding example_leases_def by (rule lease_step.acquire lease_step.sweep, simp)+
  then have 1: "reachable_from lease_step [] example_leases"
    by (meson reachable_init reachable_step)
  have 2: "reachable_from lease_step example_leases (db_run_leases (on_db leased_node))"
    unfolding leases by (rule reachable_init)
  obtain l where l: "GetLease example_leases (CqRunID (example_completion g)) = Some l" "RLGeneration l = 2" for g
    by (simp add: example_leases_def example_completion_def AcquireLease_def AcquireExpiredLeases_def GetLease_def
        expired_for_def takeover_def)
  have run: "HandleComplete id (\<lambda>_. '''') (\<lambda>_. False) (WithOwnerManager (NewHandler ''b'' ''secret'')) POST
     ''bearer secret'' (Some (example_completion g)) no_faults 25 leased_node = (fst (example_complete g), snd (example_complete g))" for g
    by (simp add: example_complete_def)
  have ok: "RpStatus (snd (example_complete 2)) = StatusOK" by code_simp
  have "CqOwnerGeneration (example_completion 1) < RLGeneration l" "CqRunID (example_completion 2) = 10"
    by (simp_all add: l example_completion_def)
  with stale_completion_refused [OF 1 2 l(1) run, of 1] stale_completion_refused [OF 1 2 l(1) run, of 2] ok leases
  show ?thesis by (auto simp: WithOwnerManager_def NewHandler_def)
qed

end
