(* ===== verification/Go_Duration.thy ===== *)
theory Go_Duration
  imports Caesium_Prelude
begin

text \<open>
  \<open>time.ParseDuration\<close> and \<open>Time.Truncate\<close> of Go's standard library, which the job definitions
  and the rate limiter use. A duration is a number of nanoseconds. The fractional part of a
  component is computed exactly, where the library rounds a product of floating-point numbers.
\<close>

definition go_second :: int where "go_second = 1000000000"
definition go_minute :: int where "go_minute = 60 * go_second"
definition go_hour :: int where "go_hour = 60 * go_minute"

lemmas go_unit_defs = go_second_def go_minute_def go_hour_def

definition is_digit :: "char \<Rightarrow> bool" where
  "is_digit c \<longleftrightarrow> 48 \<le> (of_char c :: nat) \<and> (of_char c :: nat) \<le> 57"

definition digit_val :: "char \<Rightarrow> int" where
  "digit_val c = int (of_char c) - 48"

text \<open>The leading digits of a string as a number of at most 63 bits, and the rest.\<close>

fun leadingInt :: "int \<Rightarrow> string \<Rightarrow> (int \<times> string) option" where
  "leadingInt x [] = Some (x, [])"
| "leadingInt x (c # s) =
     (if \<not> is_digit c then Some (x, c # s)
      else if x > 2 ^ 63 div 10 then None
      else let y = x * 10 + digit_val c in if y > 2 ^ 63 then None else leadingInt y s)"

text \<open>The digits of a fraction: numerator, scale and rest; digits beyond 63 bits are dropped.\<close>

fun leadingFraction :: "int \<Rightarrow> int \<Rightarrow> bool \<Rightarrow> string \<Rightarrow> int \<times> int \<times> string" where
  "leadingFraction x scale over [] = (x, scale, [])"
| "leadingFraction x scale over (c # s) =
     (if \<not> is_digit c then (x, scale, c # s)
      else if over \<or> x > (2 ^ 63 - 1) div 10 then leadingFraction x scale True s
      else let y = x * 10 + digit_val c
           in if y > 2 ^ 63 then leadingFraction x scale True s else leadingFraction y (scale * 10) False s)"

definition unitMap :: "string \<Rightarrow> int option" where
  "unitMap u =
     (if u = ''ns'' then Some 1
      else if u = ''us'' \<or> u = [CHR 0xC2, CHR 0xB5, CHR ''s''] \<or> u = [CHR 0xCE, CHR 0xBC, CHR ''s''] then Some 1000
      else if u = ''ms'' then Some 1000000
      else if u = ''s'' then Some go_second
      else if u = ''m'' then Some go_minute
      else if u = ''h'' then Some go_hour
      else None)"

lemma leadingInt_length: "leadingInt x s = Some (v, r) \<Longrightarrow> length r \<le> length s"
  by (induction x s rule: leadingInt.induct) (auto simp: Let_def split: if_splits)

lemma leadingFraction_length: "leadingFraction x sc ov s = (v, k, r) \<Longrightarrow> length r \<le> length s"
  by (induction x sc ov s rule: leadingFraction.induct) (auto simp: Let_def split: if_splits)

text \<open>One component, such as \<open>1.5h\<close>: its value in nanoseconds and the rest of the string.\<close>

definition duration_unit_end :: "char \<Rightarrow> bool" where
  "duration_unit_end c \<longleftrightarrow> c = CHR ''.'' \<or> is_digit c"

definition parse_component :: "string \<Rightarrow> (int \<times> string) option" where
  "parse_component s =
     (if s = [] \<or> \<not> duration_unit_end (hd s) then None
      else case leadingInt 0 s of
        None \<Rightarrow> None
      | Some (v, s1) \<Rightarrow>
          let pre = length s \<noteq> length s1;
              (f, scale, s2) = (if s1 \<noteq> [] \<and> hd s1 = CHR ''.'' then leadingFraction 0 1 False (tl s1) else (0, 1, s1));
              post = (s1 \<noteq> [] \<and> hd s1 = CHR ''.'' \<and> length (tl s1) \<noteq> length s2);
              u = takeWhile (\<lambda>c. \<not> duration_unit_end c) s2;
              s3 = dropWhile (\<lambda>c. \<not> duration_unit_end c) s2
          in if \<not> pre \<and> \<not> post then None
             else if u = [] then None
             else case unitMap u of
               None \<Rightarrow> None
             | Some un \<Rightarrow>
                 if v > 2 ^ 63 div un then None
                 else let w = v * un + (if f > 0 then (f * un) div scale else 0)
                      in if w > 2 ^ 63 then None else Some (w, s3))"

lemma parse_component_shorter: "parse_component s = Some (w, r) \<Longrightarrow> length r < length s"
proof -
  assume a: "parse_component s = Some (w, r)"
  obtain v s1 where i: "leadingInt 0 s = Some (v, s1)"
    using a by (auto simp: parse_component_def split: if_splits option.splits)
  define s2 where "s2 = (if s1 \<noteq> [] \<and> hd s1 = CHR ''.'' then snd (snd (leadingFraction 0 1 False (tl s1))) else s1)"
  have le: "length s2 \<le> length s1"
    using leadingFraction_length [of 0 1 False "tl s1"] unfolding s2_def
    by (cases "leadingFraction 0 1 False (tl s1)") (auto simp: le_trans)
  have r: "r = dropWhile (\<lambda>c. \<not> duration_unit_end c) s2" "takeWhile (\<lambda>c. \<not> duration_unit_end c) s2 \<noteq> []"
    using a i unfolding s2_def by (auto simp: parse_component_def Let_def split: if_splits option.splits prod.splits)
  have "length s2 = length (takeWhile (\<lambda>c. \<not> duration_unit_end c) s2) + length r"
    unfolding r(1) by (metis length_append takeWhile_dropWhile_id)
  then show "length r < length s" using r(2) le leadingInt_length [OF i] by (cases "takeWhile (\<lambda>c. \<not> duration_unit_end c) s2") auto
qed

function parse_components :: "int \<Rightarrow> string \<Rightarrow> int option" where
  "parse_components d s =
     (if s = [] then Some d
      else case parse_component s of
        None \<Rightarrow> None
      | Some (w, r) \<Rightarrow>
          let d1 = (d + w) mod 2 ^ 64 in if d1 > 2 ^ 63 then None else parse_components d1 r)"
  by pat_completeness auto
termination
  by (relation "measure (length \<circ> snd)") (auto simp: parse_component_shorter)

declare parse_components.simps [simp del]

definition ParseDuration :: "string \<Rightarrow> int option" where
  "ParseDuration s0 =
     (let neg = (s0 \<noteq> [] \<and> hd s0 = CHR ''-'');
          s = (if s0 \<noteq> [] \<and> hd s0 \<in> set [CHR ''-'', CHR ''+''] then tl s0 else s0)
      in if s = ''0'' then Some 0
         else if s = [] then None
         else case parse_components 0 s of
           None \<Rightarrow> None
         | Some d \<Rightarrow> if neg then Some (- d) else if d > 2 ^ 63 - 1 then None else Some d)"

text \<open>A time rounded down to a multiple of a duration; times count from the library's zero time.\<close>

definition Truncate :: "int \<Rightarrow> int \<Rightarrow> int" where
  "Truncate t d = (if d \<le> 0 then t else t - t mod d)"

lemma Truncate_bounds: "0 < d \<Longrightarrow> Truncate t d \<le> t \<and> t < Truncate t d + d"
  using pos_mod_sign [of d t] pos_mod_bound [of d t] by (simp add: Truncate_def)

lemma Truncate_next: "0 < d \<Longrightarrow> Truncate (Truncate t d + d) d = Truncate t d + d"
  by (simp add: Truncate_def minus_mod_eq_mult_div)

lemma Truncate_eqI:
  assumes "0 < d" "Truncate s d \<le> t" "t < Truncate s d + d"
  shows "Truncate t d = Truncate s d"
proof -
  have "t mod d = (t - Truncate s d) mod d"
    using assms(1) by (simp add: Truncate_def minus_mod_eq_mult_div mod_diff_right_eq [symmetric])
  also have "\<dots> = t - Truncate s d" using assms by simp
  finally show ?thesis using assms(1) by (simp add: Truncate_def)
qed

lemma ParseDuration_examples:
  "ParseDuration ''1h30m'' = Some (90 * go_minute)" "ParseDuration ''-1.5s'' = Some (- 1500000000)"
  "ParseDuration ''5'' = None" "ParseDuration '''' = None" "ParseDuration ''1d'' = None"
  by code_simp+

end
