(* ===== verification/Rate_Limit.thy ===== *)
theory Rate_Limit
  imports Go_Duration Store_DB Run_Lease
begin

text \<open>
  The rate limiter (\<open>internal/ratelimit\<close>): tokens of a resource are taken from fixed windows kept
  in a table that all nodes share; expired windows are pruned. A window is named by its start.
\<close>

section \<open>Tokens\<close>

record rate_limit_token =
  RTResource :: string
  RTWindowKey :: timestamp
  RTConsumed :: int
  RTLimitVal :: int
  RTExpiresAt :: timestamp

type_synonym token_table = "rate_limit_token list"

datatype limit_error =
    ErrResourceRequired
  | ErrUnitsNotPositive string
  | ErrLimitNotPositive string

definition minWindow :: int where "minWindow = go_minute"

definition NormalizeWindow :: "int \<Rightarrow> int" where
  "NormalizeWindow window = (if window < minWindow then minWindow else window)"

definition window_row :: "string \<Rightarrow> timestamp \<Rightarrow> rate_limit_token \<Rightarrow> bool" where
  "window_row resource key r \<longleftrightarrow> RTResource r = resource \<and> RTWindowKey r = key"

text \<open>The guarded upsert; its value says whether a row was written.\<close>

definition consume ::
    "string \<Rightarrow> timestamp \<Rightarrow> int \<Rightarrow> int \<Rightarrow> timestamp \<Rightarrow> token_table \<Rightarrow> token_table \<times> bool" where
  "consume resource key units limit expires tab =
     (case find (window_row resource key) tab of
        None \<Rightarrow> (tab @ [\<lparr>RTResource = resource, RTWindowKey = key, RTConsumed = units, RTLimitVal = limit,
                        RTExpiresAt = expires\<rparr>], True)
      | Some r \<Rightarrow>
          if RTConsumed r + units \<le> limit
          then (update_where (window_row resource key)
                  (\<lambda>r. r\<lparr>RTConsumed := RTConsumed r + units, RTLimitVal := limit\<rparr>) tab, True)
          else (tab, False))"

definition Acquire ::
    "string \<Rightarrow> int \<Rightarrow> int \<Rightarrow> int \<Rightarrow> timestamp \<Rightarrow> token_table \<Rightarrow> token_table \<times> (limit_error + bool)" where
  "Acquire resource0 units limit window now tab =
     (let resource = TrimSpace resource0
      in if resource = '''' then (tab, Inl ErrResourceRequired)
         else if units \<le> 0 then (tab, Inl (ErrUnitsNotPositive resource))
         else if limit \<le> 0 then (tab, Inl (ErrLimitNotPositive resource))
         else if units > limit then (tab, Inr False)
         else let w = NormalizeWindow window; start = Truncate now w;
                  (tab', ok) = consume resource start units limit (start + w) tab
              in (tab', Inr ok))"

definition RetryAfter :: "timestamp \<Rightarrow> int \<Rightarrow> int" where
  "RetryAfter now window0 =
     (let window = NormalizeWindow window0; next_start = Truncate now window + window
      in if \<not> next_start > now then 0 else next_start - now)"

definition Prune :: "timestamp \<Rightarrow> token_table \<Rightarrow> token_table \<times> nat" where
  "Prune now tab = (filter (\<lambda>r. \<not> RTExpiresAt r \<le> now) tab, length (filter (\<lambda>r. RTExpiresAt r \<le> now) tab))"

section \<open>The rule of a task\<close>

record rate_rule =
  RuleResource :: string
  RuleUnits :: int
  RuleLimit :: int
  RuleWindow :: int
  RuleJobAlias :: string

datatype rule_error =
    NoDeclarations string
  | DecodeDeclarations string
  | BadWindow string
  | NotDeclared string

fun find_rule :: "string \<Rightarrow> string \<Rightarrow> int \<Rightarrow> rate_limit list \<Rightarrow> rule_error + rate_rule option" where
  "find_rule jobAlias resource units [] = Inl (NotDeclared resource)"
| "find_rule jobAlias resource units (declaration # rest) =
     (if TrimSpace (RateResource declaration) \<noteq> resource then find_rule jobAlias resource units rest
      else case ParseDuration (RateWindow declaration) of
        None \<Rightarrow> Inl (BadWindow resource)
      | Some window \<Rightarrow> Inr (Some \<lparr>RuleResource = resource, RuleUnits = units, RuleLimit = RateLimitMax declaration,
                                RuleWindow = window, RuleJobAlias = jobAlias\<rparr>))"

definition RuleFromRateLimits :: "string \<Rightarrow> rate_limit list \<Rightarrow> string \<Rightarrow> int \<Rightarrow> rule_error + rate_rule option" where
  "RuleFromRateLimits jobAlias declarations resource0 units =
     (let resource = TrimSpace resource0
      in if resource = '''' \<or> units \<le> 0 then Inr None else find_rule jobAlias resource units declarations)"

definition RuleFromDeclarations :: "string \<Rightarrow> rate_limits_column \<Rightarrow> string \<Rightarrow> int \<Rightarrow> rule_error + rate_rule option" where
  "RuleFromDeclarations jobAlias raw resource0 units =
     (let resource = TrimSpace resource0
      in if resource = '''' \<or> units \<le> 0 then Inr None
         else case raw of
           NoRateLimits \<Rightarrow> Inl (NoDeclarations resource)
         | UndecodableRateLimits e \<Rightarrow> Inl (DecodeDeclarations e)
         | RateLimits declarations \<Rightarrow> RuleFromRateLimits jobAlias declarations resource units)"

text \<open>The query joins the task run with its task, its run and the run's job.\<close>

definition rule_row :: "store_db \<Rightarrow> uuid \<Rightarrow> uuid \<Rightarrow> (task_model \<times> job_model) option" where
  "rule_row db runID taskID =
     (if find (is_row runID taskID) (db_task_runs db) = None then None
      else case find (\<lambda>t. TMID t = taskID) (db_tasks db) of
        None \<Rightarrow> None
      | Some t \<Rightarrow> (case find (\<lambda>r. JRID r = runID) (db_job_runs db) of
            None \<Rightarrow> None
          | Some r \<Rightarrow> (case find (\<lambda>j. JMID j = JRJobID r) (db_jobs db) of
                None \<Rightarrow> None
              | Some j \<Rightarrow> Some (t, j))))"

definition RuleForTask :: "store_db \<Rightarrow> uuid \<Rightarrow> uuid \<Rightarrow> rule_error + rate_rule option" where
  "RuleForTask db runID taskID =
     (case rule_row db runID taskID of
        None \<Rightarrow> Inr None
      | Some (t, j) \<Rightarrow>
          if TrimSpace (TMRateLimitResource t) = '''' then Inr None
          else RuleFromDeclarations (JMAlias j) (JMRateLimits j) (TMRateLimitResource t) (TMRateLimitUnits t))"

section \<open>The limit holds in every window\<close>

text \<open>
  A history of the limiter. Every resource has one limit and one window, the clock does not
  run backwards, and every grant is recorded with its resource, its time and its units.
\<close>

record limiter_state =
  LsTable :: token_table
  LsClock :: timestamp
  LsGrants :: "(string \<times> timestamp \<times> int) list"

inductive limiter_step :: "(string \<Rightarrow> int) \<Rightarrow> (string \<Rightarrow> int) \<Rightarrow> limiter_state \<Rightarrow> limiter_state \<Rightarrow> bool" for lim win where
  granted: "LsClock s \<le> now \<Longrightarrow>
     Acquire res units (lim (TrimSpace res)) (win (TrimSpace res)) now (LsTable s) = (tab', Inr True) \<Longrightarrow>
     limiter_step lim win s \<lparr>LsTable = tab', LsClock = now, LsGrants = (TrimSpace res, now, units) # LsGrants s\<rparr>"
| refused: "LsClock s \<le> now \<Longrightarrow>
     Acquire res units (lim (TrimSpace res)) (win (TrimSpace res)) now (LsTable s) = (tab', out) \<Longrightarrow> out \<noteq> Inr True \<Longrightarrow>
     limiter_step lim win s (s\<lparr>LsTable := tab', LsClock := now\<rparr>)"
| prune: "LsClock s \<le> now \<Longrightarrow> limiter_step lim win s (s\<lparr>LsTable := fst (Prune now (LsTable s)), LsClock := now\<rparr>)"

text \<open>The units of a resource granted in the window that starts at a time.\<close>

definition used :: "(string \<Rightarrow> int) \<Rightarrow> (string \<times> timestamp \<times> int) list \<Rightarrow> string \<Rightarrow> timestamp \<Rightarrow> int" where
  "used win grants res start =
     (\<Sum>(r, t, u) \<leftarrow> grants. if r = res \<and> Truncate t (NormalizeWindow (win res)) = start then u else 0)"

definition limiter_inv :: "(string \<Rightarrow> int) \<Rightarrow> (string \<Rightarrow> int) \<Rightarrow> limiter_state \<Rightarrow> bool" where
  "limiter_inv lim win s \<longleftrightarrow>
     (\<forall>res start. used win (LsGrants s) res start \<le> max 0 (lim res)
        \<and> (case find (window_row res start) (LsTable s) of
             Some r \<Rightarrow> RTConsumed r = used win (LsGrants s) res start
           | None \<Rightarrow> LsClock s < start + NormalizeWindow (win res) \<longrightarrow> used win (LsGrants s) res start = 0))
     \<and> (\<forall>(r, t, u) \<in> set (LsGrants s). t \<le> LsClock s \<and> 0 < u)
     \<and> (\<forall>r \<in> set (LsTable s). RTExpiresAt r = RTWindowKey r + NormalizeWindow (win (RTResource r)))"

definition limiter_start :: "timestamp \<Rightarrow> limiter_state" where
  "limiter_start t0 = \<lparr>LsTable = [], LsClock = t0, LsGrants = []\<rparr>"

lemma NormalizeWindow_pos: "0 < NormalizeWindow w"
  by (simp add: NormalizeWindow_def minWindow_def go_unit_defs)

lemma used_Cons:
  "used win ((r, t, u) # g) res start =
     (if r = res \<and> Truncate t (NormalizeWindow (win res)) = start then u else 0) + used win g res start"
  by (simp add: used_def)

lemma used_nonneg: "\<forall>(r, t, u) \<in> set g. 0 < u \<Longrightarrow> 0 \<le> used win g res start"
  by (induction g) (auto simp: used_def)

lemma find_append: "find P (xs @ ys) = (case find P xs of None \<Rightarrow> find P ys | Some x \<Rightarrow> Some x)"
  by (induction xs) auto

lemma Acquire_cases:
  assumes "Acquire res units limit window now tab = (tab', out)"
  obtains (rejected) "tab' = tab" "out \<noteq> Inr True"
  | (consumed) "0 < units" "units \<le> limit"
      "consume (TrimSpace res) (Truncate now (NormalizeWindow window)) units limit
         (Truncate now (NormalizeWindow window) + NormalizeWindow window) tab = (tab', out = Inr True)" "isl out = False"
  using assms by (auto simp: Acquire_def Let_def split: if_splits prod.splits)

lemma limiter_inv_clock:
  "limiter_inv lim win s \<Longrightarrow> LsClock s \<le> now \<Longrightarrow> limiter_inv lim win (s\<lparr>LsClock := now\<rparr>)"
  by (force simp: limiter_inv_def split: option.splits)


lemma find_filter_const:
  assumes "\<And>x. x \<in> set xs \<Longrightarrow> P x \<Longrightarrow> Q x = b"
  shows "find P (filter Q xs) = (if b then find P xs else None)"
  using assms by (induction xs) (auto simp: find_None_iff)

lemma find_hit: "find P xs = Some x \<Longrightarrow> P x"
  by (auto simp: find_Some_iff)

lemma window_row_eq: "window_row res start r \<longleftrightarrow> res = RTResource r \<and> start = RTWindowKey r"
  by (auto simp: window_row_def)

lemma consume_find:
  assumes "consume res key units limit expires tab = (tab', ok)"
  shows "find (window_row res' key') tab' =
     (if ok \<and> res' = res \<and> key' = key
      then Some (case find (window_row res key) tab of
             None \<Rightarrow> \<lparr>RTResource = res, RTWindowKey = key, RTConsumed = units, RTLimitVal = limit, RTExpiresAt = expires\<rparr>
           | Some r \<Rightarrow> r\<lparr>RTConsumed := RTConsumed r + units, RTLimitVal := limit\<rparr>)
      else find (window_row res' key') tab)"
proof (cases "find (window_row res key) tab")
  case None
  then show ?thesis using assms
    by (auto simp: consume_def find_append window_row_def split: option.splits)
next
  case (Some r)
  have "find (window_row res' key') (update_where (window_row res key)
          (\<lambda>r. r\<lparr>RTConsumed := RTConsumed r + units, RTLimitVal := limit\<rparr>) tab) =
        map_option (\<lambda>r. if window_row res key r then r\<lparr>RTConsumed := RTConsumed r + units, RTLimitVal := limit\<rparr> else r)
          (find (window_row res' key') tab)"
    by (rule find_update_where) (simp add: window_row_def)
  moreover have "window_row res key r" using Some by (auto simp: find_Some_iff)
  moreover have "map_option (\<lambda>r. if window_row res key r then r\<lparr>RTConsumed := RTConsumed r + units, RTLimitVal := limit\<rparr> else r)
          (find (window_row res' key') tab) = find (window_row res' key') tab" if "(res', key') \<noteq> (res, key)"
    using that by (cases "find (window_row res' key') tab") (auto dest!: find_hit simp: window_row_eq)
  ultimately show ?thesis using assms Some
    by (auto simp: consume_def split: if_splits)
qed

lemma consume_expires:
  assumes "consume res key units limit expires tab = (tab', ok)" "expires = key + w res"
    "\<forall>r \<in> set tab. RTExpiresAt r = RTWindowKey r + w (RTResource r)"
  shows "\<forall>r \<in> set tab'. RTExpiresAt r = RTWindowKey r + w (RTResource r)"
  using assms by (auto simp: consume_def set_update_where split: option.splits if_splits)

lemma consume_ok:
  "consume res key units limit expires tab = (tab', ok) \<Longrightarrow>
     ok \<longleftrightarrow> (case find (window_row res key) tab of None \<Rightarrow> True | Some r \<Rightarrow> RTConsumed r + units \<le> limit)"
  by (auto simp: consume_def split: option.splits if_splits)

lemma consume_refused: "consume res key units limit expires tab = (tab', False) \<Longrightarrow> tab' = tab"
  by (auto simp: consume_def split: option.splits if_splits)

lemma limiter_inv_grant:
  fixes s :: limiter_state and win :: "string \<Rightarrow> int"
  defines "w \<equiv> \<lambda>res. NormalizeWindow (win res)"
  assumes inv: "limiter_inv lim win s" and now: "now = LsClock s" and u: "0 < units" "units \<le> lim res"
    and c: "consume res (Truncate now (w res)) units (lim res) (Truncate now (w res) + w res) (LsTable s) = (tab', True)"
  shows "limiter_inv lim win \<lparr>LsTable = tab', LsClock = now, LsGrants = (res, now, units) # LsGrants s\<rparr>"
proof -
  let ?start = "Truncate now (w res)"
  have fresh: "now < ?start + w res" using Truncate_bounds [OF NormalizeWindow_pos, of now] by (simp add: w_def)
  have old: "used win (LsGrants s) res' start \<le> max 0 (lim res')"
    "case find (window_row res' start) (LsTable s) of
             Some r \<Rightarrow> RTConsumed r = used win (LsGrants s) res' start
           | None \<Rightarrow> now < start + w res' \<longrightarrow> used win (LsGrants s) res' start = 0" for res' start
    using inv unfolding limiter_inv_def w_def now by blast+
  have room: "used win (LsGrants s) res ?start + units \<le> lim res"
    using old(2) [where res' = res and start = ?start] fresh u consume_ok [OF c] by (auto split: option.splits)
  have "used win ((res, now, units) # LsGrants s) res' start \<le> max 0 (lim res')" for res' start
    using old(1) [where res' = res' and start = start] room by (auto simp: used_Cons w_def)
  moreover have "case find (window_row res' start) tab' of
             Some r \<Rightarrow> RTConsumed r = used win ((res, now, units) # LsGrants s) res' start
           | None \<Rightarrow> now < start + w res' \<longrightarrow> used win ((res, now, units) # LsGrants s) res' start = 0" for res' start
    using old(2) [where res' = res' and start = start] old(2) [where res' = res and start = ?start] fresh
    by (auto simp: consume_find [OF c] used_Cons w_def split: option.splits)
  moreover have "\<forall>r \<in> set tab'. RTExpiresAt r = RTWindowKey r + w (RTResource r)"
    using inv by (intro consume_expires [OF c, where w = w]) (auto simp: limiter_inv_def w_def)
  moreover have "\<forall>(r, t, u) \<in> set ((res, now, units) # LsGrants s). t \<le> now \<and> 0 < u"
    using inv u(1) by (simp add: limiter_inv_def now)
  ultimately show ?thesis unfolding limiter_inv_def w_def limiter_state.simps by blast
qed

lemma limiter_inv_prune:
  assumes inv: "limiter_inv lim win s"
  shows "limiter_inv lim win \<lparr>LsTable = fst (Prune (LsClock s) (LsTable s)), LsClock = LsClock s, LsGrants = LsGrants s\<rparr>"
proof -
  have hit: "find (window_row res start) (fst (Prune (LsClock s) (LsTable s))) =
      (if LsClock s < start + NormalizeWindow (win res) then find (window_row res start) (LsTable s) else None)" for res start
    unfolding Prune_def fst_conv using inv
    by (intro find_filter_const) (auto simp: limiter_inv_def window_row_eq)
  have "case find (window_row res start) (LsTable s) of
             Some r \<Rightarrow> RTConsumed r = used win (LsGrants s) res start
           | None \<Rightarrow> LsClock s < start + NormalizeWindow (win res) \<longrightarrow> used win (LsGrants s) res start = 0" for res start
    using inv unfolding limiter_inv_def by blast
  then have "case find (window_row res start) (fst (Prune (LsClock s) (LsTable s))) of
             Some r \<Rightarrow> RTConsumed r = used win (LsGrants s) res start
           | None \<Rightarrow> LsClock s < start + NormalizeWindow (win res) \<longrightarrow> used win (LsGrants s) res start = 0" for res start
    by (simp add: hit)
  moreover have "set (fst (Prune (LsClock s) (LsTable s))) \<subseteq> set (LsTable s)" by (auto simp: Prune_def)
  ultimately show ?thesis using inv unfolding limiter_inv_def limiter_state.simps by blast
qed

lemma limiter_step_inv: "limiter_inv lim win s \<Longrightarrow> limiter_step lim win s s' \<Longrightarrow> limiter_inv lim win s'"
proof (elim limiter_step.cases)
  fix s0 now res units tab'
  assume inv: "limiter_inv lim win s" and s: "s = s0" "LsClock s0 \<le> now"
    and s': "s' = \<lparr>LsTable = tab', LsClock = now, LsGrants = (TrimSpace res, now, units) # LsGrants s0\<rparr>"
    and a: "Acquire res units (lim (TrimSpace res)) (win (TrimSpace res)) now (LsTable s0) = (tab', Inr True)"
  from limiter_inv_clock [OF inv] s have inv': "limiter_inv lim win (s0\<lparr>LsClock := now\<rparr>)" by simp
  from a show "limiter_inv lim win s'"
  proof (cases rule: Acquire_cases)
    case consumed
    with limiter_inv_grant [OF inv', of now units "TrimSpace res" tab'] show ?thesis by (simp add: s')
  qed simp
next
  fix s0 now res units tab' out
  assume inv: "limiter_inv lim win s" and s: "s = s0" "LsClock s0 \<le> now"
    and s': "s' = s0\<lparr>LsTable := tab', LsClock := now\<rparr>" and out: "out \<noteq> Inr True"
    and a: "Acquire res units (lim (TrimSpace res)) (win (TrimSpace res)) now (LsTable s0) = (tab', out)"
  from limiter_inv_clock [OF inv] s have inv': "limiter_inv lim win (s0\<lparr>LsClock := now\<rparr>)" by simp
  have "tab' = LsTable s0" using a
    by (cases rule: Acquire_cases) (use out in \<open>auto dest: consume_refused\<close>)
  with inv' show "limiter_inv lim win s'" by (simp add: s')
next
  fix s0 now
  assume inv: "limiter_inv lim win s" and s: "s = s0" "LsClock s0 \<le> now"
    and s': "s' = s0\<lparr>LsTable := fst (Prune now (LsTable s0)), LsClock := now\<rparr>"
  from limiter_inv_prune [OF limiter_inv_clock [OF inv, of now]] s show "limiter_inv lim win s'"
    by (cases s0) (simp add: s')
qed

interpretation limiter: step_machine "\<lambda>s. \<exists>t0. s = limiter_start t0" "limiter_step lim win" "limiter_inv lim win" for lim win
proof unfold_locales
  show "limiter_inv lim win s" if "\<exists>t0. s = limiter_start t0" for s
    using that by (auto simp: limiter_inv_def limiter_start_def used_def)
qed (rule limiter_step_inv)


lemma RetryAfter_next: "0 < RetryAfter now w \<and> RetryAfter now w \<le> NormalizeWindow w
    \<and> Truncate (now + RetryAfter now w) (NormalizeWindow w) = now + RetryAfter now w"
  using Truncate_bounds [OF NormalizeWindow_pos, of now w] Truncate_next [OF NormalizeWindow_pos, of now w]
  by (simp add: RetryAfter_def Let_def)

lemma used_future: "\<forall>(r, t, u) \<in> set g. t < start \<Longrightarrow> used win g res start = 0"
proof (induction g)
  case (Cons x g)
  obtain r t u where x: "x = (r, t, u)" by (cases x) auto
  have "Truncate t (NormalizeWindow (win res)) \<noteq> start"
    using Cons.prems Truncate_bounds [OF NormalizeWindow_pos, of t "win res"] by (auto simp: x)
  with Cons show ?case by (simp add: x used_Cons)
qed (simp add: used_def)

lemma Acquire_exact:
  assumes inv: "limiter_inv lim win s" and now: "LsClock s \<le> now"
    and res: "TrimSpace res = res" "res \<noteq> ''''" and u: "0 < units" "0 < lim res"
  shows "snd (Acquire res units (lim res) (win res) now (LsTable s)) =
    Inr (used win (LsGrants s) res (Truncate now (NormalizeWindow (win res))) + units \<le> lim res)"
proof (cases "units \<le> lim res")
  case True
  let ?w = "NormalizeWindow (win res)" and ?start = "Truncate now (NormalizeWindow (win res))"
  obtain tab' ok where c: "consume res ?start units (lim res) (?start + ?w) (LsTable s) = (tab', ok)" by fastforce
  have "LsClock s < ?start + ?w" using Truncate_bounds [OF NormalizeWindow_pos, of now "win res"] now by simp
  moreover have "case find (window_row res ?start) (LsTable s) of
             Some r \<Rightarrow> RTConsumed r = used win (LsGrants s) res ?start
           | None \<Rightarrow> LsClock s < ?start + ?w \<longrightarrow> used win (LsGrants s) res ?start = 0"
    using inv unfolding limiter_inv_def by blast
  ultimately have "ok \<longleftrightarrow> used win (LsGrants s) res ?start + units \<le> lim res"
    using consume_ok [OF c] True by (auto split: option.splits)
  then show ?thesis using True u res c by (simp add: Acquire_def Let_def)
next
  case False
  have "0 \<le> used win (LsGrants s) res (Truncate now (NormalizeWindow (win res)))"
    using inv by (intro used_nonneg) (auto simp: limiter_inv_def)
  with False u res show ?thesis by (simp add: Acquire_def Let_def)
qed

text \<open>
  C12. The rate limit is exact. Along any history of acquisitions and prunings with one limit and
  one window per resource and a clock that does not run backwards, a request for units of a
  resource is granted exactly when the units already granted in the current window leave room
  for it, so no window ever grants more than the limit; and a request that is refused and
  repeated at the time the limiter computes for the retry is granted, if it fits the limit at all
  and no other request has been granted from then on.
\<close>

theorem rate_limit_exact:
  assumes "reachable_from (limiter_step lim win) (limiter_start t0) s" "LsClock s \<le> now"
    and "TrimSpace res = res" "res \<noteq> ''''" "0 < units" "0 < lim res"
  shows "snd (Acquire res units (lim res) (win res) now (LsTable s)) =
      Inr (used win (LsGrants s) res (Truncate now (NormalizeWindow (win res))) + units \<le> lim res)
    \<and> used win (LsGrants s) res start \<le> lim res
    \<and> (units \<le> lim res \<longrightarrow>
        snd (Acquire res units (lim res) (win res) (now + RetryAfter now (win res)) (LsTable s)) = Inr True)"
proof -
  have inv: "limiter_inv lim win s" by (rule limiter.inv_reachable [OF _ assms(1)]) blast
  let ?next = "now + RetryAfter now (win res)"
  have "LsClock s < ?next" using assms(2) RetryAfter_next [of now "win res"] by simp
  then have "used win (LsGrants s) res ?next = 0"
    using inv by (intro used_future) (fastforce simp: limiter_inv_def)
  moreover have "used win (LsGrants s) res start \<le> max 0 (lim res)" using inv unfolding limiter_inv_def by blast
  ultimately show ?thesis
    using Acquire_exact [OF inv assms(2-6)] Acquire_exact [OF inv _ assms(3-6), of ?next] assms(6)
      RetryAfter_next [of now "win res"] \<open>LsClock s < ?next\<close> by simp
qed


definition limit_example :: limiter_state where
  "limit_example = \<lparr>LsTable = fst (Acquire ''api'' 9 10 go_minute 5 []), LsClock = 5, LsGrants = [(''api'', 5, 9)]\<rparr>"

theorem rate_limit_exact_witness:
  "snd (Acquire ''api'' 2 10 go_minute 7 (LsTable limit_example)) = Inr False
   \<and> snd (Acquire ''api'' 2 10 go_minute (7 + RetryAfter 7 go_minute) (LsTable limit_example)) = Inr True"
proof -
  have t: "TrimSpace ''api'' = ''api''" by code_simp
  have a: "Acquire ''api'' 9 10 go_minute 5 [] = (fst (Acquire ''api'' 9 10 go_minute 5 []), Inr True)" by code_simp
  have "limiter_step (\<lambda>_. 10) (\<lambda>_. go_minute) (limiter_start 0) limit_example"
    using limiter_step.granted [of "limiter_start 0" 5 "''api''" 9 "\<lambda>_. 10" "\<lambda>_. go_minute"] a
    by (simp add: t limiter_start_def limit_example_def)
  then have r: "reachable_from (limiter_step (\<lambda>_. 10) (\<lambda>_. go_minute)) (limiter_start 0) limit_example"
    by (meson reachable_init reachable_step)
  have "used (\<lambda>_. go_minute) (LsGrants limit_example) ''api'' (Truncate 7 (NormalizeWindow go_minute)) = 9" by code_simp
  with rate_limit_exact [OF r, of 7 "''api''" 2] t show ?thesis by (simp add: limit_example_def)
qed

text \<open>
  One window per resource is needed. Two jobs that declare different windows share the row of a
  common window start, which expires with the shorter one: within one hour a resource with a
  limit of ten per hour is granted nineteen units.
\<close>

lemma mixed_windows_exceed:
  "let (t1, _) = Acquire ''api'' 1 10 go_minute 0 [];
       (t2, b2) = Acquire ''api'' 9 10 go_hour 1 t1;
       (t3, n) = Prune go_minute t2;
       (t4, b4) = Acquire ''api'' 10 10 go_hour (go_minute + 1) t3
   in b2 = Inr True \<and> b4 = Inr True \<and> Truncate 1 go_hour = Truncate (go_minute + 1) go_hour"
  by code_simp

end
