(* ===== verification/Dispatch_Loop.thy ===== *)
theory Dispatch_Loop
  imports Dispatch Rate_Limit "HOL-Library.Word"
begin

text \<open>
  The dispatch loop of a run owner (\<open>internal/dispatch/loop.go\<close>): every tick takes over expired
  leases, discovers the peers and pushes the ready tasks of the owned runs to them in rotation.
  The posts of a tick run in goroutines; here they run one after the other, at one reading of
  the clock. The network is an argument: what a request to a URL does to the shared database
  and the status code that comes back, if one does.
\<close>

section \<open>Addresses\<close>

record peer =
  PNodeID :: string
  PBaseURL :: string

record loop_config =
  LCNodeID :: string
  LCAPIPort :: int
  LCInternalPort :: int
  LCInterval :: int
  LCBatchSize :: int
  LCDeadline :: int
  LCLeaseTTL :: int
  LCRateLimiter :: bool
  LCPeerBaseURL :: "(string \<Rightarrow> string) option"
  LCOwnerManager :: bool

text \<open>The decimal digits of a number; twenty are enough for a 64-bit one.\<close>

fun itoa_digits :: "nat \<Rightarrow> nat \<Rightarrow> string" where
  "itoa_digits 0 n = []"
| "itoa_digits (Suc k) n =
     (if n < 10 then [char_of (48 + n)] else itoa_digits k (n div 10) @ [char_of (48 + n mod 10)])"

definition itoa :: "nat \<Rightarrow> string" where
  "itoa n = itoa_digits 20 n"

text \<open>The host of \<open>net.SplitHostPort\<close>, if the address has the form it expects.\<close>

definition SplitHost :: "string \<Rightarrow> string option" where
  "SplitHost s =
     (let before = rev (tl (dropWhile (\<lambda>c. c \<noteq> CHR '':'') (rev s)))
      in if CHR '':'' \<notin> set s then None
         else if hd s = CHR ''[''
         then let inside = takeWhile (\<lambda>c. c \<noteq> CHR '']'') (tl s)
              in if before = CHR ''['' # inside @ '']'' \<and> CHR ''['' \<notin> set (tl s)
                    \<and> CHR '']'' \<notin> set (drop (length before) s)
                 then Some inside else None
         else if CHR '':'' \<in> set before \<or> CHR ''['' \<in> set s \<or> CHR '']'' \<in> set s then None
         else Some before)"

definition JoinHostPort :: "string \<Rightarrow> string \<Rightarrow> string" where
  "JoinHostPort host port =
     (if CHR '':'' \<in> set host then ''['' @ host @ '']:'' @ port else host @ '':'' @ port)"

text \<open>The escaping of the host when a URL is printed.\<close>

definition url_host_plain :: "char \<Rightarrow> bool" where
  "url_host_plain c \<longleftrightarrow>
     (let n = (of_char c :: nat)
      in (97 \<le> n \<and> n \<le> 122) \<or> (65 \<le> n \<and> n \<le> 90) \<or> (48 \<le> n \<and> n \<le> 57)
         \<or> c \<in> set (''-_.~!$&()*+,;=:[]<>'' @ [CHR 0x27, CHR 0x22]))"

definition hex_digit :: "nat \<Rightarrow> char" where
  "hex_digit n = char_of (if n < 10 then 48 + n else 55 + n)"

definition escape_host :: "string \<Rightarrow> string" where
  "escape_host s = concat (map (\<lambda>c. if url_host_plain c then [c]
     else let n = (of_char c :: nat) in [CHR ''%'', hex_digit (n div 16), hex_digit (n mod 16)]) s)"

definition nodeAddrToBaseURL :: "loop_config \<Rightarrow> string \<Rightarrow> string" where
  "nodeAddrToBaseURL cfg nodeAddr =
     (case LCPeerBaseURL cfg of
        Some f \<Rightarrow> f nodeAddr
      | None \<Rightarrow>
          let host = (case SplitHost nodeAddr of None \<Rightarrow> TrimSpace nodeAddr | Some h \<Rightarrow> h)
          in if host = '''' \<or> take 1 host = ''@'' then ''''
             else let (scheme, port) = (if LCInternalPort cfg > 0 then (''https'', LCInternalPort cfg) else (''http'', LCAPIPort cfg))
                  in scheme @ ''://'' @ escape_host (JoinHostPort host (itoa (nat port))))"

definition add_peer :: "loop_config \<Rightarrow> peer list \<Rightarrow> string \<Rightarrow> peer list" where
  "add_peer cfg out addr =
     (let canonical = TrimSpace addr; baseURL = nodeAddrToBaseURL cfg canonical
      in if canonical = '''' \<or> take 1 canonical = ''@'' then out
         else if canonical \<in> PNodeID ` set out then out
         else if baseURL = '''' then out
         else out @ [\<lparr>PNodeID = canonical, PBaseURL = baseURL\<rparr>])"

definition buildPeers :: "loop_config \<Rightarrow> string list \<Rightarrow> peer list" where
  "buildPeers cfg rawPeers = add_peer cfg (foldl (add_peer cfg) [] rawPeers) (LCNodeID cfg)"

section \<open>State of the loop\<close>

record dispatch_loop =
  DLConfig :: loop_config
  DLCounter :: "64 word"
  DLOwnerBaseURL :: string
  DLBenchedPeers :: "string \<Rightarrow> timestamp option"
  DLRateLimitDelays :: "uuid \<Rightarrow> uuid \<Rightarrow> timestamp option"
  DLNode :: owner_node
  DLTokens :: token_table

definition peerBenchCooldown :: int where "peerBenchCooldown = 10 * go_second"

definition NewDispatchLoop :: "loop_config \<Rightarrow> owner_node \<Rightarrow> token_table \<Rightarrow> dispatch_loop" where
  "NewDispatchLoop cfg0 n tokens =
     (let cfg = cfg0\<lparr>LCInterval := (if LCInterval cfg0 \<le> 0 then go_second else LCInterval cfg0),
                     LCBatchSize := (if LCBatchSize cfg0 \<le> 0 then 64 else LCBatchSize cfg0),
                     LCDeadline := (if LCDeadline cfg0 \<le> 0 then 5 * go_minute else LCDeadline cfg0),
                     LCAPIPort := (if LCAPIPort cfg0 \<le> 0 then 8080 else LCAPIPort cfg0)\<rparr>
      in \<lparr>DLConfig = cfg, DLCounter = 0, DLOwnerBaseURL = nodeAddrToBaseURL cfg (LCNodeID cfg),
          DLBenchedPeers = (\<lambda>_. None), DLRateLimitDelays = (\<lambda>_ _. None), DLNode = n, DLTokens = tokens\<rparr>)"

definition benchPeer :: "string \<Rightarrow> timestamp \<Rightarrow> dispatch_loop \<Rightarrow> dispatch_loop" where
  "benchPeer nodeID now l =
     (if nodeID = LCNodeID (DLConfig l) then l
      else l\<lparr>DLBenchedPeers := (DLBenchedPeers l)(nodeID := Some (now + peerBenchCooldown))\<rparr>)"

definition drop_lapsed :: "timestamp \<Rightarrow> (string \<Rightarrow> timestamp option) \<Rightarrow> string \<Rightarrow> timestamp option" where
  "drop_lapsed now benched nodeID =
     (case benched nodeID of None \<Rightarrow> None | Some until \<Rightarrow> if \<not> now < until then None else Some until)"

definition healthyPeers :: "timestamp \<Rightarrow> peer list \<Rightarrow> dispatch_loop \<Rightarrow> dispatch_loop \<times> peer list" where
  "healthyPeers now peers l =
     (let benched = drop_lapsed now (DLBenchedPeers l);
          out = filter (\<lambda>p. benched (PNodeID p) = None) peers
      in (l\<lparr>DLBenchedPeers := benched\<rparr>, if out = [] then peers else out))"

definition rememberRateLimitDelay :: "uuid \<Rightarrow> uuid \<Rightarrow> timestamp \<Rightarrow> dispatch_loop \<Rightarrow> dispatch_loop" where
  "rememberRateLimitDelay runID taskID retryAfter l =
     (if retryAfter = 0 then l
      else l\<lparr>DLRateLimitDelays := (DLRateLimitDelays l)(runID := (DLRateLimitDelays l runID)(taskID := Some retryAfter))\<rparr>)"

definition rateLimitDelayed :: "uuid \<Rightarrow> uuid \<Rightarrow> timestamp \<Rightarrow> dispatch_loop \<Rightarrow> dispatch_loop \<times> bool" where
  "rateLimitDelayed runID taskID now l =
     (case DLRateLimitDelays l runID taskID of
        None \<Rightarrow> (l, False)
      | Some retryAfter \<Rightarrow>
          if retryAfter > now then (l, True)
          else (l\<lparr>DLRateLimitDelays := (DLRateLimitDelays l)(runID := (DLRateLimitDelays l runID)(taskID := None))\<rparr>, False))"

section \<open>One task\<close>

type_synonym network = "string \<Rightarrow> dispatch_request \<Rightarrow> store_db \<Rightarrow> store_db \<times> int option"

datatype post_outcome = Limited | NetworkError | WorkerRejected | Accepted

text \<open>The client side of a dispatch: an answer other than 202 is a rejection.\<close>

definition PostDispatch :: "network \<Rightarrow> string \<Rightarrow> dispatch_request \<Rightarrow> store_db \<Rightarrow> store_db \<times> bool option" where
  "PostDispatch net url req db =
     (case net url req db of
        (db', None) \<Rightarrow> (db', None)
      | (db', Some code) \<Rightarrow> (db', Some (code = StatusAccepted)))"

definition acquireRateLimit :: "uuid \<Rightarrow> uuid \<Rightarrow> timestamp \<Rightarrow> dispatch_loop \<Rightarrow> dispatch_loop \<times> bool" where
  "acquireRateLimit runID taskID now l =
     (if \<not> LCRateLimiter (DLConfig l) then (l, True)
      else case RuleForTask (on_db (DLNode l)) runID taskID of
        Inl e \<Rightarrow> (l, False)
      | Inr None \<Rightarrow> (l, True)
      | Inr (Some rule) \<Rightarrow>
          (case Acquire (RuleResource rule) (RuleUnits rule) (RuleLimit rule) (RuleWindow rule) now (DLTokens l) of
             (tokens, Inl e) \<Rightarrow> (l\<lparr>DLTokens := tokens\<rparr>, False)
           | (tokens, Inr True) \<Rightarrow> (l\<lparr>DLTokens := tokens\<rparr>, True)
           | (tokens, Inr False) \<Rightarrow>
               let l1 = l\<lparr>DLTokens := tokens\<rparr>;
                   retryAfter = now + RetryAfter now (RuleWindow rule)
               in (case RateLimitTask runID taskID (if retryAfter = 0 then None else Some retryAfter) now (on_db (DLNode l1)) of
                     Inl e \<Rightarrow> (l1, False)
                   | Inr (_, db) \<Rightarrow>
                       let l2 = l1\<lparr>DLNode := (DLNode l1)\<lparr>on_db := db\<rparr>\<rparr>
                       in (if LCOwnerManager (DLConfig l) then rememberRateLimitDelay runID taskID retryAfter l2 else l2, False))))"

definition UnixMilli :: "timestamp \<Rightarrow> int" where
  "UnixMilli t = t div 1000000 - 62135596800000"

definition postOne :: "network \<Rightarrow> uuid \<Rightarrow> peer \<Rightarrow> dispatch_request \<Rightarrow> timestamp \<Rightarrow> dispatch_loop \<Rightarrow> dispatch_loop \<times> post_outcome" where
  "postOne net runID p req now l =
     (case PostDispatch net (PBaseURL p @ ''/internal/dispatch'') req (on_db (DLNode l)) of
        (db, answer) \<Rightarrow>
          let l1 = l\<lparr>DLNode := (DLNode l)\<lparr>on_db := db\<rparr>\<rparr>
          in (case answer of
                None \<Rightarrow> (benchPeer (PNodeID p) now l1, NetworkError)
              | Some False \<Rightarrow> (l1, WorkerRejected)
              | Some True \<Rightarrow>
                  (if LCOwnerManager (DLConfig l)
                   then l1\<lparr>DLNode := om_MarkDispatched runID (DqTaskID req) (PNodeID p) (DqAttempt req)
                             (UnixMilli (now + LCDeadline (DLConfig l))) (DLNode l1)\<rparr>
                   else l1, Accepted)))"

text \<open>One turn of the loop over the ready tasks: the next peer, its request, and what became of it.\<close>

definition next_peer :: "peer list \<Rightarrow> 64 word \<Rightarrow> peer" where
  "next_peer peers idx = peers ! unat (idx mod of_nat (length peers))"

definition dispatch_task ::
    "network \<Rightarrow> uuid \<Rightarrow> int \<Rightarrow> peer list \<Rightarrow> timestamp \<Rightarrow> uuid \<times> int \<Rightarrow> dispatch_loop
       \<Rightarrow> dispatch_loop \<times> peer \<times> dispatch_request \<times> post_outcome" where
  "dispatch_task net runID generation peers now task l =
     (let p = next_peer peers (DLCounter l);
          l1 = l\<lparr>DLCounter := DLCounter l + 1\<rparr>;
          req = \<lparr>DqRunID = runID, DqTaskID = fst task, DqOwnerGeneration = generation, DqAttempt = snd task,
                 DqWorkerNode = PNodeID p, DqOwnerBaseURL = DLOwnerBaseURL l, DqDeadline = now + LCDeadline (DLConfig l)\<rparr>
      in case acquireRateLimit runID (fst task) now l1 of
           (l2, False) \<Rightarrow> (l2, p, req, Limited)
         | (l2, True) \<Rightarrow> (case postOne net runID p req now l2 of (l3, outcome) \<Rightarrow> (l3, p, req, outcome)))"

fun dispatch_tasks ::
    "network \<Rightarrow> uuid \<Rightarrow> int \<Rightarrow> peer list \<Rightarrow> timestamp \<Rightarrow> (uuid \<times> int) list \<Rightarrow> dispatch_loop
       \<Rightarrow> dispatch_loop \<times> (peer \<times> dispatch_request \<times> post_outcome) list" where
  "dispatch_tasks net runID generation peers now [] l = (l, [])"
| "dispatch_tasks net runID generation peers now (task # rest) l =
     (case dispatch_task net runID generation peers now task l of
        (l1, sent) \<Rightarrow> (case dispatch_tasks net runID generation peers now rest l1 of (l2, sents) \<Rightarrow> (l2, sent # sents)))"

section \<open>One run, one tick\<close>

fun filter_delayed :: "uuid \<Rightarrow> timestamp \<Rightarrow> dispatchable_task list \<Rightarrow> dispatch_loop \<Rightarrow> dispatch_loop \<times> dispatchable_task list" where
  "filter_delayed runID now [] l = (l, [])"
| "filter_delayed runID now (dt # rest) l =
     (case rateLimitDelayed runID (DTTaskID dt) now l of
        (l1, delayed) \<Rightarrow> (case filter_delayed runID now rest l1 of
           (l2, out) \<Rightarrow> (l2, if delayed then out else dt # out)))"

text \<open>\<open>cpFault\<close> says whether the checkpoint write of a recovery fails.\<close>

definition dispatchRunInMemory ::
    "network \<Rightarrow> bool \<Rightarrow> uuid \<Rightarrow> int \<Rightarrow> peer list \<Rightarrow> timestamp \<Rightarrow> dispatch_loop
       \<Rightarrow> dispatch_loop \<times> (peer \<times> dispatch_request \<times> post_outcome) list" where
  "dispatchRunInMemory net cpFault runID generation peers now l =
     (case (if Owns (DLNode l) runID then (DLNode l, True)
            else case Recover runID generation cpFault now (DLNode l) of
              (n, Inl e) \<Rightarrow> (n, False) | (n, Inr res) \<Rightarrow> (n, True)) of
        (n, False) \<Rightarrow> (l\<lparr>DLNode := n\<rparr>, [])
      | (n, True) \<Rightarrow>
          let (l1, ready) = filter_delayed runID now (ReadyForDispatch n runID) (l\<lparr>DLNode := n\<rparr>)
          in dispatch_tasks net runID generation peers now
               (map (\<lambda>dt. (DTTaskID dt, DTAttempt dt)) (take (nat (LCBatchSize (DLConfig l))) ready)) l1)"

definition dispatchRun ::
    "network \<Rightarrow> bool \<Rightarrow> uuid \<Rightarrow> int \<Rightarrow> peer list \<Rightarrow> timestamp \<Rightarrow> dispatch_loop
       \<Rightarrow> dispatch_loop \<times> (peer \<times> dispatch_request \<times> post_outcome) list" where
  "dispatchRun net cpFault runID generation peers now l =
     (if LCOwnerManager (DLConfig l) then dispatchRunInMemory net cpFault runID generation peers now l
      else dispatch_tasks net runID generation peers now
             (map (\<lambda>r. (TRTaskID r, TRAttempt r))
                (PendingTasksForDispatch (on_db (DLNode l)) runID (LCBatchSize (DLConfig l)) now)) l)"

fun dispatch_runs ::
    "network \<Rightarrow> bool \<Rightarrow> peer list \<Rightarrow> timestamp \<Rightarrow> (uuid \<times> int) list \<Rightarrow> dispatch_loop
       \<Rightarrow> dispatch_loop \<times> (peer \<times> dispatch_request \<times> post_outcome) list" where
  "dispatch_runs net cpFault peers now [] l = (l, [])"
| "dispatch_runs net cpFault peers now ((runID, generation) # rest) l =
     (case dispatchRun net cpFault runID generation peers now l of
        (l1, sents) \<Rightarrow> (case dispatch_runs net cpFault peers now rest l1 of (l2, more_sents) \<Rightarrow> (l2, sents @ more_sents)))"

text \<open>
  What the tick meets outside: whether the lease sweep, the checkpoint write and the query for
  the owned runs fail, and the answer of peer discovery.
\<close>

record tick_world =
  TwSweepFails :: bool
  TwCheckpointFails :: bool
  TwOwnedFails :: bool
  TwPeers :: "string list option"

definition sweep_leases :: "bool \<Rightarrow> timestamp \<Rightarrow> dispatch_loop \<Rightarrow> dispatch_loop" where
  "sweep_leases fails now l =
     (if \<not> LCOwnerManager (DLConfig l) \<or> fails then l
      else let db = on_db (DLNode l);
               (leases, _) = AcquireExpiredLeases (db_run_leases db) (LCNodeID (DLConfig l)) (LCLeaseTTL (DLConfig l)) now
           in l\<lparr>DLNode := (DLNode l)\<lparr>on_db := db\<lparr>db_run_leases := leases\<rparr>\<rparr>\<rparr>)"

definition tick ::
    "network \<Rightarrow> tick_world \<Rightarrow> timestamp \<Rightarrow> dispatch_loop \<Rightarrow> dispatch_loop \<times> (peer \<times> dispatch_request \<times> post_outcome) list" where
  "tick net world now l0 =
     (let l = sweep_leases (TwSweepFails world) now l0
      in case TwPeers world of
           None \<Rightarrow> (l, [])
         | Some rawPeers \<Rightarrow>
             let peers0 = buildPeers (DLConfig l) rawPeers
             in if peers0 = [] then (l, [])
                else let (l1, peers) = healthyPeers now peers0 l
                     in if TwOwnedFails world then (l1, [])
                        else dispatch_runs net (TwCheckpointFails world) peers now
                               (OwnedRunsWithGenerations (db_run_leases (on_db (DLNode l1))) (LCNodeID (DLConfig l1)) now) l1)"


section \<open>The node itself stays in the rotation\<close>

text \<open>What every operation of the loop keeps: the configuration, and that the node has not benched itself.\<close>

definition keeps_self :: "dispatch_loop \<Rightarrow> dispatch_loop \<Rightarrow> bool" where
  "keeps_self l l' \<longleftrightarrow> DLConfig l' = DLConfig l
     \<and> (DLBenchedPeers l (LCNodeID (DLConfig l)) = None \<longrightarrow> DLBenchedPeers l' (LCNodeID (DLConfig l)) = None)"

lemma keeps_self_refl: "keeps_self l l"
  by (simp add: keeps_self_def)

lemma keeps_self_trans: "keeps_self a b \<Longrightarrow> keeps_self b c \<Longrightarrow> keeps_self a c"
  by (simp add: keeps_self_def)

lemma acquireRateLimit_frame:
  "acquireRateLimit runID t now l = (l', b) \<Longrightarrow>
     DLConfig l' = DLConfig l \<and> DLBenchedPeers l' = DLBenchedPeers l \<and> DLCounter l' = DLCounter l
     \<and> DLOwnerBaseURL l' = DLOwnerBaseURL l \<and> on_runs (DLNode l') = on_runs (DLNode l)"
  by (auto simp: acquireRateLimit_def rememberRateLimitDelay_def Let_def split: if_splits sum.splits option.splits bool.splits prod.splits)

lemma postOne_frame:
  "postOne net runID p req now l = (l', out) \<Longrightarrow>
     DLConfig l' = DLConfig l \<and> DLCounter l' = DLCounter l \<and> DLOwnerBaseURL l' = DLOwnerBaseURL l \<and> keeps_self l l'"
  by (auto simp: postOne_def benchPeer_def keeps_self_def Let_def split: if_splits option.splits bool.splits prod.splits)

lemma dispatch_task_frame:
  "dispatch_task net runID g peers now t l = (l', p, req, out) \<Longrightarrow>
     keeps_self l l' \<and> DLCounter l' = DLCounter l + 1 \<and> p = next_peer peers (DLCounter l)
     \<and> DqRunID req = runID \<and> DqTaskID req = fst t \<and> DqOwnerGeneration req = g \<and> DqWorkerNode req = PNodeID p"
  by (auto simp: dispatch_task_def Let_def keeps_self_def dest!: acquireRateLimit_frame postOne_frame split: prod.splits bool.splits)

lemma dispatch_tasks_keeps: "dispatch_tasks net runID g peers now ts l = (l', sents) \<Longrightarrow> keeps_self l l'"
proof (induction ts arbitrary: l l' sents)
  case (Cons t ts)
  obtain l1 p req out where 1: "dispatch_task net runID g peers now t l = (l1, p, req, out)" by (metis prod_cases4)
  obtain l2 more_sents where 2: "dispatch_tasks net runID g peers now ts l1 = (l2, more_sents)" by fastforce
  from Cons.prems 1 2 Cons.IH [OF 2] dispatch_task_frame [OF 1] show ?case by (auto intro: keeps_self_trans)
qed (simp add: keeps_self_refl)

lemma filter_delayed_keeps: "filter_delayed runID now dts l = (l', out) \<Longrightarrow> keeps_self l l' \<and> DLNode l' = DLNode l \<and> set out \<subseteq> set dts"
proof (induction dts arbitrary: l l' out)
  case (Cons dt dts)
  obtain l1 b where 1: "rateLimitDelayed runID (DTTaskID dt) now l = (l1, b)" by fastforce
  obtain l2 o2 where 2: "filter_delayed runID now dts l1 = (l2, o2)" by fastforce
  from 1 have "keeps_self l l1 \<and> DLNode l1 = DLNode l"
    by (auto simp: rateLimitDelayed_def keeps_self_def split: option.splits if_splits)
  with Cons.IH [OF 2] Cons.prems 1 2 show ?case by (cases b) (auto intro: keeps_self_trans)
qed (simp add: keeps_self_refl)

lemma filter_delayed_distinct:
  "filter_delayed runID now dts l = (l', out) \<Longrightarrow> distinct (map DTTaskID dts) \<Longrightarrow> distinct (map DTTaskID out)"
proof (induction dts arbitrary: l l' out)
  case (Cons dt dts)
  obtain l1 b where 1: "rateLimitDelayed runID (DTTaskID dt) now l = (l1, b)" by fastforce
  obtain l2 o2 where 2: "filter_delayed runID now dts l1 = (l2, o2)" by fastforce
  have "DTTaskID dt \<notin> DTTaskID ` set o2" using filter_delayed_keeps [OF 2] Cons.prems(2) by auto
  with Cons.IH [OF 2] Cons.prems 1 2 show ?case by (cases b) auto
qed simp

lemma keeps_self_node: "keeps_self l (l\<lparr>DLNode := n\<rparr>)"
  by (simp add: keeps_self_def)

lemma dispatchRunInMemory_cases:
  assumes "dispatchRunInMemory net x runID g peers now l = (l', sents)"
  obtains n where "l' = l\<lparr>DLNode := n\<rparr>" "sents = []" "\<not> Owns (DLNode l) runID"
  | n l1 out where "filter_delayed runID now (ReadyForDispatch n runID) (l\<lparr>DLNode := n\<rparr>) = (l1, out)"
      "Owns (DLNode l) runID \<Longrightarrow> n = DLNode l"
      "dispatch_tasks net runID g peers now
         (map (\<lambda>dt. (DTTaskID dt, DTAttempt dt)) (take (nat (LCBatchSize (DLConfig l))) out)) l1 = (l', sents)"
proof -
  obtain n ok where n: "(if Owns (DLNode l) runID then (DLNode l, True)
      else case Recover runID g x now (DLNode l) of (n, Inl e) \<Rightarrow> (n, False) | (n, Inr res) \<Rightarrow> (n, True)) = (n, ok)"
    by fastforce
  obtain l1 out where f: "filter_delayed runID now (ReadyForDispatch n runID) (l\<lparr>DLNode := n\<rparr>) = (l1, out)" by fastforce
  show thesis
  proof (cases ok)
    case True
    with assms n f have "dispatch_tasks net runID g peers now
         (map (\<lambda>dt. (DTTaskID dt, DTAttempt dt)) (take (nat (LCBatchSize (DLConfig l))) out)) l1 = (l', sents)"
      unfolding dispatchRunInMemory_def by simp
    moreover have "Owns (DLNode l) runID \<Longrightarrow> n = DLNode l" using n by simp
    ultimately show thesis using f that(2) by blast
  next
    case False
    with assms n have "l' = l\<lparr>DLNode := n\<rparr>" "sents = []" "\<not> Owns (DLNode l) runID"
      unfolding dispatchRunInMemory_def by (simp_all split: if_splits)
    then show thesis by (rule that(1))
  qed
qed

lemma dispatchRun_keeps:
  assumes "dispatchRun net x runID g peers now l = (l', sents)" shows "keeps_self l l'"
proof (cases "LCOwnerManager (DLConfig l)")
  case True
  with assms have "dispatchRunInMemory net x runID g peers now l = (l', sents)" by (simp add: dispatchRun_def)
  then show ?thesis
  proof (cases rule: dispatchRunInMemory_cases)
    case (2 n l1 out)
    have "keeps_self (l\<lparr>DLNode := n\<rparr>) l1" using filter_delayed_keeps [OF 2(1)] by simp
    from keeps_self_trans [OF keeps_self_trans [OF keeps_self_node this] dispatch_tasks_keeps [OF 2(3)]] show ?thesis .
  qed (simp add: keeps_self_node)
next
  case False
  with assms show ?thesis by (auto simp: dispatchRun_def dest: dispatch_tasks_keeps)
qed

lemma dispatch_runs_keeps: "dispatch_runs net x peers now rs l = (l', sents) \<Longrightarrow> keeps_self l l'"
proof (induction net x peers now rs l arbitrary: l' sents rule: dispatch_runs.induct)
  case (2 net x peers now runID g rest l)
  obtain l1 s1 where 1: "dispatchRun net x runID g peers now l = (l1, s1)" by fastforce
  obtain l2 s2 where 3: "dispatch_runs net x peers now rest l1 = (l2, s2)" by fastforce
  from 2(2) 1 3 keeps_self_trans [OF dispatchRun_keeps [OF 1] 2(1) [OF 1 [symmetric] 3]] show ?case by simp
qed (simp add: keeps_self_refl)

lemma tick_keeps: "keeps_self l (fst (tick net world now l))"
proof -
  define m where "m = sweep_leases (TwSweepFails world) now l"
  have s: "keeps_self l m"
    by (auto simp: m_def sweep_leases_def keeps_self_def Let_def split: prod.splits)
  have "keeps_self m (fst (tick net world now l))"
  proof (cases "TwPeers world")
    case (Some raw)
    obtain l1 ps where h: "healthyPeers now (buildPeers (DLConfig m) raw) m = (l1, ps)" by fastforce
    then have "keeps_self m l1" by (auto simp: healthyPeers_def keeps_self_def drop_lapsed_def Let_def)
    moreover have "keeps_self l1 (fst (dispatch_runs net x ps now rs l1))" for x rs
      by (cases "dispatch_runs net x ps now rs l1") (auto dest: dispatch_runs_keeps)
    ultimately show ?thesis
      using Some h keeps_self_refl [of m] by (auto simp: tick_def m_def [symmetric] Let_def intro: keeps_self_trans)
  qed (simp add: tick_def m_def keeps_self_refl)
  with s show ?thesis by (rule keeps_self_trans)
qed

text \<open>The life of a loop: ticks in any world, and anything that happens to the node and the tokens in between.\<close>

inductive loop_step :: "dispatch_loop \<Rightarrow> dispatch_loop \<Rightarrow> bool" where
  tick: "loop_step l (fst (tick net world now l))"
| other: "loop_step l (l\<lparr>DLNode := n, DLTokens := tokens\<rparr>)"

definition self_free :: "dispatch_loop \<Rightarrow> bool" where
  "self_free l \<longleftrightarrow> DLBenchedPeers l (LCNodeID (DLConfig l)) = None"

interpretation loop: step_machine "\<lambda>l. \<exists>cfg n tokens. l = NewDispatchLoop cfg n tokens" loop_step self_free
proof unfold_locales
  show "self_free l" if "\<exists>cfg n tokens. l = NewDispatchLoop cfg n tokens" for l
    using that by (auto simp: self_free_def NewDispatchLoop_def Let_def)
  show "self_free l'" if "self_free l" "loop_step l l'" for l l'
    using that(2,1) by cases (use tick_keeps in \<open>auto simp: self_free_def keeps_self_def\<close>)
qed

lemma add_peer_nodes:
  "distinct (map PNodeID ps) \<Longrightarrow> distinct (map PNodeID (add_peer cfg ps a))
     \<and> PNodeID ` set ps \<subseteq> PNodeID ` set (add_peer cfg ps a) \<and> PNodeID ` set (add_peer cfg ps a) \<subseteq> insert (TrimSpace a) (PNodeID ` set ps)"
  by (auto simp: add_peer_def Let_def)

lemma add_peers_nodes:
  "distinct (map PNodeID ps) \<Longrightarrow> distinct (map PNodeID (foldl (add_peer cfg) ps as))
     \<and> PNodeID ` set (foldl (add_peer cfg) ps as) \<subseteq> TrimSpace ` set as \<union> PNodeID ` set ps"
proof (induction as arbitrary: ps)
  case (Cons a as)
  have "distinct (map PNodeID (add_peer cfg ps a))" "PNodeID ` set (add_peer cfg ps a) \<subseteq> insert (TrimSpace a) (PNodeID ` set ps)"
    using add_peer_nodes [OF Cons.prems] by blast+
  moreover from this(1) have "distinct (map PNodeID (foldl (add_peer cfg) (add_peer cfg ps a) as))"
    "PNodeID ` set (foldl (add_peer cfg) (add_peer cfg ps a) as) \<subseteq> TrimSpace ` set as \<union> PNodeID ` set (add_peer cfg ps a)"
    using Cons.IH by blast+
  ultimately show ?case by (simp add: subset_iff) blast
qed simp

definition self_address :: "loop_config \<Rightarrow> bool" where
  "self_address cfg \<longleftrightarrow> TrimSpace (LCNodeID cfg) = LCNodeID cfg \<and> LCNodeID cfg \<noteq> '''' \<and> take 1 (LCNodeID cfg) \<noteq> ''@''
     \<and> nodeAddrToBaseURL cfg (LCNodeID cfg) \<noteq> ''''"

lemma buildPeers_self:
  assumes "self_address cfg"
  shows "LCNodeID cfg \<in> PNodeID ` set (buildPeers cfg raw)" "distinct (map PNodeID (buildPeers cfg raw))"
    "PNodeID ` set (buildPeers cfg raw) \<subseteq> insert (LCNodeID cfg) (TrimSpace ` set raw)"
  using assms add_peers_nodes [of "[]" cfg raw] add_peer_nodes [of "foldl (add_peer cfg) [] raw" cfg "LCNodeID cfg"]
  by (auto simp: buildPeers_def self_address_def add_peer_def Let_def)


lemma config_fixed: "reachable_from loop_step l0 l \<Longrightarrow> self_free l0 \<Longrightarrow> DLConfig l = DLConfig l0"
  by (rule loop.preserved_by_reachable [where R = "\<lambda>a b. DLConfig b = DLConfig a"])
     (auto elim!: loop_step.cases simp: tick_keeps [unfolded keeps_self_def])

text \<open>
  C17. Dispatch never runs out of peers. In every state the loop reaches, whatever the network has
  done, and for any answer of peer discovery, the peers of a tick contain the node itself, have
  no duplicates, are discovered addresses, and leave out every peer whose cool-down after a
  network error is still running.
\<close>

theorem self_in_rotation:
  assumes "self_address (DLConfig (NewDispatchLoop cfg n tokens))"
    and "reachable_from loop_step (NewDispatchLoop cfg n tokens) l"
  shows "let ps = snd (healthyPeers now (buildPeers (DLConfig l) raw) l) in
    LCNodeID cfg \<in> PNodeID ` set ps \<and> distinct (map PNodeID ps)
    \<and> PNodeID ` set ps \<subseteq> insert (LCNodeID cfg) (TrimSpace ` set raw)
    \<and> (\<forall>p \<in> set ps. \<forall>until. DLBenchedPeers l (PNodeID p) = Some until \<longrightarrow> until \<le> now)"
proof -
  have start: "self_free (NewDispatchLoop cfg n tokens)" by (rule loop.start_inv) blast
  have cfg: "DLConfig l = DLConfig (NewDispatchLoop cfg n tokens)" by (rule config_fixed [OF assms(2) start])
  then have id: "LCNodeID (DLConfig l) = LCNodeID cfg" by (simp add: NewDispatchLoop_def Let_def)
  have free: "self_free l" by (rule loop.inv_reachable [OF _ assms(2)]) blast
  note ps = buildPeers_self [OF assms(1), of raw, folded cfg, unfolded id]
  define out where "out = filter (\<lambda>p. drop_lapsed now (DLBenchedPeers l) (PNodeID p) = None) (buildPeers (DLConfig l) raw)"
  have self: "LCNodeID cfg \<in> PNodeID ` set out"
    using ps(1) free id by (auto simp: out_def drop_lapsed_def self_free_def)
  then have "snd (healthyPeers now (buildPeers (DLConfig l) raw) l) = out"
    by (auto simp: healthyPeers_def Let_def out_def [symmetric])
  moreover have "distinct (map PNodeID out)" using ps(2) by (auto simp: out_def distinct_map_filter)
  moreover have "PNodeID ` set out \<subseteq> insert (LCNodeID cfg) (TrimSpace ` set raw)" using ps(3) by (auto simp: out_def)
  moreover have "\<forall>p \<in> set out. \<forall>until. DLBenchedPeers l (PNodeID p) = Some until \<longrightarrow> until \<le> now"
    by (auto simp: out_def drop_lapsed_def split: option.splits if_splits)
  ultimately show ?thesis using self by (simp add: Let_def)
qed

definition example_config :: "bool \<Rightarrow> loop_config" where
  "example_config inMemory =
     \<lparr>LCNodeID = ''n1:9001'', LCAPIPort = 80, LCInternalPort = 0, LCInterval = 1, LCBatchSize = 2, LCDeadline = 60, LCLeaseTTL = 10,
      LCRateLimiter = False, LCPeerBaseURL = Some (\<lambda>a. ''http://'' @ a), LCOwnerManager = inMemory\<rparr>"

definition example_loop :: "bool \<Rightarrow> dispatch_loop" where
  "example_loop inMemory = NewDispatchLoop (example_config inMemory) example_node []"

definition example_peers :: "peer list" where
  "example_peers = buildPeers (DLConfig (example_loop True)) ['' n2:9001'', ''n2:9001'', ''@'']"

lemma example_loop_fields [simp]:
  "DLConfig (example_loop b) = example_config b" "DLCounter (example_loop b) = 0" "DLNode (example_loop b) = example_node"
  by (simp_all add: example_loop_def NewDispatchLoop_def example_config_def Let_def)

lemma example_address: "self_address (DLConfig (example_loop True))"
  by (simp add: self_address_def example_config_def nodeAddrToBaseURL_def TrimSpace_def is_go_space_def)

lemma add_peer_example:
  "add_peer (example_config b) out a = (let c = TrimSpace a in
     if c = '''' \<or> take 1 c = ''@'' \<or> c \<in> PNodeID ` set out then out else out @ [\<lparr>PNodeID = c, PBaseURL = ''http://'' @ c\<rparr>])"
  by (simp add: add_peer_def Let_def example_config_def nodeAddrToBaseURL_def)

lemma example_peers_eq:
  "example_peers = [\<lparr>PNodeID = ''n2:9001'', PBaseURL = ''http://n2:9001''\<rparr>, \<lparr>PNodeID = ''n1:9001'', PBaseURL = ''http://n1:9001''\<rparr>]"
proof -
  have t: "TrimSpace '' n2:9001'' = ''n2:9001''" "TrimSpace ''n2:9001'' = ''n2:9001''" "TrimSpace ''@'' = ''@''"
    "TrimSpace ''n1:9001'' = ''n1:9001''" "LCNodeID (example_config True) = ''n1:9001''"
    by (simp_all add: TrimSpace_def is_go_space_def example_config_def)
  let ?p = "\<lparr>PNodeID = ''n2:9001'', PBaseURL = ''http://n2:9001''\<rparr>"
  have p: "add_peer (example_config True) [] '' n2:9001'' = [?p]" "add_peer (example_config True) [?p] ''n2:9001'' = [?p]"
    "add_peer (example_config True) [?p] ''@'' = [?p]"
    "add_peer (example_config True) [?p] ''n1:9001'' = [?p, \<lparr>PNodeID = ''n1:9001'', PBaseURL = ''http://n1:9001''\<rparr>]"
    unfolding add_peer_example t Let_def by simp_all
  show ?thesis unfolding example_peers_def buildPeers_def example_loop_fields t foldl.simps p ..
qed

theorem self_in_rotation_witness:
  "{''n1:9001''} \<subseteq> PNodeID ` set (snd (healthyPeers 5 example_peers (example_loop True)))"
proof -
  have "reachable_from loop_step (example_loop True) (example_loop True)" by (rule reachable_init)
  then have "LCNodeID (example_config True) \<in> PNodeID ` set (snd (healthyPeers 5
      (buildPeers (DLConfig (example_loop True)) ['' n2:9001'', ''n2:9001'', ''@'']) (example_loop True)))"
    using self_in_rotation [of "example_config True" example_node "[]" "example_loop True" 5] example_address
    unfolding example_loop_def [symmetric] Let_def by blast
  moreover have "LCNodeID (example_config True) = ''n1:9001''" by (simp add: example_config_def)
  ultimately show ?thesis unfolding example_peers_def by simp
qed

section \<open>The rotation is fair\<close>

text \<open>How many of the next numbers fall on a residue.\<close>

lemma count_residue:
  fixes c k m i :: nat
  assumes "i < m"
  shows "length (filter (\<lambda>j. (c + j) mod m = i) [0..<k]) + (c + (m - 1 - i)) div m = (c + k + (m - 1 - i)) div m"
proof (induction k)
  case (Suc k)
  let ?a = "c + k + (m - 1 - i)"
  define q where "q = Suc ?a mod m"
  have q: "q < m" using assms by (simp add: q_def)
  have "Suc ?a + i = c + k + m" using assms by simp
  then have "(c + k) mod m = (q + i) mod m" unfolding q_def by (metis mod_add_left_eq mod_add_self2)
  also have "\<dots> = (if q + i < m then q + i else q + i - m)" using q assms by (simp add: mod_if [of "q + i"])
  finally have "q = 0 \<longleftrightarrow> (c + k) mod m = i" using q assms by (auto split: if_splits)
  then have "Suc ?a mod m = 0 \<longleftrightarrow> (c + k) mod m = i" unfolding q_def .
  then show ?case using Suc by (simp add: div_Suc)
qed simp


lemma count_residue_share:
  fixes c k m i :: nat
  assumes "i < m"
  shows "length (filter (\<lambda>j. (c + j) mod m = i) [0..<k]) \<in> {k div m, k div m + 1}"
proof -
  let ?x = "c + (m - 1 - i)"
  have "(?x + k) div m = ?x div m + k div m + (?x mod m + k mod m) div m" by (rule div_add1_eq)
  moreover have "(?x mod m + k mod m) div m \<in> {0, 1}"
  proof -
    have "?x mod m + k mod m < 2 * m" using assms by (simp add: add_less_le_mono mult_2 add_strict_mono)
    then have "(?x mod m + k mod m) div m < 2" using assms by (simp add: div_less_iff_less_mult)
    then show ?thesis by auto
  qed
  moreover have "c + k + (m - 1 - i) = ?x + k" by simp
  ultimately show ?thesis using count_residue [OF assms, of c k, unfolded \<open>c + k + (m - 1 - i) = ?x + k\<close>] by auto
qed

lemma next_peer_nat:
  assumes "length peers < 2 ^ 64" "unat c + j < 2 ^ 64"
  shows "next_peer peers (c + of_nat j) = peers ! ((unat c + j) mod length peers)"
proof -
  have "unat (c + of_nat j) = unat c + j"
    using assms(2) by (simp add: unat_word_ariths unat_of_nat mod_add_right_eq)
  moreover have "unat (of_nat (length peers) :: 64 word) = length peers" using assms(1) by (simp add: unat_of_nat)
  ultimately show ?thesis by (simp add: next_peer_def unat_mod)
qed

lemma dispatch_tasks_peers:
  assumes "dispatch_tasks net runID g peers now ts l = (l', sents)"
  shows "map fst sents = map (\<lambda>j. next_peer peers (DLCounter l + of_nat j)) [0..<length ts]
    \<and> DLCounter l' = DLCounter l + of_nat (length ts) \<and> map (\<lambda>s. DqTaskID (fst (snd s))) sents = map fst ts"
  using assms
proof (induction ts arbitrary: l sents)
  case (Cons t ts)
  obtain l1 p req out where 1: "dispatch_task net runID g peers now t l = (l1, p, req, out)" by (metis prod_cases4)
  obtain l2 more_sents where 2: "dispatch_tasks net runID g peers now ts l1 = (l2, more_sents)" by fastforce
  have "map (\<lambda>j. next_peer peers (DLCounter l + of_nat j)) [0..<length (t # ts)] =
      next_peer peers (DLCounter l) # map (\<lambda>j. next_peer peers (DLCounter l + 1 + of_nat j)) [0..<length ts]"
    unfolding length_Cons upt_conv_Cons [OF zero_less_Suc] map_Suc_upt [symmetric]
    by (simp add: algebra_simps)
  moreover have "l' = l2" "sents = (p, req, out) # more_sents" using Cons.prems 1 2 by simp_all
  moreover have "DLCounter l1 = DLCounter l + 1" "p = next_peer peers (DLCounter l)" "DqTaskID req = fst t"
    using dispatch_task_frame [OF 1] by simp_all
  ultimately show ?case using Cons.IH [of l1 more_sents] 2 by (simp add: algebra_simps)
qed simp

text \<open>
  C18. The rotation is fair. Pushing k tasks to m peers gives every peer the k/m-th share, rounded
  down or up, whatever the counter has reached and whatever the answers are; the counter, an
  unsigned 64-bit number, goes up by k. The counter is assumed not to wrap around within the
  round: with 2^64 not a multiple of m a wrap-around shifts the rotation.
\<close>

theorem round_robin_share:
  assumes "dispatch_tasks net runID g peers now ts l = (l', sents)" "p \<in> set peers" "distinct peers"
    and "unat (DLCounter l) + length ts < 2 ^ 64" "length peers < 2 ^ 64"
  shows "length (filter (\<lambda>s. fst s = p) sents) \<in> {length ts div length peers, length ts div length peers + 1}
    \<and> unat (DLCounter l') = unat (DLCounter l) + length ts"
proof -
  note P = dispatch_tasks_peers [OF assms(1)]
  obtain i where i: "i < length peers" "peers ! i = p" using assms(2) by (auto simp: in_set_conv_nth)
  then have pos: "0 < length peers" by linarith
  have "next_peer peers (DLCounter l + of_nat j) = p \<longleftrightarrow> (unat (DLCounter l) + j) mod length peers = i" if "j < length ts" for j
    using that assms(4,5) i nth_eq_iff_index_eq [OF assms(3) mod_less_divisor [OF pos] i(1), of "unat (DLCounter l) + j"]
    by (simp add: next_peer_nat)
  then have "filter (\<lambda>j. next_peer peers (DLCounter l + of_nat j) = p) [0..<length ts] =
      filter (\<lambda>j. (unat (DLCounter l) + j) mod length peers = i) [0..<length ts]"
    by (intro filter_cong) auto
  moreover have "length (filter (\<lambda>s. fst s = p) sents) = length (filter (\<lambda>q. q = p) (map fst sents))"
    by (simp add: filter_map o_def)
  moreover have "unat (DLCounter l + of_nat (length ts)) = unat (DLCounter l) + length ts"
    using assms(4) by (simp add: unat_word_ariths unat_of_nat mod_add_right_eq)
  ultimately show ?thesis using P count_residue_share [OF i(1)] by (simp add: filter_map o_def)
qed


definition example_round :: "dispatch_loop \<times> (peer \<times> dispatch_request \<times> post_outcome) list" where
  "example_round = dispatch_tasks (\<lambda>url req db. (db, None)) 10 1 example_peers 5
     [(1, 1), (2, 1), (3, 1), (4, 1), (5, 1)] (example_loop False)"

theorem round_robin_share_witness:
  "length (filter (\<lambda>s. fst s = hd example_peers) (snd example_round)) \<in> {2, 3}"
proof -
  have run: "dispatch_tasks (\<lambda>url req db. (db, None)) 10 1 example_peers 5
     [(1, 1), (2, 1), (3, 1), (4, 1), (5, 1)] (example_loop False) = (fst example_round, snd example_round)"
    unfolding example_round_def by (rule prod.collapse [symmetric])
  have ps: "hd example_peers \<in> set example_peers" "distinct example_peers" "length example_peers = 2"
    by (simp_all add: example_peers_eq)
  have "length (filter (\<lambda>s. fst s = hd example_peers) (snd example_round)) \<in> {Suc (Suc 0), Suc (Suc (Suc 0))}"
    using round_robin_share [OF run ps(1,2)] ps(3) by simp
  then show ?thesis by auto
qed

end
