(* ===== verification/Dispatch_Agreement.thy ===== *)
theory Dispatch_Agreement
  imports Dispatch_Loop
begin

text \<open>
  The dispatch loop composed with the handlers of its peers: the network delivers every request
  to the \<open>HandleDispatch\<close> of the node at its address. What the owner holds in memory as running
  is then backed by a claimed row in the database.
\<close>

section \<open>The cluster as a network\<close>

text \<open>A node at an address: its handler, what its worker says to a task, how the database fails it, and whether the reply gets lost.\<close>

record cluster_node =
  CNHandler :: handler
  CNSubmit :: "inbound_dispatch \<Rightarrow> bool"
  CNFaults :: dispatch_faults
  CNReplyLost :: bool

definition deliver :: "(string \<Rightarrow> string) \<Rightarrow> string \<Rightarrow> (string \<Rightarrow> cluster_node option) \<Rightarrow> timestamp \<Rightarrow> network" where
  "deliver sha token cluster now url req db =
     (case cluster url of
        None \<Rightarrow> (db, None)
      | Some node \<Rightarrow>
          (case HandleDispatch sha (CNHandler node) POST (''Bearer '' @ token) (Some req) (CNSubmit node) (CNFaults node) now db of
             (db', rp, _) \<Rightarrow> (db', if CNReplyLost node then None else Some (RpStatus rp))))"

section \<open>The other rows\<close>

definition others :: "uuid \<Rightarrow> uuid \<Rightarrow> store_db \<Rightarrow> task_run list" where
  "others R i db = filter (\<lambda>r. \<not> is_row R i r) (db_task_runs db)"

definition row_frame :: "uuid \<Rightarrow> uuid \<Rightarrow> store_db \<Rightarrow> store_db \<Rightarrow> bool" where
  "row_frame R i db db' \<longleftrightarrow> others R i db' = others R i db
     \<and> map (\<lambda>r. (TRJobRunID r, TRTaskID r)) (db_task_runs db') = map (\<lambda>r. (TRJobRunID r, TRTaskID r)) (db_task_runs db)"

lemma row_frame_refl [simp]: "row_frame R i db db"
  by (simp add: row_frame_def)

lemma row_frame_trans: "row_frame R i a b \<Longrightarrow> row_frame R i b c \<Longrightarrow> row_frame R i a c"
  by (simp add: row_frame_def)

lemma row_frame_update:
  assumes "db_task_runs db' = update_where P f (db_task_runs db)"
    and "\<And>r. P r \<Longrightarrow> is_row R i r \<and> TRJobRunID (f r) = TRJobRunID r \<and> TRTaskID (f r) = TRTaskID r"
  shows "row_frame R i db db'"
proof -
  have "filter (\<lambda>r. \<not> is_row R i r) (update_where P f rs) = filter (\<lambda>r. \<not> is_row R i r) rs" for rs
    using assms(2) by (induction rs) (auto simp: is_row_def)
  moreover have "map (\<lambda>r. (TRJobRunID r, TRTaskID r)) (update_where P f rs) = map (\<lambda>r. (TRJobRunID r, TRTaskID r)) rs" for rs
    using assms(2) by (intro map_update_where) simp
  ultimately show ?thesis by (simp add: row_frame_def others_def assms(1))
qed

lemma row_frame_unique: "row_frame R i db db' \<Longrightarrow> rows_unique db \<Longrightarrow> rows_unique db'"
  by (simp add: row_frame_def rows_unique_def)

lemma row_frame_other:
  assumes "row_frame R i db db'" "r \<in> set (db_task_runs db)" "is_row R j r" "j \<noteq> i"
  shows "r \<in> set (db_task_runs db')"
proof -
  have "r \<in> set (others R i db)" using assms(2-4) by (auto simp: others_def is_row_def)
  then have "r \<in> set (others R i db')" using assms(1) by (simp add: row_frame_def)
  then show ?thesis by (simp add: others_def)
qed

lemma claim_frame:
  assumes "ClaimTaskForDispatch R i node g ttl trust now db = Inr (u, db1)"
  shows "row_frame R i db db1"
proof -
  let ?P = "\<lambda>r. is_row R i r \<and> TRStatus r = TaskStatusPending \<and> TRClaimedBy r = ''''
            \<and> (trust \<or> TROutstandingPredecessors r = 0)
            \<and> TROwnerGeneration r \<le> g \<and> rate_limit_passed now r"
  let ?f = "\<lambda>r. r\<lparr>TRStatus := TaskStatusRunning, TRClaimedBy := node,
        TRClaimExpiresAt := Some (now + ttl), TRClaimAttempt := TRClaimAttempt r + 1,
        TRStartedAt := Some now, TROwnerGeneration := g, TRRateLimitRetryAfter := None\<rparr>"
  have "recordTaskEventTx TypeTaskStarted R i (db\<lparr>db_task_runs := update_where ?P ?f (db_task_runs db)\<rparr>) = Inr (u, db1)"
    using assms unfolding ClaimTaskForDispatch_def must_update_eq by (auto split: if_splits)
  from recordTaskEventTx_rows [OF this] have "db_task_runs db1 = update_where ?P ?f (db_task_runs db)" by simp
  then show ?thesis by (rule row_frame_update) simp
qed

lemma rollback_frame: "row_frame (DqRunID req) (DqTaskID req) db (rollbackClaim faults h req db)"
proof (cases "DFRelease faults")
  case None
  then show ?thesis using rollbackClaim_rows [of faults h req db] by (auto intro: row_frame_update)
next
  case (Some e)
  then show ?thesis using rollbackClaim_rows [of faults h req db] by (simp add: row_frame_def others_def)
qed

lemma HandleDispatch_frame:
  assumes "HandleDispatch sha h method header (Some req) submit faults now db = (db', rp, sub)"
  shows "row_frame (DqRunID req) (DqTaskID req) db db'"
proof (cases "db_call (DFClaim faults) (ClaimTaskForDispatch (DqRunID req) (DqTaskID req) (HNodeID h) (DqOwnerGeneration req)
                       (claim_ttl (DqDeadline req) now) (HOwnerManager h) now db)")
  case (Inl e)
  with assms show ?thesis by (auto simp: HandleDispatch_def split: if_splits)
next
  case (Inr x)
  then obtain u db1 where x: "x = (u, db1)"
    and c: "ClaimTaskForDispatch (DqRunID req) (DqTaskID req) (HNodeID h) (DqOwnerGeneration req)
                       (claim_ttl (DqDeadline req) now) (HOwnerManager h) now db = Inr (u, db1)"
    by (cases x) (auto simp: db_call_def split: option.splits)
  have "db' = db \<or> db' = db1 \<or> db' = rollbackClaim faults h req db1"
    using assms Inr by (auto simp: HandleDispatch_def Let_def x split: if_splits sum.splits)
  with claim_frame [OF c] show ?thesis using row_frame_trans [OF claim_frame [OF c] rollback_frame] by auto
qed

lemma RateLimitTask_frame:
  assumes "RateLimitTask R i ra now db = Inr (u, db')" shows "row_frame R i db db'"
  using assms unfolding RateLimitTask_def Let_def
  by (auto simp: tx_bind_def update_task_runs_def tx_ok_def intro!: row_frame_update)

lemma acquireRateLimit_row_frame:
  "acquireRateLimit R i now l = (l', b) \<Longrightarrow> row_frame R i (on_db (DLNode l)) (on_db (DLNode l'))"
  by (auto simp: acquireRateLimit_def rememberRateLimitDelay_def Let_def dest: RateLimitTask_frame
      split: if_splits sum.splits option.splits bool.splits prod.splits)

lemma deliver_frame: "row_frame (DqRunID req) (DqTaskID req) db (fst (deliver sha token cluster now url req db))"
  by (auto simp: deliver_def split: option.splits prod.splits dest: HandleDispatch_frame)

text \<open>A row that a worker holds for an owner.\<close>

definition held_row :: "uuid \<Rightarrow> uuid \<Rightarrow> string \<Rightarrow> task_run \<Rightarrow> bool" where
  "held_row R i worker r \<longleftrightarrow> is_row R i r \<and> TRStatus r = TaskStatusRunning \<and> TRClaimedBy r = worker"

lemma deliver_accepted:
  assumes "rows_unique db" "deliver sha token cluster now url req db = (db', Some StatusAccepted)"
  shows "\<exists>r \<in> set (db_task_runs db'). held_row (DqRunID req) (DqTaskID req) (DqWorkerNode req) r
    \<and> TROwnerGeneration r = DqOwnerGeneration req"
proof -
  obtain node where node: "cluster url = Some node"
    using assms(2) by (cases "cluster url") (simp_all add: deliver_def)
  obtain db1 rp sub where
    h: "HandleDispatch sha (CNHandler node) POST (''Bearer '' @ token) (Some req) (CNSubmit node) (CNFaults node) now db = (db1, rp, sub)"
    using prod_cases3 by blast
  have "db1 = db'" "RpStatus rp = StatusAccepted"
    using assms(2) node h by (auto simp: deliver_def split: if_splits)
  with HandleDispatch_effect [OF assms(1) h] show ?thesis by (auto simp: held_row_def split: option.splits)
qed

section \<open>What the owner believes is backed by rows\<close>

definition backed :: "uuid \<Rightarrow> owned_run \<Rightarrow> store_db \<Rightarrow> bool" where
  "backed R own db \<longleftrightarrow> rows_unique db
     \<and> (\<forall>i ts. map_of (tasks (OState own)) i = Some ts \<longrightarrow> Status ts = TaskStatusRunning \<longrightarrow>
          (\<exists>r \<in> set (db_task_runs db). held_row R i (ClaimedBy ts) r))"

lemma backed_frame:
  assumes "backed R own db" "row_frame R i db db'" "task_status_of (OState own) i \<noteq> Some TaskStatusRunning"
  shows "backed R own db'"
  unfolding backed_def
proof (intro conjI allI impI)
  show "rows_unique db'" using assms(1,2) row_frame_unique by (auto simp: backed_def)
  fix j ts
  assume ts: "map_of (tasks (OState own)) j = Some ts" "Status ts = TaskStatusRunning"
  then have "j \<noteq> i" using assms(3) by (auto simp: task_status_of_def)
  obtain r where "r \<in> set (db_task_runs db)" "held_row R j (ClaimedBy ts) r" using assms(1) ts by (auto simp: backed_def)
  with row_frame_other [OF assms(2)] \<open>j \<noteq> i\<close> show "\<exists>r \<in> set (db_task_runs db'). held_row R j (ClaimedBy ts) r"
    by (auto simp: held_row_def)
qed

lemma ready_not_running: "rs_inv tp rs \<Longrightarrow> i \<in> set (ready rs) \<Longrightarrow> task_status_of rs i \<noteq> Some TaskStatusRunning"
  using queue_ok_pending [OF rs_inv_lagD(5)] by (fastforce simp: rs_inv_def)

lemma MarkDispatched_ready:
  assumes "rs_inv tp rs" "i \<in> set (ready rs)"
  shows "ready (MarkDispatched rs i c a l) = remove1 i (ready rs)"
    "map_of (tasks (MarkDispatched rs i c a l)) j =
       (if j = i then map_option (\<lambda>ts. ts\<lparr>Status := TaskStatusRunning, ClaimedBy := c, Attempt := a, LeaseExpiresAtMs := l\<rparr>) (map_of (tasks rs) i)
        else map_of (tasks rs) j)"
proof -
  obtain ts where ts: "map_of (tasks rs) i = Some ts" "\<not> IsTerminal (Status ts)"
    using live_open [OF assms(1), of i] assms(2) by (auto simp: is_open_def2 live_def)
  have "inReady rs i" using assms by (simp add: rs_inv_def rs_inv_lag_def queue_ok_def)
  with ts show "ready (MarkDispatched rs i c a l) = remove1 i (ready rs)"
    "map_of (tasks (MarkDispatched rs i c a l)) j =
       (if j = i then map_option (\<lambda>ts. ts\<lparr>Status := TaskStatusRunning, ClaimedBy := c, Attempt := a, LeaseExpiresAtMs := l\<rparr>) (map_of (tasks rs) i)
        else map_of (tasks rs) j)"
    by (simp_all add: MarkDispatched_def ready_removeReady update_conv)
qed

lemma backed_dispatched:
  assumes own: "backed R own db" "rs_inv tp (OState own)" "i \<in> set (ready (OState own))"
    and held: "r \<in> set (db_task_runs db)" "held_row R i c r"
  shows "backed R (own\<lparr>OState := MarkDispatched (OState own) i c a l\<rparr>) db"
  using own(1) held by (auto simp: backed_def MarkDispatched_ready(2) [OF own(2,3)] split: if_splits)

text \<open>One pushed task: only its own row and its own place in the queue change.\<close>

lemma dispatch_task_backed:
  assumes mem: "LCOwnerManager (DLConfig l)" "on_runs (DLNode l) R = Some own" "rs_inv tp (OState own)"
      "backed R own (on_db (DLNode l))" "fst t \<in> set (ready (OState own))"
    and run: "dispatch_task (deliver sha token cluster now) R g peers now t l = (l', p, req, out)"
  obtains own' where "on_runs (DLNode l') R = Some own'" "rs_inv tp (OState own')" "backed R own' (on_db (DLNode l'))"
    "row_frame R (fst t) (on_db (DLNode l)) (on_db (DLNode l'))"
    "ready (OState own') = (if out = Accepted then remove1 (fst t) (ready (OState own)) else ready (OState own))"
    "out = Accepted \<Longrightarrow> \<exists>r \<in> set (db_task_runs (on_db (DLNode l'))). held_row R (fst t) (PNodeID p) r \<and> TROwnerGeneration r = g"
    "LCOwnerManager (DLConfig l')"
proof -
  note frame = dispatch_task_frame [OF run]
  have nr: "task_status_of (OState own) (fst t) \<noteq> Some TaskStatusRunning" by (rule ready_not_running [OF mem(3,5)])
  define l1 where "l1 = l\<lparr>DLCounter := DLCounter l + 1\<rparr>"
  obtain l2 b where a: "acquireRateLimit R (fst t) now l1 = (l2, b)" by fastforce
  have l2: "on_runs (DLNode l2) R = Some own" "LCOwnerManager (DLConfig l2)"
    using acquireRateLimit_frame [OF a] mem(1,2) by (simp_all add: l1_def)
  have rf: "row_frame R (fst t) (on_db (DLNode l)) (on_db (DLNode l2))"
    using acquireRateLimit_row_frame [OF a] by (simp add: l1_def)
  have bk: "backed R own (on_db (DLNode l2))" by (rule backed_frame [OF mem(4) rf nr])
  show thesis
  proof (cases b)
    case False
    then have "l' = l2" "out = Limited" using run a by (auto simp: dispatch_task_def l1_def [symmetric] Let_def)
    then show thesis using that [of own] l2 mem(3) bk rf by simp
  next
    case True
    obtain db code where d: "deliver sha token cluster now (PBaseURL p @ ''/internal/dispatch'') req (on_db (DLNode l2)) = (db, code)"
      by fastforce
    have post: "postOne (deliver sha token cluster now) R p req now l2 = (l', out)"
      using run a True by (auto simp: dispatch_task_def l1_def [symmetric] Let_def split: prod.splits)
    have rf2: "row_frame R (fst t) (on_db (DLNode l2)) db"
      using deliver_frame [of req "on_db (DLNode l2)" sha token cluster now "PBaseURL p @ ''/internal/dispatch''"] d frame by simp
    have bk2: "backed R own db" by (rule backed_frame [OF bk rf2 nr])
    note rf3 = row_frame_trans [OF rf rf2]
    show thesis
    proof (cases "code = Some StatusAccepted")
      case True
      then have l': "out = Accepted" "l' = l2\<lparr>DLNode := om_MarkDispatched R (fst t) (PNodeID p) (DqAttempt req)
                             (UnixMilli (now + LCDeadline (DLConfig l2))) ((DLNode l2)\<lparr>on_db := db\<rparr>)\<rparr>"
        using post d l2(2) frame by (simp_all add: postOne_def PostDispatch_def Let_def)
      obtain r where r: "r \<in> set (db_task_runs db)" "held_row R (fst t) (PNodeID p) r" "TROwnerGeneration r = g"
        using deliver_accepted [OF _ d [unfolded True]] bk frame by (auto simp: backed_def)
      let ?own = "own\<lparr>OState := MarkDispatched (OState own) (fst t) (PNodeID p) (DqAttempt req) (UnixMilli (now + LCDeadline (DLConfig l2)))\<rparr>"
      have "on_runs (DLNode l') R = Some ?own" "on_db (DLNode l') = db" "LCOwnerManager (DLConfig l')"
        using l2 by (simp_all add: l' om_MarkDispatched_def om_get_def set_run_def)
      moreover have "rs_inv tp (OState ?own)"
        using MarkDispatched_live(1) [OF mem(3), of "fst t"] mem(5) by (simp add: live_def relabels_def)
      ultimately show thesis
        using that [of ?own] backed_dispatched [OF bk2 mem(3,5) r(1,2)] rf3 r MarkDispatched_ready(1) [OF mem(3,5)] l'(1) by auto
    next
      case False
      then have "DLNode l' = (DLNode l2)\<lparr>on_db := db\<rparr>" "DLConfig l' = DLConfig l2" "out \<noteq> Accepted"
        using post d by (auto simp: postOne_def PostDispatch_def benchPeer_def Let_def split: option.splits if_splits bool.splits)
      then show thesis using that [of own] l2 mem(3) bk2 rf3 by simp
    qed
  qed
qed

text \<open>What a series of pushes makes of the run.\<close>

definition pushed ::
    "uuid \<Rightarrow> run_topology \<Rightarrow> int \<Rightarrow> owned_run \<Rightarrow> uuid set \<Rightarrow> (peer \<times> dispatch_request \<times> post_outcome) list
       \<Rightarrow> dispatch_loop \<Rightarrow> dispatch_loop \<Rightarrow> owned_run \<Rightarrow> bool" where
  "pushed R tp g own ids sents l l' own' \<longleftrightarrow>
     on_runs (DLNode l') R = Some own' \<and> rs_inv tp (OState own') \<and> backed R own' (on_db (DLNode l'))
     \<and> set (ready (OState own')) = set (ready (OState own)) - {DqTaskID req | p req. (p, req, Accepted) \<in> set sents}
     \<and> (\<forall>p req. (p, req, Accepted) \<in> set sents \<longrightarrow>
          (\<exists>r \<in> set (db_task_runs (on_db (DLNode l'))). held_row R (DqTaskID req) (PNodeID p) r \<and> TROwnerGeneration r = g))
     \<and> (\<forall>r j. r \<in> set (db_task_runs (on_db (DLNode l))) \<longrightarrow> is_row R j r \<longrightarrow> j \<notin> ids \<longrightarrow> r \<in> set (db_task_runs (on_db (DLNode l'))))"

lemma dispatch_tasks_backed:
  assumes "LCOwnerManager (DLConfig l)" "on_runs (DLNode l) R = Some own" "rs_inv tp (OState own)"
      "backed R own (on_db (DLNode l))" "fst ` set ts \<subseteq> set (ready (OState own))" "distinct (map fst ts)"
    and "dispatch_tasks (deliver sha token cluster now) R g peers now ts l = (l', sents)"
  shows "\<exists>own'. pushed R tp g own (fst ` set ts) sents l l' own'"
  using assms
proof (induction ts arbitrary: l own sents)
  case Nil
  then have "pushed R tp g own (fst ` set []) sents l l' own" by (auto simp: pushed_def)
  then show ?case by blast
next
  case (Cons t ts)
  obtain l1 p req out where 1: "dispatch_task (deliver sha token cluster now) R g peers now t l = (l1, p, req, out)" by (metis prod_cases4)
  obtain l2 more_sents where 2: "dispatch_tasks (deliver sha token cluster now) R g peers now ts l1 = (l2, more_sents)" by fastforce
  have sents: "sents = (p, req, out) # more_sents" "l2 = l'" using Cons.prems(7) 1 2 by simp_all
  have t: "fst t \<in> set (ready (OState own))" using Cons.prems(5) by simp
  obtain own1 where o1: "on_runs (DLNode l1) R = Some own1" "rs_inv tp (OState own1)" "backed R own1 (on_db (DLNode l1))"
    and rf: "row_frame R (fst t) (on_db (DLNode l)) (on_db (DLNode l1))"
    and rd: "ready (OState own1) = (if out = Accepted then remove1 (fst t) (ready (OState own)) else ready (OState own))"
    and hd: "out = Accepted \<Longrightarrow> \<exists>r \<in> set (db_task_runs (on_db (DLNode l1))). held_row R (fst t) (PNodeID p) r \<and> TROwnerGeneration r = g"
    and m1: "LCOwnerManager (DLConfig l1)"
    by (rule dispatch_task_backed [OF Cons.prems(1-4) t 1]) blast
  have "distinct (ready (OState own))" using Cons.prems(3) by (simp add: rs_inv_def rs_inv_lag_def queue_ok_def)
  then have rd': "set (ready (OState own1)) = set (ready (OState own)) - (if out = Accepted then {fst t} else {})"
    by (simp add: rd)
  have sub: "fst ` set ts \<subseteq> set (ready (OState own1))"
    unfolding rd' using Cons.prems(5,6) by (simp add: subset_Diff_insert)
  have dist: "distinct (map fst ts)" using Cons.prems(6) by simp
  obtain own2 where p2: "pushed R tp g own1 (fst ` set ts) more_sents l1 l' own2"
    using Cons.IH [OF m1 o1 sub dist 2 [unfolded sents(2)]] by blast
  have o2: "on_runs (DLNode l') R = Some own2" "rs_inv tp (OState own2)" "backed R own2 (on_db (DLNode l'))"
    and rd2: "set (ready (OState own2)) = set (ready (OState own1)) - {DqTaskID req | p req. (p, req, Accepted) \<in> set more_sents}"
    using p2 by (simp_all add: pushed_def)
  have hd2: "\<exists>r \<in> set (db_task_runs (on_db (DLNode l'))). held_row R (DqTaskID req) (PNodeID p) r \<and> TROwnerGeneration r = g"
    if "(p, req, Accepted) \<in> set more_sents" for p req using p2 that unfolding pushed_def by blast
  have fr2: "r \<in> set (db_task_runs (on_db (DLNode l')))"
    if "r \<in> set (db_task_runs (on_db (DLNode l1)))" "is_row R j r" "j \<notin> fst ` set ts" for r j
    using p2 that unfolding pushed_def by blast
  have req: "DqTaskID req = fst t" using dispatch_task_frame [OF 1] by simp
  have "fst t \<notin> fst ` set ts" using Cons.prems(6) by simp
  then have held: "\<exists>r \<in> set (db_task_runs (on_db (DLNode l'))). held_row R (fst t) (PNodeID p) r \<and> TROwnerGeneration r = g" if "out = Accepted"
    using hd [OF that] fr2 by (meson held_row_def)
  have "set (ready (OState own2)) = set (ready (OState own)) - {DqTaskID req' | p' req'. (p', req', Accepted) \<in> set sents}"
  proof -
    have "{DqTaskID req' | p' req'. (p', req', Accepted) \<in> set ((p, req, out) # more_sents)} =
        (if out = Accepted then {DqTaskID req} else {}) \<union> {DqTaskID req' | p' req'. (p', req', Accepted) \<in> set more_sents}"
      by (cases out) (simp_all, blast)
    then show ?thesis unfolding rd2 rd' sents(1) req by auto
  qed
  moreover have "\<exists>r \<in> set (db_task_runs (on_db (DLNode l'))). held_row R (DqTaskID req') (PNodeID p') r \<and> TROwnerGeneration r = g"
    if "(p', req', Accepted) \<in> set sents" for p' req'
    using that held hd2 req by (auto simp: sents(1))
  moreover have "r \<in> set (db_task_runs (on_db (DLNode l')))"
    if "r \<in> set (db_task_runs (on_db (DLNode l)))" "is_row R j r" "j \<notin> fst ` set (t # ts)" for r j
    using row_frame_other [OF rf that(1,2)] that fr2 by simp
  ultimately have "pushed R tp g own (fst ` set (t # ts)) sents l l' own2" using o2 unfolding pushed_def by blast
  then show ?case by blast
qed

text \<open>
  C9. The owner's memory and the database agree about running tasks. When the owner of a run pushes
  the ready tasks of that run to its peers, with any handlers behind the peers' addresses, any
  answers of their workers, failing databases, lost replies, unreachable nodes and rate limits, then afterwards
  every task that the owner holds as running has a running row claimed by the worker the owner
  names, if that was so before; the tasks that have left the ready queue are exactly those a
  worker accepted, each with a row held by the addressed worker under the generation of the
  request; at most a batch of tasks is pushed, all of them ready, and none twice.
\<close>

theorem dispatch_agrees:
  assumes "LCOwnerManager (DLConfig l)" "on_runs (DLNode l) R = Some own" "rs_inv tp (OState own)"
      "backed R own (on_db (DLNode l))"
    and "dispatchRunInMemory (deliver sha token cluster now) x R g peers now l = (l', sents)"
  shows "\<exists>own'. on_runs (DLNode l') R = Some own' \<and> rs_inv tp (OState own') \<and> backed R own' (on_db (DLNode l'))
    \<and> set (ready (OState own')) = set (ready (OState own)) - {DqTaskID req | p req. (p, req, Accepted) \<in> set sents}
    \<and> (\<forall>p req. (p, req, Accepted) \<in> set sents \<longrightarrow>
         (\<exists>r \<in> set (db_task_runs (on_db (DLNode l'))). held_row R (DqTaskID req) (PNodeID p) r \<and> TROwnerGeneration r = g))
    \<and> length sents \<le> nat (LCBatchSize (DLConfig l))
    \<and> distinct (map (\<lambda>s. DqTaskID (fst (snd s))) sents)
    \<and> (\<lambda>s. DqTaskID (fst (snd s))) ` set sents \<subseteq> set (ready (OState own))"
proof -
  have owns: "Owns (DLNode l) R" using assms(2) by (simp add: Owns_def om_get_def)
  from assms(5) show ?thesis
  proof (cases rule: dispatchRunInMemory_cases)
    case (2 n l1 out)
    have n: "n = DLNode l" using 2(2) owns by simp
    have l1: "DLNode l1 = DLNode l" "DLConfig l1 = DLConfig l" "set out \<subseteq> set (ReadyForDispatch (DLNode l) R)"
      using filter_delayed_keeps [OF 2(1)] by (simp_all add: n keeps_self_def)
    have rfd: "map DTTaskID (ReadyForDispatch (DLNode l) R) = ready (OState own)"
      using assms(2) by (simp add: ReadyForDispatch_def om_get_def ReadyTasks_def o_def)
    have dist: "distinct (map DTTaskID out)"
      using filter_delayed_distinct [OF 2(1)] rfd assms(3) by (simp add: n rs_inv_def rs_inv_lag_def queue_ok_def)
    define ts where "ts = map (\<lambda>dt. (DTTaskID dt, DTAttempt dt)) (take (nat (LCBatchSize (DLConfig l))) out)"
    have "DTTaskID ` set (take k out) \<subseteq> set (ready (OState own))" for k
      unfolding rfd [symmetric] using l1(3) by (auto dest: in_set_takeD)
    then have ts: "fst ` set ts \<subseteq> set (ready (OState own))" by (simp add: ts_def image_image)
    have "map fst ts = take (nat (LCBatchSize (DLConfig l))) (map DTTaskID out)" by (simp add: ts_def o_def take_map)
    with dist have ts': "distinct (map fst ts)" "length ts \<le> nat (LCBatchSize (DLConfig l))" by (simp_all add: ts_def)
    have run: "dispatch_tasks (deliver sha token cluster now) R g peers now ts l1 = (l', sents)" using 2(3) by (simp add: ts_def)
    have ids: "map (\<lambda>s. DqTaskID (fst (snd s))) sents = map fst ts" using dispatch_tasks_peers [OF run] by simp
    have "length sents = length ts" "(\<lambda>s. DqTaskID (fst (snd s))) ` set sents = fst ` set ts"
      using arg_cong [OF ids, of length] arg_cong [OF ids, of set] by simp_all
    moreover have "LCOwnerManager (DLConfig l1)" "on_runs (DLNode l1) R = Some own" "backed R own (on_db (DLNode l1))"
      using assms(1,2,4) l1(1,2) by simp_all
    note dispatch_tasks_backed [OF this(1,2) assms(3) this(3) ts ts'(1) run]
    then obtain own' where "pushed R tp g own (fst ` set ts) sents l1 l' own'" by blast
    ultimately show ?thesis using ts ts' ids unfolding pushed_def by (intro exI [of _ own']) simp
  qed (use owns in simp)
qed

definition example_cluster :: "string \<Rightarrow> cluster_node option" where
  "example_cluster url =
     (if url = ''http://n2:9001/internal/dispatch''
      then Some \<lparr>CNHandler = WithOwnerManager (WithWorkerSubmitter (NewHandler ''n2:9001'' ''secret'')),
                 CNSubmit = (\<lambda>_. True), CNFaults = no_dispatch_faults, CNReplyLost = False\<rparr>
      else None)"


definition fresh_loop :: dispatch_loop where
  "fresh_loop = (example_loop True)\<lparr>DLNode := example_node\<lparr>on_db := example_db\<lparr>db_task_runs :=
     map (\<lambda>t. sample_row 10 t TaskStatusPending) [1, 2, 3, 4]\<rparr>\<rparr>\<rparr>"

definition fresh_round :: "dispatch_loop \<times> (peer \<times> dispatch_request \<times> post_outcome) list" where
  "fresh_round = dispatchRunInMemory (deliver id ''secret'' example_cluster 7) False 10 3 example_peers 7 fresh_loop"

theorem dispatch_agrees_witness:
  "\<exists>own'. on_runs (DLNode (fst fresh_round)) 10 = Some own' \<and> backed 10 own' (on_db (DLNode (fst fresh_round)))
     \<and> length (snd fresh_round) \<le> 2 \<and> map (\<lambda>s. snd (snd s)) (snd fresh_round) = [Accepted]"
proof -
  let ?own = "the (on_runs example_node 10)"
  have wf: "topo_wf example_topology" unfolding example_topology_def using catalogTopology_wf [of example_db 5] by simp
  have node: "on_runs (DLNode fresh_loop) 10 = Some ?own" "LCOwnerManager (DLConfig fresh_loop)"
    using example_owned(1) by (simp_all add: fresh_loop_def example_config_def)
  have inv: "rs_inv example_topology (OState ?own)"
    unfolding example_owned(2) using NewRunState_inv [OF wf, of 0] by blast
  have "map_of (tasks (OState ?own)) i = Some ts \<Longrightarrow> Status ts \<noteq> TaskStatusRunning" for i ts
    unfolding example_owned(2) using NewRunState_inv(3) [OF wf, of 0 i] by (auto simp: task_status_of_def split: if_splits)
  then have "backed 10 ?own (on_db (DLNode fresh_loop))"
    by (auto simp: backed_def fresh_loop_def rows_unique_def sample_row_def)
  from dispatch_agrees [OF node(2,1) inv this, of id "''secret''" example_cluster 7 False 3 example_peers "fst fresh_round" "snd fresh_round"]
  have "\<exists>own'. on_runs (DLNode (fst fresh_round)) 10 = Some own' \<and> backed 10 own' (on_db (DLNode (fst fresh_round)))
     \<and> length (snd fresh_round) \<le> nat (LCBatchSize (DLConfig fresh_loop))"
    unfolding fresh_round_def by auto
  moreover have "nat (LCBatchSize (DLConfig fresh_loop)) = 2" by (simp add: fresh_loop_def example_config_def)
  moreover have "map (\<lambda>s. snd (snd s)) (snd fresh_round) = [Accepted]" by code_simp
  ultimately show ?thesis by simp
qed

end
