(* ===== verification/Jobdef_Types.thy ===== *)
theory Jobdef_Types
  imports Complex_Main Task_Status Store_DB Go_Duration
begin

text \<open>
  The data of a job definition (\<open>pkg/jobdef/definition.go\<close>): what a manifest has been decoded
  to. Pointers are options, maps that are ranged over are association lists, and values of
  type \<open>any\<close> are JSON values. Fields that no modelled operation reads are left out.
\<close>

section \<open>Values of any type\<close>

datatype json =
    JNull
  | JBool bool
  | JInt int
  | JFloat rat
  | JStr string
  | JArr "json list"
  | JObj "(string \<times> json) list"

text \<open>Type assertions: the value of a dynamic type, if it has that type.\<close>

fun as_string :: "json \<Rightarrow> string option" where
  "as_string (JStr s) = Some s"
| "as_string _ = None"

fun as_list :: "json \<Rightarrow> json list option" where
  "as_list (JArr xs) = Some xs"
| "as_list _ = None"

fun as_map :: "json \<Rightarrow> (string \<times> json) list option" where
  "as_map (JObj m) = Some m"
| "as_map _ = None"

section \<open>Errors\<close>

text \<open>The text of an error, with the list positions that occur in it.\<close>

datatype jobdef_error = Invalid string "nat list"

type_synonym 'a checked = "jobdef_error + 'a"

definition invalid :: "string \<Rightarrow> nat list \<Rightarrow> 'a checked" where
  "invalid msg pos = Inl (Invalid msg pos)"

definition ensure :: "bool \<Rightarrow> string \<Rightarrow> nat list \<Rightarrow> unit checked" where
  "ensure ok msg pos = (if ok then Inr () else invalid msg pos)"

definition checked_bind :: "'a checked \<Rightarrow> ('a \<Rightarrow> 'b checked) \<Rightarrow> 'b checked" where
  "checked_bind m f = (case m of Inl e \<Rightarrow> Inl e | Inr x \<Rightarrow> f x)"

text \<open>A loop that checks and rewrites the entries of a list in order and stops at the first error.\<close>

fun check_list :: "(nat \<Rightarrow> 'a \<Rightarrow> 'b checked) \<Rightarrow> nat \<Rightarrow> 'a list \<Rightarrow> 'b list checked" where
  "check_list f i [] = Inr []"
| "check_list f i (x # xs) = checked_bind (f i x) (\<lambda>y. checked_bind (check_list f (Suc i) xs) (\<lambda>ys. Inr (y # ys)))"

text \<open>The same with a set of names that the loop carries along.\<close>

fun check_fold :: "(nat \<Rightarrow> 's \<Rightarrow> 'a \<Rightarrow> ('s \<times> 'b) checked) \<Rightarrow> nat \<Rightarrow> 's \<Rightarrow> 'a list \<Rightarrow> ('s \<times> 'b list) checked" where
  "check_fold f i s [] = Inr (s, [])"
| "check_fold f i s (x # xs) = checked_bind (f i s x) (\<lambda>(s1, y).
     checked_bind (check_fold f (Suc i) s1 xs) (\<lambda>(s2, ys). Inr (s2, y # ys)))"

lemma checked_bind_simps [simp]:
  "checked_bind (Inl e) f = Inl e" "checked_bind (Inr x) f = f x"
  by (simp_all add: checked_bind_def)

lemma checked_bind_Inr: "checked_bind m f = Inr y \<longleftrightarrow> (\<exists>x. m = Inr x \<and> f x = Inr y)"
  by (cases m) auto

lemma ensure_Inr [simp]: "ensure ok msg pos = Inr u \<longleftrightarrow> ok"
  by (simp add: ensure_def invalid_def)

lemma invalid_Inr [simp]: "invalid msg pos \<noteq> Inr x"
  by (simp add: invalid_def)

lemma check_list_Inr:
  "check_list f i xs = Inr ys \<longleftrightarrow> length ys = length xs \<and> (\<forall>k < length xs. f (i + k) (xs ! k) = Inr (ys ! k))"
proof (induction xs arbitrary: i ys)
  case (Cons x xs)
  show ?case
  proof (cases ys)
    case (Cons y zs)
    then show ?thesis
      using Cons.IH [of "Suc i" zs] by (auto simp: checked_bind_Inr less_Suc_eq_0_disj)
  qed (auto simp: checked_bind_Inr)
qed auto

section \<open>Definitions\<close>

record concurrency =
  CMaxRuns :: int
  CStrategy :: string

record trigger =
  TgType :: string
  TgConfiguration :: "(string \<times> json) list option"
  TgDefaultParams :: "(string \<times> string) list"

record callback =
  CbType :: string
  CbConfiguration :: "(string \<times> json) list option"

record claim_template =
  CtStorageClass :: string
  CtSize :: string
  CtAccessMode :: string
  CtLabels :: "(string \<times> string) list"
  CtAnnotations :: "(string \<times> string) list"

record tmpfs_source =
  TmSizeBytes :: int
  TmMode :: "int option"

record volume_source =
  VsPVC :: string
  VsClaimTemplate :: "claim_template option"
  VsVolumeSource :: "(string \<times> json) list option"
  VsBind :: string
  VsVolume :: string
  VsTmpfs :: "tmpfs_source option"

record volume =
  VoName :: string
  VoSource :: "volume_source option"
  VoSources :: "(string \<times> volume_source) list"
  VoAccessMode :: string

record volume_mount =
  VmVolume :: string
  VmPath :: string
  VmReadOnly :: bool
  VmSubPath :: string

record step_rate_limit =
  SrResource :: string
  SrUnits :: int

record produced_dataset =
  PdName :: string
  PdSchema :: "(string \<times> json) list option"
  PdSchemaFrom :: string
  PdFreshness :: string
  PdMaxStaleness :: string
  PdWatermark :: "string option"

record consumed_dataset =
  CdName :: string
  CdSchema :: "(string \<times> json) list option"

record step_datasets =
  SdConsumes :: "consumed_dataset list"
  SdProduces :: "produced_dataset list"

record arrival =
  ArEventType :: "string option"
  ArWatermark :: string

record source_dataset =
  SoName :: string
  SoExpectedEvery :: string
  SoArrival :: "arrival option"

record class_policy =
  RcAllow :: "string list"

record autonomy =
  AuAllow :: "string list"
  AuParamOverrides :: "(string \<times> string list) list"
  AuPerClass :: "(string \<times> class_policy) list"
  AuRequireApproval :: "string list"

record escalation =
  EsChannel :: string
  EsAfter :: string

record remediation =
  ReProfile :: string
  ReClasses :: "string list"
  ReMaxAttempts :: int
  ReAutonomy :: "autonomy option"
  ReEscalation :: "escalation option"

text \<open>The container spec of a step: the targets of its mounts stand for the mounts.\<close>

record step =
  StName :: string
  StType :: string
  StEngine :: string
  StImage :: string
  StNext :: "string list"
  StDependsOn :: "string list"
  StRetryDelay :: int
  StRetryBackoff :: bool
  StTriggerRule :: string
  StReplaySafe :: bool
  StVolumeMounts :: "volume_mount list"
  StServiceAccountName :: string
  StPodAnnotations :: "(string \<times> string) list"
  StAutomountServiceAccountToken :: "bool option"
  StKueue :: "string option"
  StRateLimit :: "step_rate_limit option"
  StOutputSchema :: "(string \<times> json) list option"
  StInputSchema :: "(string \<times> (string \<times> json) list) list option"
  StDatasets :: "step_datasets option"
  StMountTargets :: "string list"

record metadata =
  MdAlias :: string
  MdPriority :: string
  MdConcurrency :: "concurrency option"
  MdRateLimits :: "rate_limit list"
  MdSchemaValidation :: string
  MdReplaySafe :: bool
  MdServiceAccountName :: string
  MdPodAnnotations :: "(string \<times> string) list"
  MdAutomountServiceAccountToken :: "bool option"
  MdSources :: "source_dataset list"
  MdRemediation :: "remediation option"

record job_definition =
  DfAPIVersion :: string
  DfKind :: string
  DfMetadata :: metadata
  DfTrigger :: trigger
  DfCallbacks :: "callback list"
  DfVolumes :: "volume list"
  DfSteps :: "step list"

end
