(* ===== verification/Graph_Search.thy ===== *)
theory Graph_Search
  imports Caesium_Prelude
begin

text \<open>
  The graph searches that several components contain, on an adjacency function: the three-colour
  depth-first search of the cycle checks, and the breadth-first walk over descendants.
\<close>

definition edges_of :: "('a \<Rightarrow> 'a list) \<Rightarrow> ('a \<times> 'a) set" where
  "edges_of adj = {(x, y). y \<in> set (adj x)}"

lemma in_edges_of [simp]: "(x, y) \<in> edges_of adj \<longleftrightarrow> y \<in> set (adj x)"
  by (simp add: edges_of_def)

section \<open>Depth-first search\<close>

datatype colour = Unvisited | Visiting | Visited

text \<open>
  Visiting a list of nodes: \<open>Inl x\<close> is a node met again while it is being visited. The fuel
  bounds the depth of the recursion; running out of it is \<open>None\<close>.
\<close>

fun visit_list :: "nat \<Rightarrow> ('a \<Rightarrow> 'a list) \<Rightarrow> 'a list \<Rightarrow> ('a \<Rightarrow> colour) \<Rightarrow> ('a + ('a \<Rightarrow> colour)) option" where
  "visit_list k adj [] st = Some (Inr st)"
| "visit_list 0 adj (x # xs) st = None"
| "visit_list (Suc k) adj (x # xs) st =
     (case st x of
        Visiting \<Rightarrow> Some (Inl x)
      | Visited \<Rightarrow> visit_list (Suc k) adj xs st
      | Unvisited \<Rightarrow>
          (case visit_list k adj (adj x) (st(x := Visiting)) of
             None \<Rightarrow> None
           | Some (Inl v) \<Rightarrow> Some (Inl v)
           | Some (Inr st') \<Rightarrow> visit_list (Suc k) adj xs (st'(x := Visited))))"

lemma visit_list_Cons_Inr:
  assumes "visit_list (Suc k) adj (x # xs) st = Some (Inr st')"
  obtains "st x = Visited" "visit_list (Suc k) adj xs st = Some (Inr st')"
  | st1 where "st x = Unvisited" "visit_list k adj (adj x) (st(x := Visiting)) = Some (Inr st1)"
      "visit_list (Suc k) adj xs (st1(x := Visited)) = Some (Inr st')"
  using assms by (auto split: colour.splits option.splits sum.splits)

text \<open>The nodes being visited are the same afterwards, and no node becomes unvisited.\<close>

lemma visit_list_frame:
  "visit_list k adj xs st = Some (Inr st') \<Longrightarrow>
     (st' y = Visiting \<longleftrightarrow> st y = Visiting) \<and> (st y = Visited \<longrightarrow> st' y = Visited) \<and> (st' y = Unvisited \<longrightarrow> st y = Unvisited)"
proof (induction k adj xs st arbitrary: st' rule: visit_list.induct)
  case (3 k adj x xs st)
  from 3(4) show ?case
  proof (cases rule: visit_list_Cons_Inr)
    case 1
    from 3(3) [OF 1] show ?thesis .
  next
    case (2 st1)
    note a = 3(1) [OF 2(1,2), unfolded fun_upd_apply] and b = 3(2) [OF 2(1,2) refl 2(3), unfolded fun_upd_apply]
    show ?thesis
    proof (cases "y = x")
      case True
      from b 2(1) show ?thesis unfolding if_P [OF True] True by simp
    next
      case False
      from a b show ?thesis unfolding if_not_P [OF False] by blast
    qed
  qed
qed auto

lemma visit_list_colours:
  assumes "visit_list k adj xs st = Some (Inr st')"
  shows visiting_same: "st' y = Visiting \<longleftrightarrow> st y = Visiting"
    and visited_stays: "st y = Visited \<Longrightarrow> st' y = Visited"
    and unvisited_was: "st' y = Unvisited \<Longrightarrow> st y = Unvisited"
  using visit_list_frame [OF assms, of y] by blast+

definition dfs_closed :: "('a \<Rightarrow> 'a list) \<Rightarrow> ('a \<Rightarrow> colour) \<Rightarrow> bool" where
  "dfs_closed adj st \<longleftrightarrow> (\<forall>x. st x = Visited \<longrightarrow> (\<forall>y \<in> set (adj x). st y = Visited) \<and> (x, x) \<notin> (edges_of adj)\<^sup>+)"

lemma closed_rtrancl: "(x, y) \<in> (edges_of adj)\<^sup>* \<Longrightarrow> dfs_closed adj st \<Longrightarrow> st x = Visited \<Longrightarrow> st y = Visited"
  by (induction rule: rtrancl_induct) (auto simp: dfs_closed_def)

lemma visit_list_closed:
  "visit_list k adj xs st = Some (Inr st') \<Longrightarrow> dfs_closed adj st \<Longrightarrow> dfs_closed adj st' \<and> (\<forall>x \<in> set xs. st' x = Visited)"
proof (induction k adj xs st arbitrary: st' rule: visit_list.induct)
  case (3 k adj x xs st)
  from 3(4) show ?case
  proof (cases rule: visit_list_Cons_Inr)
    case 1
    then show ?thesis using 3(3) [OF 1 3(5)] visited_stays [OF 1(2)] by simp
  next
    case (2 st1)
    have c: "dfs_closed adj (st(x := Visiting))" using 3(5) 2(1) by (auto simp: dfs_closed_def)
    have s1: "dfs_closed adj st1" "\<forall>y \<in> set (adj x). st1 y = Visited" using 3(1) [OF 2(1,2) c] by auto
    have x1: "st1 x = Visiting" using visiting_same [OF 2(2), of x] by simp
    have "(x, x) \<notin> (edges_of adj)\<^sup>+"
    proof
      assume "(x, x) \<in> (edges_of adj)\<^sup>+"
      then obtain y where "y \<in> set (adj x)" "(y, x) \<in> (edges_of adj)\<^sup>*" by (auto dest: tranclD)
      with s1 closed_rtrancl [of y x adj st1] x1 show False by fastforce
    qed
    then have "dfs_closed adj (st1(x := Visited))" using s1 by (auto simp: dfs_closed_def)
    from 3(2) [OF 2(1,2) refl 2(3) this] visited_stays [OF 2(3), of x] show ?thesis by simp
  qed
qed auto

text \<open>A node met again lies on a cycle, if the nodes being visited lead to the nodes of the list.\<close>

lemma visit_list_cycle:
  "visit_list k adj xs st = Some (Inl v) \<Longrightarrow> (\<And>u x. st u = Visiting \<Longrightarrow> x \<in> set xs \<Longrightarrow> (u, x) \<in> (edges_of adj)\<^sup>+)
     \<Longrightarrow> (v, v) \<in> (edges_of adj)\<^sup>+"
proof (induction k adj xs st rule: visit_list.induct)
  case (3 k adj x xs st)
  show ?case
  proof (cases "st x")
    case Unvisited
    have inner: "(u, y) \<in> (edges_of adj)\<^sup>+" if "(st(x := Visiting)) u = Visiting" "y \<in> set (adj x)" for u y
      using that 3(5) [of u x] by (auto split: if_splits intro: trancl_into_trancl)
    show ?thesis
    proof (cases "visit_list k adj (adj x) (st(x := Visiting))")
      case None
      then show ?thesis using 3(4) Unvisited by simp
    next
      case (Some r)
      show ?thesis
      proof (cases r)
        case (Inl w)
        with Some 3(4) Unvisited have "visit_list k adj (adj x) (st(x := Visiting)) = Some (Inl v)" by simp
        from 3(1) [OF Unvisited this inner] show ?thesis .
      next
        case (Inr st1)
        have "(u, y) \<in> (edges_of adj)\<^sup>+" if "(st1(x := Visited)) u = Visiting" "y \<in> set xs" for u y
          using that visiting_same [OF Some [unfolded Inr], of u] 3(5) [of u y] by (auto split: if_splits)
        moreover have "visit_list (Suc k) adj xs (st1(x := Visited)) = Some (Inl v)" using 3(4) Unvisited Some Inr by simp
        ultimately show ?thesis using 3(2) [OF Unvisited Some Inr] by blast
      qed
    qed
  next
    case Visiting
    with 3(4) 3(5) [of x x] show ?thesis by simp
  next
    case Visited
    with 3(3) [OF Visited] 3(4,5) show ?thesis by simp
  qed
qed auto

text \<open>Fuel for one more than the unvisited nodes of a closed set is enough.\<close>

lemma visit_list_fuel:
  "finite N \<Longrightarrow> set xs \<subseteq> N \<Longrightarrow> (\<And>x. x \<in> N \<Longrightarrow> set (adj x) \<subseteq> N) \<Longrightarrow> card {x \<in> N. st x = Unvisited} < k
     \<Longrightarrow> visit_list k adj xs st \<noteq> None"
proof (induction k adj xs st rule: visit_list.induct)
  case (3 k adj x xs st)
  show ?case
  proof (cases "st x")
    case Unvisited
    have x: "x \<in> {x \<in> N. st x = Unvisited}" using 3(5) Unvisited by simp
    have "{y \<in> N. (st(x := Visiting)) y = Unvisited} = {y \<in> N. st y = Unvisited} - {x}" by auto
    then have eq: "card {y \<in> N. (st(x := Visiting)) y = Unvisited} = card {y \<in> N. st y = Unvisited} - 1"
      using card_Diff_singleton [OF x] by simp
    have fin: "finite {y \<in> N. st y = Unvisited}" using 3(4) by simp
    then have "0 < card {y \<in> N. st y = Unvisited}" using x card_gt_0_iff by blast
    then have "card {y \<in> N. (st(x := Visiting)) y = Unvisited} < k" using 3(7) eq by linarith
    moreover have "set (adj x) \<subseteq> N" using 3(5,6) by simp
    ultimately have "visit_list k adj (adj x) (st(x := Visiting)) \<noteq> None" using 3(1) [OF Unvisited 3(4) _ 3(6)] by blast
    then obtain r where r: "visit_list k adj (adj x) (st(x := Visiting)) = Some r" by blast
    show ?thesis
    proof (cases r)
      case (Inr st1)
      have "{y \<in> N. (st1(x := Visited)) y = Unvisited} \<subseteq> {y \<in> N. st y = Unvisited}"
      proof
        fix y
        assume "y \<in> {y \<in> N. (st1(x := Visited)) y = Unvisited}"
        then have "y \<in> N" "y \<noteq> x" "st1 y = Unvisited" by (auto split: if_splits)
        with unvisited_was [OF r [unfolded Inr], of y] show "y \<in> {y \<in> N. st y = Unvisited}" by simp
      qed
      then have "card {y \<in> N. (st1(x := Visited)) y = Unvisited} < Suc k"
        using 3(7) card_mono [OF fin] by (meson le_less_trans)
      moreover have "set xs \<subseteq> N" using 3(5) by simp
      ultimately have "visit_list (Suc k) adj xs (st1(x := Visited)) \<noteq> None" using 3(2) [OF Unvisited r Inr 3(4) _ 3(6)] by blast
      then show ?thesis using Unvisited r Inr by simp
    qed (simp add: Unvisited r)
  next
    case Visited
    with 3(3) [OF Visited 3(4) _ 3(6,7)] 3(5) show ?thesis by simp
  qed simp
qed auto


text \<open>The whole search, from a list of roots.\<close>

definition search :: "nat \<Rightarrow> ('a \<Rightarrow> 'a list) \<Rightarrow> 'a list \<Rightarrow> ('a + ('a \<Rightarrow> colour)) option" where
  "search k adj roots = visit_list k adj roots (\<lambda>_. Unvisited)"

lemma search_Inr:
  assumes "search k adj roots = Some (Inr st)" "x \<in> set roots" "(x, y) \<in> (edges_of adj)\<^sup>*"
  shows "(y, y) \<notin> (edges_of adj)\<^sup>+"
proof -
  have "dfs_closed adj st" "st x = Visited"
    using visit_list_closed [OF assms(1) [unfolded search_def]] assms(2) by (simp_all add: dfs_closed_def)
  with closed_rtrancl [OF assms(3)] show ?thesis by (simp add: dfs_closed_def)
qed

lemma search_Inl: "search k adj roots = Some (Inl v) \<Longrightarrow> (v, v) \<in> (edges_of adj)\<^sup>+"
  unfolding search_def by (erule visit_list_cycle) simp

lemma search_fuel:
  assumes "set roots \<subseteq> N" "finite N" "\<And>x. x \<in> N \<Longrightarrow> set (adj x) \<subseteq> N" "card N < k"
  shows "search k adj roots \<noteq> None"
  unfolding search_def using assms by (intro visit_list_fuel) auto

section \<open>Breadth-first walk\<close>

text \<open>
  The nodes met from a queue, in order, passing only through nodes that satisfy \<open>ok\<close>. The
  adjacency is an association list, so that there are finitely many targets.
\<close>

definition assoc_adj :: "('a \<times> 'a list) list \<Rightarrow> 'a \<Rightarrow> 'a list" where
  "assoc_adj al x = (case map_of al x of None \<Rightarrow> [] | Some ys \<Rightarrow> ys)"

definition targets :: "('a \<times> 'a list) list \<Rightarrow> 'a set" where
  "targets al = (\<Union>p \<in> set al. set (snd p))"

lemma assoc_adj_targets: "set (assoc_adj al x) \<subseteq> targets al"
proof (cases "map_of al x")
  case (Some ys)
  then have "(x, ys) \<in> set al" by (rule map_of_SomeD)
  then show ?thesis using Some by (auto simp: assoc_adj_def targets_def intro!: bexI [of _ "(x, ys)"])
qed (simp add: assoc_adj_def)

lemma finite_targets [simp]: "finite (targets al)"
  by (simp add: targets_def)

function walk :: "('a \<Rightarrow> bool) \<Rightarrow> ('a \<times> 'a list) list \<Rightarrow> 'a list \<Rightarrow> 'a list \<Rightarrow> 'a list" where
  "walk ok al [] seen = []"
| "walk ok al (x # queue) seen =
     (if x \<in> set seen then walk ok al queue seen
      else if \<not> ok x then walk ok al queue (x # seen)
      else x # walk ok al (queue @ assoc_adj al x) (x # seen))"
  by pat_completeness auto
termination
proof (relation "inv_image (less_than <*lex*> less_than) (\<lambda>(ok, al, queue, seen). (card (targets al \<union> set queue - set seen), length queue))",
    goal_cases)
  case 1
  then show ?case by auto
next
  case (2 ok al x queue seen)
  then have "targets al \<union> set queue - set seen = targets al \<union> set (x # queue) - set seen" by auto
  then show ?case by simp
next
  case (3 ok al x queue seen)
  have "card (targets al \<union> set queue - set (x # seen)) < card (targets al \<union> set (x # queue) - set seen)"
    using 3(1) by (intro psubset_card_mono) auto
  then show ?case by simp
next
  case (4 ok al x queue seen)
  have "card (targets al \<union> set (queue @ assoc_adj al x) - set (x # seen)) < card (targets al \<union> set (x # queue) - set seen)"
    using 4(1) assoc_adj_targets [of al x] by (intro psubset_card_mono) auto
  then show ?case by simp
qed

definition ok_edges :: "('a \<Rightarrow> bool) \<Rightarrow> ('a \<times> 'a list) list \<Rightarrow> ('a \<times> 'a) set" where
  "ok_edges ok al = {(x, y). y \<in> set (assoc_adj al x) \<and> ok y}"

lemma walk_sound: "y \<in> set (walk ok al queue seen) \<Longrightarrow> \<exists>q \<in> set queue. ok q \<and> (q, y) \<in> (ok_edges ok al)\<^sup>*"
proof (induction ok al queue seen rule: walk.induct)
  case (2 ok al x queue seen)
  show ?case
  proof (cases "x \<in> set seen \<or> \<not> ok x")
    case True
    with 2 show ?thesis by (auto split: if_splits)
  next
    case False
    then have "y = x \<or> y \<in> set (walk ok al (queue @ assoc_adj al x) (x # seen))" using 2(4) by simp
    then show ?thesis
    proof
      assume "y \<in> set (walk ok al (queue @ assoc_adj al x) (x # seen))"
      with 2(3) False obtain q where q: "q \<in> set queue \<union> set (assoc_adj al x)" "ok q" "(q, y) \<in> (ok_edges ok al)\<^sup>*" by auto
      show ?thesis
      proof (cases "q \<in> set queue")
        case False
        then have "(x, q) \<in> ok_edges ok al" using q by (simp add: ok_edges_def)
        then have "(x, y) \<in> (ok_edges ok al)\<^sup>*" using q(3) by (rule converse_rtrancl_into_rtrancl)
        with \<open>\<not> (x \<in> set seen \<or> \<not> ok x)\<close> show ?thesis by auto
      qed (use q in auto)
    qed (use False in auto)
  qed
qed simp

lemma walk_distinct: "distinct (walk ok al queue seen) \<and> set (walk ok al queue seen) \<inter> set seen = {}"
  by (induction ok al queue seen rule: walk.induct) auto

text \<open>Everything met earlier is closed under the edges, up to the nodes still in the queue.\<close>

lemma walk_complete:
  assumes "\<And>x y. x \<in> set seen \<Longrightarrow> ok x \<Longrightarrow> (x, y) \<in> ok_edges ok al \<Longrightarrow> y \<in> set seen \<union> set queue"
    and "q \<in> set queue \<union> {x \<in> set seen. ok x}" "ok q" "(q, y) \<in> (ok_edges ok al)\<^sup>*"
  shows "y \<in> set seen \<union> set (walk ok al queue seen)"
  using assms
proof (induction ok al queue seen arbitrary: q rule: walk.induct)
  case (1 ok al seen)
  from 1(4) have "y \<in> {x \<in> set seen. ok x}"
  proof (induction rule: rtrancl_induct)
    case base
    then show ?case using 1(2,3) by simp
  next
    case (step u v)
    then show ?case using 1(1) [of u v] by (auto simp: ok_edges_def)
  qed
  then show ?case by simp
next
  case (2 ok al x queue seen)
  consider "x \<in> set seen" | "x \<notin> set seen" "\<not> ok x" | "x \<notin> set seen" "ok x" by blast
  then show ?case
  proof cases
    case 1
    have "y \<in> set seen \<union> set (walk ok al queue seen)"
      by (rule 2(1) [OF 1, of q]) (use 2(4-7) 1 in auto)
    with 1 show ?thesis by simp
  next
    case c: 2
    have "y \<in> set (x # seen) \<union> set (walk ok al queue (x # seen))"
      by (rule 2(2) [OF c, of q]) (use 2(4-7) c in auto)
    moreover have "y \<noteq> x" using 2(6,7) c(2) by (auto elim: rtranclE simp: ok_edges_def)
    ultimately show ?thesis using c by simp
  next
    case 3
    have "y \<in> set (x # seen) \<union> set (walk ok al (queue @ assoc_adj al x) (x # seen))"
      by (rule 2(3) [OF 3(1), of q]) (use 2(4-7) 3 in \<open>auto simp: ok_edges_def\<close>)
    then show ?thesis using 3 by auto
  qed
qed

lemma walk_exact:
  "set (walk ok al (assoc_adj al start) []) = {y. (start, y) \<in> (ok_edges ok al)\<^sup>+}"
proof (intro set_eqI iffI; clarify)
  fix y
  assume "y \<in> set (walk ok al (assoc_adj al start) [])"
  from walk_sound [OF this] show "(start, y) \<in> (ok_edges ok al)\<^sup>+"
    by (auto simp: ok_edges_def intro: rtrancl_into_trancl2)
next
  fix y
  assume "(start, y) \<in> (ok_edges ok al)\<^sup>+"
  then obtain q where "(start, q) \<in> ok_edges ok al" "(q, y) \<in> (ok_edges ok al)\<^sup>*" by (auto dest: tranclD)
  with walk_complete [of "[]" ok al "assoc_adj al start" q y] show "y \<in> set (walk ok al (assoc_adj al start) [])"
    by (simp add: ok_edges_def)
qed

end
