(* ===== verification/Jobdef_Graph.thy ===== *)
theory Jobdef_Graph
  imports Jobdef_Types Graph_Search "HOL-Library.Multiset" "HOL-Library.List_Lexorder" "HOL-Library.Char_ord"
begin

text \<open>
  The step graph of a job definition (\<open>computeStepAdjacency\<close>, \<open>detectCycles\<close> and
  \<open>DeriveStepSuccessors\<close> of \<open>pkg/jobdef/definition.go\<close>) and its layering
  (\<open>internal/dag/analysis.go\<close>). The adjacency map is the list of its edges, each edge once.
\<close>

section \<open>Checking the steps\<close>

fun ensureUnique_from :: "string list \<Rightarrow> string list \<Rightarrow> bool" where
  "ensureUnique_from seen [] = True"
| "ensureUnique_from seen (entry # rest) =
     (let key = TrimSpace entry
      in if key = '''' then ensureUnique_from seen rest
         else if key \<in> set seen then False
         else ensureUnique_from (key # seen) rest)"

definition ensureUnique :: "string list \<Rightarrow> string \<Rightarrow> nat list \<Rightarrow> unit checked" where
  "ensureUnique entries field pos = ensure (ensureUnique_from [] entries) (field @ '' contains duplicate entry'') pos"

definition trimCopy :: "string list \<Rightarrow> string list" where
  "trimCopy values = filter (\<lambda>v. v \<noteq> '''') (map TrimSpace values)"

definition known_engines :: "string list" where
  "known_engines = [''docker'', ''kubernetes'', ''podman'']"

definition known_rules :: "string list" where
  "known_rules = [TriggerRuleAllSuccess, TriggerRuleAllDone, TriggerRuleAllFailed, TriggerRuleOneSuccess, TriggerRuleAlways]"

definition check_step :: "nat \<Rightarrow> string list \<Rightarrow> step \<Rightarrow> (string list \<times> step) checked" where
  "check_step i names st =
     checked_bind (ensure (TrimSpace (StName st) \<noteq> '''') ''steps[].name is required'' [i]) (\<lambda>_.
     checked_bind (ensure (StName st \<notin> set names) ''duplicate step name'' [i]) (\<lambda>_.
     checked_bind (ensure (TrimSpace (StImage st) \<noteq> '''') ''steps[].image is required'' [i]) (\<lambda>_.
     checked_bind (ensure (StEngine st \<in> set known_engines) ''steps[].engine must be one of docker,kubernetes,podman'' [i]) (\<lambda>_.
     checked_bind (ensure (StType st \<in> set [''task'', ''branch'']) ''steps[].type must be one of task,branch'' [i]) (\<lambda>_.
     checked_bind (ensure (\<not> (StType st = ''branch'' \<and> StNext st = []))
       ''steps[] is a branch step and must have at least one next entry'' [i]) (\<lambda>_.
     checked_bind (ensureUnique (StNext st) ''steps[].next'' [i]) (\<lambda>_.
     checked_bind (ensureUnique (StDependsOn st) ''steps[].dependsOn'' [i]) (\<lambda>_.
     checked_bind (ensure (TrimSpace (StTriggerRule st) = '''' \<or> TrimSpace (StTriggerRule st) \<in> set known_rules)
       ''steps[].triggerRule is unknown'' [i]) (\<lambda>_.
     Inr (names @ [StName st], st))))))))))"

section \<open>Edges\<close>

type_synonym step_edges = "(string \<times> string) list"

definition add_edge_once :: "string \<times> string \<Rightarrow> step_edges \<Rightarrow> step_edges" where
  "add_edge_once e es = (if e \<in> set es then es else es @ [e])"

fun add_next :: "nat \<Rightarrow> string list \<Rightarrow> string \<Rightarrow> string list \<Rightarrow> step_edges \<Rightarrow> step_edges checked" where
  "add_next i names name [] es = Inr es"
| "add_next i names name (successor # rest) es =
     checked_bind (ensure (TrimSpace successor \<noteq> '''') ''steps[].next contains an empty entry'' [i]) (\<lambda>_.
     checked_bind (ensure (successor \<in> set names) ''steps[].next references unknown step'' [i]) (\<lambda>_.
     checked_bind (ensure (successor \<noteq> name) ''steps[].next cannot reference the same step'' [i]) (\<lambda>_.
     add_next i names name rest (add_edge_once (name, successor) es))))"

fun add_depends :: "nat \<Rightarrow> string list \<Rightarrow> string \<Rightarrow> string list \<Rightarrow> step_edges \<Rightarrow> step_edges checked" where
  "add_depends i names name [] es = Inr es"
| "add_depends i names name (dependency # rest) es =
     checked_bind (ensure (TrimSpace dependency \<noteq> '''') ''steps[].dependsOn contains an empty entry'' [i]) (\<lambda>_.
     checked_bind (ensure (dependency \<in> set names) ''steps[].dependsOn references unknown step'' [i]) (\<lambda>_.
     checked_bind (ensure (dependency \<noteq> name) ''steps[].dependsOn cannot reference the same step'' [i]) (\<lambda>_.
     add_depends i names name rest (add_edge_once (dependency, name) es))))"

fun add_step_edges :: "nat \<Rightarrow> string list \<Rightarrow> step list \<Rightarrow> step_edges \<Rightarrow> step_edges checked" where
  "add_step_edges i names [] es = Inr es"
| "add_step_edges i names (st # rest) es =
     checked_bind (add_next i names (StName st) (StNext st) es) (\<lambda>es1.
     checked_bind (add_depends i names (StName st) (StDependsOn st) es1) (\<lambda>es2.
     add_step_edges (Suc i) names rest es2))"

fun add_chain :: "step list \<Rightarrow> step_edges \<Rightarrow> step_edges" where
  "add_chain (s # t # rest) es =
     add_chain (t # rest) (if StNext s \<noteq> [] then es else add_edge_once (StName s, StName t) es)"
| "add_chain _ es = es"

definition trim_step :: "step \<Rightarrow> step" where
  "trim_step st = st\<lparr>StNext := trimCopy (StNext st), StDependsOn := trimCopy (StDependsOn st)\<rparr>"

text \<open>The steps with trimmed references, the names in order, and the edges.\<close>

definition computeStepAdjacency :: "step list \<Rightarrow> (step list \<times> string list \<times> step_edges) checked" where
  "computeStepAdjacency steps0 =
     checked_bind (check_fold check_step 0 [] steps0) (\<lambda>(names, _).
       let steps = map trim_step steps0;
           hasExplicitEdges = list_ex (\<lambda>s. StNext s \<noteq> [] \<or> StDependsOn s \<noteq> []) steps
       in checked_bind (add_step_edges 0 names steps []) (\<lambda>es.
            Inr (steps, names, if hasExplicitEdges then es else add_chain steps es)))"

definition targets_from :: "step_edges \<Rightarrow> string \<Rightarrow> string list" where
  "targets_from es name = map snd (filter (\<lambda>e. fst e = name) es)"

definition DeriveStepSuccessors :: "step list \<Rightarrow> (string \<Rightarrow> string list) checked" where
  "DeriveStepSuccessors steps =
     checked_bind (computeStepAdjacency steps) (\<lambda>(_, names, es).
       Inr (\<lambda>name. if name \<in> set names then sort (targets_from es name) else []))"

text \<open>One more than the number of steps is enough fuel for the search.\<close>

definition detectCycles :: "step_edges \<Rightarrow> string list \<Rightarrow> unit checked" where
  "detectCycles es names =
     (case search (Suc (length names)) (targets_from es) names of
        Some (Inl v) \<Rightarrow> invalid (''cycle detected involving step '' @ v) []
      | Some (Inr _) \<Rightarrow> Inr ()
      | None \<Rightarrow> invalid ''search bound exceeded'' [])"

definition EffectiveReplaySafeForStep :: "job_definition \<Rightarrow> step \<Rightarrow> bool" where
  "EffectiveReplaySafeForStep d st \<longleftrightarrow> MdReplaySafe (DfMetadata d) \<or> StReplaySafe st"

section \<open>What the edges are\<close>

lemma set_add_edge_once [simp]: "set (add_edge_once e es) = insert e (set es)"
  by (auto simp: add_edge_once_def)

lemma distinct_add_edge_once: "distinct es \<Longrightarrow> distinct (add_edge_once e es)"
  by (simp add: add_edge_once_def)

lemma add_next_Inr:
  "add_next i names name succs es = Inr es' \<Longrightarrow> set es' = set es \<union> {name} \<times> set succs \<and> set succs \<subseteq> set names - {name}
     \<and> (distinct es \<longrightarrow> distinct es')"
  by (induction i names name succs es rule: add_next.induct) (auto simp: checked_bind_Inr distinct_add_edge_once)

lemma add_depends_Inr:
  "add_depends i names name deps es = Inr es' \<Longrightarrow> set es' = set es \<union> set deps \<times> {name} \<and> set deps \<subseteq> set names - {name}
     \<and> (distinct es \<longrightarrow> distinct es')"
  by (induction i names name deps es rule: add_depends.induct) (auto simp: checked_bind_Inr distinct_add_edge_once)

definition declared_edges :: "step list \<Rightarrow> (string \<times> string) set" where
  "declared_edges steps = (\<Union>st \<in> set steps. {StName st} \<times> set (StNext st) \<union> set (StDependsOn st) \<times> {StName st})"

lemma add_step_edges_Inr:
  "add_step_edges i names steps es = Inr es' \<Longrightarrow> set es' = set es \<union> declared_edges steps
     \<and> (\<forall>st \<in> set steps. set (StNext st) \<union> set (StDependsOn st) \<subseteq> set names - {StName st}) \<and> (distinct es \<longrightarrow> distinct es')"
proof (induction i names steps es rule: add_step_edges.induct)
  case (2 i names st rest es)
  obtain es1 es2 where 1: "add_next i names (StName st) (StNext st) es = Inr es1"
    and 3: "add_depends i names (StName st) (StDependsOn st) es1 = Inr es2" and 4: "add_step_edges (Suc i) names rest es2 = Inr es'"
    using 2(2) by (auto simp: checked_bind_Inr)
  from add_next_Inr [OF 1] add_depends_Inr [OF 3] 2(1) [OF 4] show ?case by (auto simp: declared_edges_def)
qed (simp add: declared_edges_def)

lemma check_step_Inr:
  "check_step i names st = Inr (names', out) \<Longrightarrow> names' = names @ [StName st] \<and> out = st \<and> StName st \<notin> set names
     \<and> StEngine st \<in> set known_engines \<and> StType st \<in> {''task'', ''branch''} \<and> TrimSpace (StName st) \<noteq> ''''"
  by (auto simp: check_step_def checked_bind_Inr)

lemma check_fold_names:
  "check_fold check_step i names steps = Inr (names', out) \<Longrightarrow> distinct names
     \<Longrightarrow> names' = names @ map StName steps \<and> distinct names' \<and> out = steps
       \<and> (\<forall>st \<in> set steps. StEngine st \<in> set known_engines \<and> StType st \<in> {''task'', ''branch''} \<and> TrimSpace (StName st) \<noteq> '''')"
proof (induction steps arbitrary: i names names' out)
  case (Cons st steps)
  obtain names1 y out2 where 1: "check_step i names st = Inr (names1, y)"
    and 2: "check_fold check_step (Suc i) names1 steps = Inr (names', out2)" "out = y # out2"
    using Cons.prems(1) by (auto simp: checked_bind_Inr)
  from check_step_Inr [OF 1] have c: "names1 = names @ [StName st]" "y = st" "StName st \<notin> set names" by simp_all
  then have "distinct names1" using Cons.prems(2) by simp
  from Cons.IH [OF 2(1) this] check_step_Inr [OF 1] 2(2) show ?case unfolding c(1,2) by (elim conjE) simp
qed simp

lemma add_chain_edges:
  "set (add_chain steps es) = set es \<union> {(StName s, StName t) | s t. StNext s = [] \<and> (s, t) \<in> set (zip steps (tl steps))}
     \<and> (distinct es \<longrightarrow> distinct (add_chain steps es))"
proof (induction steps es rule: add_chain.induct)
  case (1 s t rest es)
  then show ?case by (auto simp: distinct_add_edge_once)
qed auto

text \<open>The graph of a definition whose steps pass the checks.\<close>

lemma computeStepAdjacency_Inr:
  assumes "computeStepAdjacency steps0 = Inr (steps, names, es)"
  shows "steps = map trim_step steps0" "names = map StName steps" "distinct names" "distinct es"
    "set es \<subseteq> set names \<times> set names" "\<And>x. (x, x) \<notin> set es"
    "set es = declared_edges steps \<union> (if list_ex (\<lambda>s. StNext s \<noteq> [] \<or> StDependsOn s \<noteq> []) steps then {} else set (zip names (tl names)))"
proof -
  obtain out es0 where f: "check_fold check_step 0 [] steps0 = Inr (names, out)"
    and a: "add_step_edges 0 names (map trim_step steps0) [] = Inr es0"
    and s: "steps = map trim_step steps0"
    and e: "es = (if list_ex (\<lambda>s. StNext s \<noteq> [] \<or> StDependsOn s \<noteq> []) steps then es0 else add_chain steps es0)"
    using assms by (auto simp: computeStepAdjacency_def checked_bind_Inr Let_def)
  show "steps = map trim_step steps0" by (rule s)
  note F = check_fold_names [OF f] and A = add_step_edges_Inr [OF a, folded s]
  show names: "names = map StName steps" and dist: "distinct names" using F by (auto simp: s trim_step_def o_def)
  show "distinct es" using A add_chain_edges [of steps es0] by (simp add: e)
  have sub: "declared_edges steps \<subseteq> set names \<times> set names" "\<And>x. (x, x) \<notin> declared_edges steps"
    using A names by (auto simp: declared_edges_def)
  have plain: "StNext st = [] \<and> StDependsOn st = []" if "\<not> list_ex (\<lambda>s. StNext s \<noteq> [] \<or> StDependsOn s \<noteq> []) steps" "st \<in> set steps" for st
    using that by (auto simp: list_ex_iff)
  have chain: "{(StName s, StName t) | s t. StNext s = [] \<and> (s, t) \<in> set (zip steps (tl steps))} = set (zip names (tl names))"
    if "\<not> list_ex (\<lambda>s. StNext s \<noteq> [] \<or> StDependsOn s \<noteq> []) steps"
  proof -
    have "zip names (tl names) = map (\<lambda>(s, t). (StName s, StName t)) (zip steps (tl steps))"
      by (simp add: names map_tl [symmetric] zip_map_map)
    then show ?thesis using plain [OF that] by (auto dest: set_zip_leftD)
  qed
  show eq: "set es = declared_edges steps \<union> (if list_ex (\<lambda>s. StNext s \<noteq> [] \<or> StDependsOn s \<noteq> []) steps then {} else set (zip names (tl names)))"
    using A add_chain_edges [of steps es0] chain by (auto simp: e)
  have "set (zip names (tl names)) \<subseteq> set names \<times> set names"
    by (cases names) (auto dest: set_zip_leftD set_zip_rightD)
  then show "set es \<subseteq> set names \<times> set names" using sub by (auto simp: eq)
  show "(x, x) \<notin> set es" for x
  proof
    assume "(x, x) \<in> set es"
    with sub(2) have "(x, x) \<in> set (zip names (tl names))" by (auto simp: eq split: if_splits)
    then obtain i where "i < length (tl names)" "names ! i = x" "tl names ! i = x" by (auto simp: set_zip)
    then show False using dist nth_eq_iff_index_eq [OF dist, of i "Suc i"] by (cases names) auto
  qed
qed

section \<open>Cycles\<close>

lemma edges_of_targets_from [simp]: "edges_of (targets_from es) = set es"
  by (force simp: edges_of_def targets_from_def)

lemma set_targets_from: "set (targets_from es x) = {y. (x, y) \<in> set es}"
  by (force simp: targets_from_def)

lemma detectCycles_cases:
  assumes "set es \<subseteq> set names \<times> set names"
  shows "detectCycles es names = Inr () \<and> acyclic (set es)
    \<or> (\<exists>v \<in> set names. detectCycles es names = invalid (''cycle detected involving step '' @ v) [] \<and> (v, v) \<in> (set es)\<^sup>+)"
proof -
  have "search (Suc (length names)) (targets_from es) names \<noteq> None"
    using assms by (intro search_fuel [where N = "set names"]) (auto simp: set_targets_from le_imp_less_Suc card_length)
  then obtain r where r: "search (Suc (length names)) (targets_from es) names = Some r" by blast
  show ?thesis
  proof (cases r)
    case (Inl v)
    from search_Inl [OF r [unfolded Inl]] have c: "(v, v) \<in> (set es)\<^sup>+" by simp
    then obtain y where "(v, y) \<in> set es" by (blast dest: tranclD)
    with assms have "v \<in> set names" by blast
    then show ?thesis using c r Inl by (auto simp: detectCycles_def)
  next
    case (Inr st)
    have "(x, x) \<notin> (set es)\<^sup>+" for x
    proof
      assume c: "(x, x) \<in> (set es)\<^sup>+"
      then obtain y where "(x, y) \<in> set es" by (blast dest: tranclD)
      with assms have "x \<in> set names" by blast
      from search_Inr [OF r [unfolded Inr] this rtrancl_refl] c show False by simp
    qed
    then show ?thesis using r Inr by (simp add: detectCycles_def acyclic_def)
  qed
qed

text \<open>
  C20. The cycle check on the graph of the steps is exact. The graph has the declared edges, and
  the chain of the steps when none is declared. The check passes exactly when this relation is
  acyclic, and otherwise the error names a step that lies on a cycle. This holds for every order
  in which the search ranges over the map of the steps and the sets of successors.
\<close>

theorem step_graph_cycle_check:
  assumes "computeStepAdjacency steps0 = Inr (steps, names, es)" "set es' = set es" "set names' = set names"
  shows "set es = declared_edges steps \<union>
           (if \<exists>s \<in> set steps. StNext s \<noteq> [] \<or> StDependsOn s \<noteq> [] then {} else set (zip names (tl names)))
    \<and> (detectCycles es' names' = Inr () \<and> acyclic (set es)
       \<or> (\<exists>v \<in> set names. detectCycles es' names' = invalid (''cycle detected involving step '' @ v) [] \<and> (v, v) \<in> (set es)\<^sup>+))"
  using computeStepAdjacency_Inr(7) [OF assms(1)]
    detectCycles_cases [of es' names', unfolded assms(2,3), OF computeStepAdjacency_Inr(5) [OF assms(1)]]
  by (simp only: list_ex_iff)

section \<open>Layers\<close>

record step_info =
  SiName :: string
  SiEngine :: string
  SiImage :: string
  SiDependsOn :: "string list"
  SiSuccessors :: "string list"
  SiDepth :: nat

record analysis =
  AnSteps :: "step_info list"
  AnExecutionOrder :: "string list list"
  AnMaxParallelism :: nat
  AnRootSteps :: "string list"
  AnLeafSteps :: "string list"

text \<open>The predecessors, filled while ranging over the map of successors in some order.\<close>

definition predecessors_in :: "string list \<Rightarrow> (string \<Rightarrow> string list) \<Rightarrow> string \<Rightarrow> string list" where
  "predecessors_in order successors =
     fold (\<lambda>from. fold (\<lambda>to preds. preds(to := preds to @ [from])) (successors from)) order (\<lambda>_. [])"

fun release_succs :: "string list \<Rightarrow> (string \<Rightarrow> int) \<Rightarrow> string list \<Rightarrow> (string \<Rightarrow> int) \<times> string list" where
  "release_succs [] inDegree queue = (inDegree, queue)"
| "release_succs (succ # rest) inDegree queue =
     (let n = inDegree succ - 1
      in release_succs rest (inDegree(succ := n)) (if n = 0 then queue @ [succ] else queue))"

fun visit_layer :: "nat \<Rightarrow> (string \<Rightarrow> string list) \<Rightarrow> string list \<Rightarrow> (string \<Rightarrow> nat) \<Rightarrow> (string \<Rightarrow> int) \<Rightarrow> string list
    \<Rightarrow> (string \<Rightarrow> nat) \<times> (string \<Rightarrow> int) \<times> string list" where
  "visit_layer d successors [] depth inDegree queue = (depth, inDegree, queue)"
| "visit_layer d successors (name # rest) depth inDegree queue =
     (let (inDegree', queue') = release_succs (successors name) inDegree queue
      in visit_layer d successors rest (depth(name := d)) inDegree' queue')"

text \<open>The loop over layers; running out of fuel is \<open>None\<close>.\<close>

fun layer_loop :: "nat \<Rightarrow> (string \<Rightarrow> string list) \<Rightarrow> string list \<Rightarrow> string list list \<Rightarrow> (string \<Rightarrow> nat) \<Rightarrow> (string \<Rightarrow> int)
    \<Rightarrow> (string list list \<times> (string \<Rightarrow> nat)) option" where
  "layer_loop k successors [] layers depth inDegree = Some (layers, depth)"
| "layer_loop 0 successors (x # xs) layers depth inDegree = None"
| "layer_loop (Suc k) successors (x # xs) layers depth inDegree =
     (let (depth', inDegree', queue) = visit_layer (length layers) successors (x # xs) depth inDegree []
      in layer_loop k successors queue (layers @ [x # xs]) depth' inDegree')"

definition Analyze :: "string list \<Rightarrow> step list \<Rightarrow> analysis option checked" where
  "Analyze order steps =
     checked_bind (DeriveStepSuccessors steps) (\<lambda>successors.
       let predecessors = predecessors_in order successors;
           names = map StName steps;
           inDegree = (\<lambda>name. int (length (predecessors name)));
           roots = filter (\<lambda>name. inDegree name = 0) names
       in Inr (case layer_loop (length steps) successors roots [] (\<lambda>_. 0) inDegree of
                 None \<Rightarrow> None
               | Some (layers, depth) \<Rightarrow> Some
                   \<lparr>AnSteps = map (\<lambda>s. \<lparr>SiName = StName s, SiEngine = StEngine s, SiImage = StImage s,
                                         SiDependsOn = predecessors (StName s), SiSuccessors = successors (StName s),
                                         SiDepth = depth (StName s)\<rparr>) steps,
                    AnExecutionOrder = layers,
                    AnMaxParallelism = fold (\<lambda>layer m. max m (length layer)) layers 0,
                    AnRootSteps = roots,
                    AnLeafSteps = filter (\<lambda>name. successors name = []) names\<rparr>))"

definition UniqueImages :: "step list \<Rightarrow> string list" where
  "UniqueImages steps = fold (\<lambda>s images. if StImage s \<in> set images then images else images @ [StImage s]) steps []"

subsection \<open>One layer\<close>

lemma release_succs_append:
  "release_succs (xs @ ys) ind q = (let (ind', q') = release_succs xs ind q in release_succs ys ind' q')"
  by (induction xs arbitrary: ind q) (simp_all add: Let_def)

lemma visit_layer_eq:
  "visit_layer d successors layer depth ind q =
     ((\<lambda>x. if x \<in> set layer then d else depth x), release_succs (concat (map successors layer)) ind q)"
proof (induction layer arbitrary: depth ind q)
  case (Cons name rest)
  obtain ind' q' where r: "release_succs (successors name) ind q = (ind', q')" by fastforce
  show ?case by (auto simp: r Cons release_succs_append)
qed simp

text \<open>
  Every occurrence in the list takes one from the in-degree, and the nodes that reach zero are
  appended, each once.
\<close>

lemma release_succs_spec:
  "\<exists>new. release_succs zs ind q = (\<lambda>y. ind y - int (count_list zs y), q @ new)
     \<and> distinct new \<and> set new = {y. 1 \<le> ind y \<and> ind y \<le> int (count_list zs y)}"
proof (induction zs arbitrary: ind q)
  case Nil
  show ?case by (intro exI [of _ "[]"]) auto
next
  case (Cons s zs)
  let ?ind = "ind(s := ind s - 1)" and ?q = "if ind s - 1 = 0 then q @ [s] else q"
  obtain new where n: "release_succs zs ?ind ?q = (\<lambda>y. ?ind y - int (count_list zs y), ?q @ new)"
    "distinct new" "set new = {y. 1 \<le> ?ind y \<and> ?ind y \<le> int (count_list zs y)}"
    using Cons.IH [of ?ind ?q] by blast
  have "(\<lambda>y. ?ind y - int (count_list zs y)) = (\<lambda>y. ind y - int (count_list (s # zs) y))" by auto
  with n(1) have r: "release_succs (s # zs) ind q = (\<lambda>y. ind y - int (count_list (s # zs) y), ?q @ new)"
    by (simp only: release_succs.simps Let_def)
  define new' where "new' = (if ind s = 1 then s # new else new)"
  have "?q @ new = q @ new'" by (simp add: new'_def)
  moreover have "distinct new'" using n(2,3) by (simp add: new'_def)
  moreover have "y \<in> set new' \<longleftrightarrow> 1 \<le> ind y \<and> ind y \<le> int (count_list (s # zs) y)" for y
    by (cases "y = s") (auto simp: new'_def n(3))
  ultimately show ?case unfolding r by blast
qed

lemma count_list_distinct: "distinct xs \<Longrightarrow> count_list xs y = (if y \<in> set xs then 1 else 0)"
  by (induction xs) auto


lemma count_list_concat_card:
  "distinct layer \<Longrightarrow> (\<And>x. distinct (f x)) \<Longrightarrow> count_list (concat (map f layer)) y = card {x \<in> set layer. y \<in> set (f x)}"
proof (induction layer)
  case (Cons a layer)
  have "{x \<in> set (a # layer). y \<in> set (f x)} = (if y \<in> set (f a) then {a} else {}) \<union> {x \<in> set layer. y \<in> set (f x)}" by auto
  then show ?case using Cons by (auto simp: count_list_distinct)
qed simp

subsection \<open>All layers\<close>

definition step_succs :: "string list \<Rightarrow> (string \<Rightarrow> string list) \<Rightarrow> bool" where
  "step_succs names succs \<longleftrightarrow> distinct names \<and> (\<forall>x. distinct (succs x)) \<and> (\<forall>x. \<forall>y \<in> set (succs x). x \<in> set names \<and> y \<in> set names)"

definition well_layered :: "('a \<Rightarrow> 'a list) \<Rightarrow> 'a list list \<Rightarrow> bool" where
  "well_layered succs layers \<longleftrightarrow>
     (\<forall>k < length layers. \<forall>y \<in> set (layers ! k). (\<forall>x. y \<in> set (succs x) \<longrightarrow> x \<in> set (concat (take k layers)))
        \<and> (0 < k \<longrightarrow> (\<exists>x \<in> set (layers ! (k - 1)). y \<in> set (succs x))))"

lemma well_layered_snoc:
  assumes "well_layered succs layers" "\<And>y x. y \<in> set layer \<Longrightarrow> y \<in> set (succs x) \<Longrightarrow> x \<in> set (concat layers)"
    "\<And>y. y \<in> set layer \<Longrightarrow> layers \<noteq> [] \<Longrightarrow> \<exists>x \<in> set (last layers). y \<in> set (succs x)"
  shows "well_layered succs (layers @ [layer])"
  unfolding well_layered_def
proof (intro allI impI ballI)
  fix k y
  assume k: "k < length (layers @ [layer])" and y: "y \<in> set ((layers @ [layer]) ! k)"
  show "(\<forall>x. y \<in> set (succs x) \<longrightarrow> x \<in> set (concat (take k (layers @ [layer]))))
     \<and> (0 < k \<longrightarrow> (\<exists>x \<in> set ((layers @ [layer]) ! (k - 1)). y \<in> set (succs x)))"
  proof (cases "k < length layers")
    case True
    then have "k - 1 < length layers" by simp
    with True y assms(1) show ?thesis by (simp add: well_layered_def nth_append)
  next
    case False
    with k have "k = length layers" by simp
    with y assms(2,3) [of y] show ?thesis by (auto simp: nth_append last_conv_nth)
  qed
qed

lemma well_layered_front:
  assumes "well_layered succs (layers @ [layer])"
  shows "well_layered succs layers"
  unfolding well_layered_def
proof (intro allI impI ballI)
  fix k y
  assume k: "k < length layers" and y: "y \<in> set (layers ! k)"
  then have "k < length (layers @ [layer])" "y \<in> set ((layers @ [layer]) ! k)" by (simp_all add: nth_append)
  from assms [unfolded well_layered_def, rule_format, OF this]
  show "(\<forall>x. y \<in> set (succs x) \<longrightarrow> x \<in> set (concat (take k layers))) \<and> (0 < k \<longrightarrow> (\<exists>x \<in> set (layers ! (k - 1)). y \<in> set (succs x)))"
    using k by (simp add: nth_append less_imp_diff_less)
qed

definition layer_inv :: "string list \<Rightarrow> (string \<Rightarrow> string list) \<Rightarrow> string list list \<Rightarrow> string list \<Rightarrow> (string \<Rightarrow> nat) \<Rightarrow> (string \<Rightarrow> int) \<Rightarrow> bool" where
  "layer_inv names succs layers queue depth ind \<longleftrightarrow>
     distinct (concat (layers @ [queue]))
   \<and> set (concat (layers @ [queue])) = {y \<in> set names. \<forall>x. y \<in> set (succs x) \<longrightarrow> x \<in> set (concat layers)}
   \<and> well_layered succs (layers @ [queue])
   \<and> (\<forall>y. ind y = int (card {x. y \<in> set (succs x) \<and> x \<notin> set (concat layers)}))
   \<and> (\<forall>k < length layers. \<forall>y \<in> set (layers ! k). depth y = k)"

lemma finite_preds: "step_succs names succs \<Longrightarrow> finite {x. y \<in> set (succs x) \<and> P x}"
  by (rule finite_subset [of _ "set names"]) (auto simp: step_succs_def)

lemma layer_inv_step:
  assumes ok: "step_succs names succs" and inv: "layer_inv names succs layers queue depth ind"
  obtains depth' ind' new where "visit_layer (length layers) succs queue depth ind [] = (depth', ind', new)"
    "layer_inv names succs (layers @ [queue]) new depth' ind'"
proof -
  let ?D = "set (concat layers)" and ?Q = "set queue"
  have dist: "distinct (concat layers)" "distinct queue" "?D \<inter> ?Q = {}"
    and ready: "?D \<union> ?Q = {y \<in> set names. \<forall>x. y \<in> set (succs x) \<longrightarrow> x \<in> ?D}"
    and wl: "well_layered succs (layers @ [queue])"
    and ind: "\<And>y. ind y = int (card {x. y \<in> set (succs x) \<and> x \<notin> ?D})"
    and depth: "\<And>k y. k < length layers \<Longrightarrow> y \<in> set (layers ! k) \<Longrightarrow> depth y = k"
    using inv by (auto simp: layer_inv_def)
  have dsuccs: "\<And>x. distinct (succs x)" using ok by (simp add: step_succs_def)
  obtain new where r: "release_succs (concat (map succs queue)) ind [] = (\<lambda>y. ind y - int (count_list (concat (map succs queue)) y), new)"
    "distinct new" "set new = {y. 1 \<le> ind y \<and> ind y \<le> int (count_list (concat (map succs queue)) y)}"
    using release_succs_spec [of "concat (map succs queue)" ind "[]"] by auto
  define ind' where "ind' = (\<lambda>y. ind y - int (count_list (concat (map succs queue)) y))"
  define depth' where "depth' = (\<lambda>x. if x \<in> ?Q then length layers else depth x)"
  have split: "card {x. y \<in> set (succs x) \<and> x \<notin> ?D} = card {x. y \<in> set (succs x) \<and> x \<notin> ?D \<union> ?Q} + card {x \<in> ?Q. y \<in> set (succs x)}" for y
  proof -
    have "{x. y \<in> set (succs x) \<and> x \<notin> ?D} = {x. y \<in> set (succs x) \<and> x \<notin> ?D \<union> ?Q} \<union> {x \<in> ?Q. y \<in> set (succs x)}" using dist(3) by auto
    then show ?thesis using card_Un_disjoint [OF finite_preds [OF ok], of "{x \<in> ?Q. y \<in> set (succs x)}" y "\<lambda>x. x \<notin> ?D \<union> ?Q"] by auto
  qed
  have count: "count_list (concat (map succs queue)) y = card {x \<in> ?Q. y \<in> set (succs x)}" for y
    by (rule count_list_concat_card [OF dist(2) dsuccs])
  have ind': "ind' y = int (card {x. y \<in> set (succs x) \<and> x \<notin> ?D \<union> ?Q})" for y
    by (simp only: ind'_def ind count split)
  have new: "y \<in> set new \<longleftrightarrow> (\<exists>x. y \<in> set (succs x) \<and> x \<notin> ?D) \<and> (\<forall>x. y \<in> set (succs x) \<longrightarrow> x \<in> ?D \<union> ?Q)" for y
  proof -
    have "y \<in> set new \<longleftrightarrow> 0 < card {x. y \<in> set (succs x) \<and> x \<notin> ?D} \<and> card {x. y \<in> set (succs x) \<and> x \<notin> ?D \<union> ?Q} = 0"
      unfolding r(3) mem_Collect_eq ind count split [of y] by linarith
    then show ?thesis unfolding card_gt_0_iff card_0_eq [OF finite_preds [OF ok]] using finite_preds [OF ok, of y "\<lambda>x. x \<notin> ?D"] by auto
  qed
  have Dnew: "set (concat (layers @ [queue])) = ?D \<union> ?Q" by simp
  have "layer_inv names succs (layers @ [queue]) new depth' ind'"
    unfolding layer_inv_def
  proof (intro conjI)
    have "set new \<inter> (?D \<union> ?Q) = {}" unfolding ready using new by blast
    then show "distinct (concat ((layers @ [queue]) @ [new]))" using dist r(2) by auto
    have "set new \<subseteq> set names" using new ok unfolding step_succs_def by blast
    then have "?D \<union> ?Q \<union> set new = {y \<in> set names. \<forall>x. y \<in> set (succs x) \<longrightarrow> x \<in> ?D \<union> ?Q}"
      using ready new by blast
    then show "set (concat ((layers @ [queue]) @ [new])) = {y \<in> set names. \<forall>x. y \<in> set (succs x) \<longrightarrow> x \<in> set (concat (layers @ [queue]))}"
      unfolding Dnew by (simp add: Un_assoc)
    show "well_layered succs ((layers @ [queue]) @ [new])"
      by (rule well_layered_snoc [OF wl]) (use new in auto)
    show "\<forall>y. ind' y = int (card {x. y \<in> set (succs x) \<and> x \<notin> set (concat (layers @ [queue]))})"
      unfolding Dnew ind' by simp
    show "\<forall>k < length (layers @ [queue]). \<forall>y \<in> set ((layers @ [queue]) ! k). depth' y = k"
    proof (intro allI impI ballI)
      fix k y
      assume k: "k < length (layers @ [queue])" and y: "y \<in> set ((layers @ [queue]) ! k)"
      show "depth' y = k"
      proof (cases "k < length layers")
        case True
        then have "y \<in> ?D" using y by (force simp: nth_append)
        then have "y \<notin> ?Q" using dist(3) by blast
        then show ?thesis using True y depth [of k y] by (simp add: depth'_def nth_append)
      next
        case False
        with k have "k = length layers" by simp
        with y show ?thesis by (simp add: depth'_def)
      qed
    qed
  qed
  with r(1) show ?thesis by (intro that [of depth' ind' new]) (simp_all add: visit_layer_eq depth'_def ind'_def)
qed

lemma layer_loop_returns:
  assumes "step_succs names succs" "layer_inv names succs layers queue depth ind" "card (set names - set (concat layers)) \<le> k"
  shows "\<exists>layers' depth' ind'. layer_loop k succs queue layers depth ind = Some (layers', depth')
    \<and> layer_inv names succs layers' [] depth' ind'"
  using assms(2,3)
proof (induction k arbitrary: queue layers depth ind)
  case 0
  then have sub: "set names \<subseteq> set (concat layers)" by simp
  have "set queue \<subseteq> set names" and disj: "set queue \<inter> set (concat layers) = {}" using 0(1) by (auto simp: layer_inv_def)
  from subset_trans [OF this(1) sub] disj have "set queue = {}" by (simp only: Int_absorb2)
  with 0(1) show ?case by auto
next
  case (Suc k)
  show ?case
  proof (cases queue)
    case Nil
    with Suc.prems(1) show ?thesis by auto
  next
    case (Cons x xs)
    have x: "x \<in> set names - set (concat layers)" using Suc.prems(1) Cons by (auto simp: layer_inv_def)
    have "set names - set (concat (layers @ [queue])) \<subset> set names - set (concat layers)" using x Cons by auto
    from psubset_card_mono [OF _ this] Suc.prems(2) have le: "card (set names - set (concat (layers @ [queue]))) \<le> k"
      by (simp only: finite_Diff finite_set simp_thms True_implies_equals)
    obtain depth' ind' new where v: "visit_layer (length layers) succs queue depth ind [] = (depth', ind', new)"
      "layer_inv names succs (layers @ [queue]) new depth' ind'" using layer_inv_step [OF assms(1) Suc.prems(1)] .
    from Suc.IH [OF v(2) le] v(1) show ?thesis by (simp add: Cons)
  qed
qed

text \<open>When the loop ends on an acyclic graph, every step has a layer.\<close>

lemma layers_cover:
  assumes ok: "step_succs names succs" and inv: "layer_inv names succs layers [] depth ind" and "acyclic (edges_of succs)"
  shows "set (concat layers) = set names"
proof -
  have "edges_of succs \<subseteq> set names \<times> set names" using ok by (auto simp: edges_of_def step_succs_def)
  then have wf: "wf (edges_of succs)" using assms(3) by (auto intro: finite_acyclic_wf finite_subset)
  have ready: "set (concat layers) = {y \<in> set names. \<forall>x. y \<in> set (succs x) \<longrightarrow> x \<in> set (concat layers)}"
    using conjunct1 [OF conjunct2 [OF inv [unfolded layer_inv_def]]] by (simp only: concat_append concat.simps append_Nil2)
  have "y \<in> set (concat layers)" if "y \<in> set names" for y
    using wf that
  proof (induction y rule: wf_induct_rule)
    case (less y)
    have "x \<in> set (concat layers)" if "y \<in> set (succs x)" for x using less.IH [of x] that ok by (auto simp: step_succs_def)
    then show ?case using less.prems ready by blast
  qed
  then show ?thesis using ready by blast
qed

lemma layer_path:
  assumes "well_layered succs layers"
  shows "k < length layers \<Longrightarrow> y \<in> set (layers ! k) \<Longrightarrow> \<exists>x. (x, y) \<in> edges_of succs ^^ k"
proof (induction k arbitrary: y)
  case (Suc k)
  from assms [unfolded well_layered_def, rule_format, OF Suc.prems]
  obtain z where "z \<in> set (layers ! k)" "(z, y) \<in> edges_of succs" by auto
  moreover from this(1) Suc.IH [of z] Suc.prems(1) obtain x where "(x, z) \<in> edges_of succs ^^ k" by auto
  ultimately show ?case by (blast intro: relpow_Suc_I)
qed auto

lemma layer_longest:
  assumes "well_layered succs layers"
  shows "(x, y) \<in> edges_of succs ^^ n \<Longrightarrow> k < length layers \<Longrightarrow> y \<in> set (layers ! k) \<Longrightarrow> n \<le> k"
proof (induction n arbitrary: y k)
  case (Suc n)
  from Suc.prems(1) obtain z where z: "(x, z) \<in> edges_of succs ^^ n" "y \<in> set (succs z)" by auto
  with assms Suc.prems(2,3) have "z \<in> set (concat (take k layers))" by (simp add: well_layered_def)
  then obtain layer where "layer \<in> set (take k layers)" "z \<in> set layer" by auto
  then obtain j where j: "j < k" "z \<in> set (layers ! j)" by (auto simp: in_set_conv_nth [of layer])
  with Suc.IH [OF z(1), of j] Suc.prems(2) show ?case by simp
qed simp

text \<open>What an analysis of a graph says.\<close>

definition analysis_correct :: "string list \<Rightarrow> step_edges \<Rightarrow> analysis \<Rightarrow> bool" where
  "analysis_correct names es a \<longleftrightarrow>
     map SiName (AnSteps a) = names
   \<and> (\<forall>s \<in> set (AnSteps a). set (SiDependsOn s) = {x. (x, SiName s) \<in> set es} \<and> set (SiSuccessors s) = {y. (SiName s, y) \<in> set es})
   \<and> mset (concat (AnExecutionOrder a)) = mset names
   \<and> (\<forall>s \<in> set (AnSteps a). SiDepth s < length (AnExecutionOrder a) \<and> SiName s \<in> set (AnExecutionOrder a ! SiDepth s))
   \<and> (\<forall>s \<in> set (AnSteps a). \<exists>x. (x, SiName s) \<in> set es ^^ SiDepth s)
   \<and> (\<forall>s \<in> set (AnSteps a). \<forall>x n. (x, SiName s) \<in> set es ^^ n \<longrightarrow> n \<le> SiDepth s)
   \<and> AnMaxParallelism a = Max (insert 0 (length ` set (AnExecutionOrder a)))
   \<and> AnRootSteps a = filter (\<lambda>y. \<forall>e \<in> set es. snd e \<noteq> y) names
   \<and> AnLeafSteps a = filter (\<lambda>x. \<forall>e \<in> set es. fst e \<noteq> x) names"

lemma fold_max: "fold (\<lambda>layer m. max m (length layer)) layers n = max n (Max (insert 0 (length ` set layers)))"
proof (induction layers arbitrary: n)
  case (Cons a layers)
  have "Max (insert 0 (insert (length a) (length ` set layers))) = max (length a) (Max (insert 0 (length ` set layers)))"
    unfolding insert_commute [of 0 "length a"] by (rule Max_insert) simp_all
  then show ?case by (simp only: fold_simps Cons list.set image_insert max.assoc)
qed simp

lemma inner_predecessors:
  "fold (\<lambda>to preds. preds(to := preds to @ [from])) zs p = (\<lambda>y. p y @ replicate (count_list zs y) from)"
  by (induction zs arbitrary: p) (auto simp: replicate_app_Cons_same)

lemma predecessors_in_eq:
  assumes "\<And>x. distinct (succs x)"
  shows "predecessors_in order succs y = filter (\<lambda>x. y \<in> set (succs x)) order"
proof -
  have "fold (\<lambda>from. fold (\<lambda>to preds. preds(to := preds to @ [from])) (succs from)) order p
      = (\<lambda>y. p y @ filter (\<lambda>x. y \<in> set (succs x)) order)" for p
    by (induction order arbitrary: p) (auto simp: inner_predecessors count_list_distinct [OF assms])
  then show ?thesis by (simp add: predecessors_in_def)
qed

lemma graph_succs:
  assumes "computeStepAdjacency steps0 = Inr (steps, names, es)"
  defines "succs \<equiv> \<lambda>name. if name \<in> set names then sort (targets_from es name) else []"
  shows "DeriveStepSuccessors steps0 = Inr succs" "step_succs names succs" "edges_of succs = set es" "map StName steps0 = names"
proof -
  note G = computeStepAdjacency_Inr [OF assms(1)]
  show "DeriveStepSuccessors steps0 = Inr succs" using assms(1) by (simp add: DeriveStepSuccessors_def succs_def)
  have "distinct (targets_from es x)" for x
    using G(4) by (auto simp: targets_from_def distinct_map inj_on_def)
  then show "step_succs names succs" using G(3,5) by (auto simp: step_succs_def succs_def set_targets_from)
  show "edges_of succs = set es" using G(5) by (auto simp: edges_of_def succs_def set_targets_from split: if_splits)
  show "map StName steps0 = names" by (simp add: G(1,2) trim_step_def)
qed

lemma layer_inv_init:
  assumes "step_succs names succs" "distinct order" "\<And>x y. y \<in> set (succs x) \<Longrightarrow> x \<in> set order"
  defines "ind \<equiv> \<lambda>name. int (length (predecessors_in order succs name))"
  shows "layer_inv names succs [] (filter (\<lambda>name. ind name = 0) names) depth ind"
proof -
  have p: "predecessors_in order succs y = filter (\<lambda>x. y \<in> set (succs x)) order" for y
    by (rule predecessors_in_eq) (use assms(1) in \<open>simp add: step_succs_def\<close>)
  have none: "ind y = 0 \<longleftrightarrow> (\<forall>x. y \<notin> set (succs x))" for y
    using assms(3) by (auto simp: ind_def p filter_empty_conv)
  have "{x. y \<in> set (succs x)} = set (predecessors_in order succs y)" for y using assms(3) by (auto simp: p)
  moreover have "distinct (predecessors_in order succs y)" for y using assms(2) by (simp add: p)
  ultimately have "ind y = int (card {x. y \<in> set (succs x)})" for y by (simp only: ind_def distinct_card)
  moreover have "well_layered succs [filter (\<lambda>name. ind name = 0) names]" by (simp add: well_layered_def none)
  moreover have "set (filter (\<lambda>name. ind name = 0) names) = {y \<in> set names. \<forall>x. y \<notin> set (succs x)}" by (auto simp: none)
  moreover have "distinct names" using assms(1) by (simp add: step_succs_def)
  ultimately show ?thesis by (simp add: layer_inv_def)
qed

text \<open>The layers the loop returns, and the depth of a step as the length of its longest path.\<close>

lemma layer_loop_layers:
  assumes ok: "step_succs names succs" and "distinct order" and ord: "{x. succs x \<noteq> []} \<subseteq> set order"
    and ac: "acyclic (edges_of succs)"
  defines "ind \<equiv> \<lambda>name. int (length (predecessors_in order succs name))"
  obtains layers depth where
    "layer_loop (length names) succs (filter (\<lambda>name. ind name = 0) names) [] (\<lambda>_. 0) ind = Some (layers, depth)"
    "mset (concat layers) = mset names"
    "\<And>y. y \<in> set names \<Longrightarrow> depth y < length layers \<and> y \<in> set (layers ! depth y)"
    "\<And>y. y \<in> set names \<Longrightarrow> \<exists>x. (x, y) \<in> edges_of succs ^^ depth y"
    "\<And>x y n. y \<in> set names \<Longrightarrow> (x, y) \<in> edges_of succs ^^ n \<Longrightarrow> n \<le> depth y"
proof -
  have "layer_inv names succs [] (filter (\<lambda>name. ind name = 0) names) (\<lambda>_. 0) ind"
    unfolding ind_def by (rule layer_inv_init [OF ok assms(2)]) (use ord in auto)
  moreover have "card (set names - set (concat [])) \<le> length names" using card_length [of names] by simp
  ultimately obtain layers depth ind'
    where l: "layer_loop (length names) succs (filter (\<lambda>name. ind name = 0) names) [] (\<lambda>_. 0) ind = Some (layers, depth)"
      and inv: "layer_inv names succs layers [] depth ind'" using layer_loop_returns [OF ok] by blast
  have cover: "set (concat layers) = set names" by (rule layers_cover [OF ok inv ac])
  have dist: "distinct (concat layers)" and wl0: "well_layered succs (layers @ [[]])"
    and depth: "\<And>k y. k < length layers \<Longrightarrow> y \<in> set (layers ! k) \<Longrightarrow> depth y = k"
    using inv by (simp_all add: layer_inv_def)
  note wl = well_layered_front [OF wl0]
  have at: "depth y < length layers \<and> y \<in> set (layers ! depth y)" if "y \<in> set names" for y
  proof -
    from that cover obtain layer where "layer \<in> set layers" "y \<in> set layer" by fastforce
    then obtain k where "k < length layers" "y \<in> set (layers ! k)" by (auto simp: in_set_conv_nth [of layer])
    with depth [of k y] show ?thesis by simp
  qed
  show ?thesis
  proof (rule that [OF l _ at])
    have "distinct names" using ok by (simp add: step_succs_def)
    then show "mset (concat layers) = mset names" using dist cover set_eq_iff_mset_eq_distinct by blast
    show "\<exists>x. (x, y) \<in> edges_of succs ^^ depth y" if "y \<in> set names" for y using layer_path [OF wl] at [OF that] by blast
    show "n \<le> depth y" if "y \<in> set names" "(x, y) \<in> edges_of succs ^^ n" for x y n
      using layer_longest [OF wl that(2)] at [OF that(1)] by blast
  qed
qed

text \<open>
  C19. Analysing a definition without cycles returns a result, whatever the iteration order of the
  successor map. The layers hold every step once. The depth of a step is its layer and is the
  length of the longest path to it. The predecessors and successors are those of the graph, the
  roots and leaves are the steps without an incoming and without an outgoing edge, and the
  reported parallelism is the size of the largest layer.
\<close>

theorem Analyze_layers:
  assumes "computeStepAdjacency steps0 = Inr (steps, names, es)" "detectCycles es names = Inr ()"
    and "distinct order" "set order = fst ` set es"
  shows "\<exists>a. Analyze order steps0 = Inr (Some a) \<and> analysis_correct names es a"
proof -
  define succs where "succs = (\<lambda>name. if name \<in> set names then sort (targets_from es name) else [])"
  note G = graph_succs [OF assms(1), folded succs_def] and g = computeStepAdjacency_Inr [OF assms(1)]
  define preds where "preds = predecessors_in order succs"
  have ac: "acyclic (edges_of succs)" using detectCycles_cases [OF g(5)] assms(2) by (auto simp: G(3) invalid_def)
  have succ: "set (succs x) = {y. (x, y) \<in> set es}" for x using G(3) by (auto simp: edges_of_def)
  have ord: "{x. succs x \<noteq> []} \<subseteq> set order" unfolding set_empty [of "succs _", symmetric] succ assms(4) by force
  have "preds y = filter (\<lambda>x. y \<in> set (succs x)) order" for y
    unfolding preds_def by (rule predecessors_in_eq) (use G(2) in \<open>simp add: step_succs_def\<close>)
  then have pred: "set (preds y) = {x. (x, y) \<in> set es}" for y using assms(4) by (force simp: succ)
  obtain layers depth where
    l: "layer_loop (length names) succs (filter (\<lambda>name. int (length (preds name)) = 0) names) [] (\<lambda>_. 0) (\<lambda>name. int (length (preds name)))
        = Some (layers, depth)" and m: "mset (concat layers) = mset names"
    and at: "\<And>y. y \<in> set names \<Longrightarrow> depth y < length layers \<and> y \<in> set (layers ! depth y)"
    and path: "\<And>y. y \<in> set names \<Longrightarrow> \<exists>x. (x, y) \<in> set es ^^ depth y"
    and longest: "\<And>x y n. y \<in> set names \<Longrightarrow> (x, y) \<in> set es ^^ n \<Longrightarrow> n \<le> depth y"
    by (rule layer_loop_layers [OF G(2) assms(3) ord ac, folded preds_def, unfolded G(3)]) (rule that; blast)
  have len: "length steps0 = length names" by (simp flip: G(4))
  have root: "int (length (preds y)) = 0 \<longleftrightarrow> (\<forall>e \<in> set es. snd e \<noteq> y)" for y
    unfolding of_nat_eq_0_iff length_0_conv set_empty [of "preds y", symmetric] pred by force
  have leaf: "succs x = [] \<longleftrightarrow> (\<forall>e \<in> set es. fst e \<noteq> x)" for x
    unfolding set_empty [of "succs x", symmetric] succ by force
  have name: "StName s \<in> set names" if "s \<in> set steps0" for s using that G(4) by auto
  define info where "info = (\<lambda>s :: step. \<lparr>SiName = StName s, SiEngine = StEngine s, SiImage = StImage s,
      SiDependsOn = preds (StName s), SiSuccessors = succs (StName s), SiDepth = depth (StName s)\<rparr>)"
  define a where "a = \<lparr>AnSteps = map info steps0, AnExecutionOrder = layers,
    AnMaxParallelism = fold (\<lambda>layer m. max m (length layer)) layers 0,
    AnRootSteps = filter (\<lambda>name. int (length (preds name)) = 0) names, AnLeafSteps = filter (\<lambda>name. succs name = []) names\<rparr>"
  have "Analyze order steps0 = Inr (Some a)"
    unfolding Analyze_def G(1) checked_bind_simps Let_def G(4) preds_def [symmetric] len l a_def info_def by simp
  moreover have "analysis_correct names es a"
    unfolding analysis_correct_def a_def analysis.simps root leaf fold_max
    by (intro conjI ballI allI impI) (auto simp: info_def G(4) o_def pred succ m name at path longest)
  ultimately show ?thesis by blast
qed

section \<open>An example\<close>

definition plain_step :: "string \<Rightarrow> string list \<Rightarrow> string list \<Rightarrow> step" where
  "plain_step name next deps =
     \<lparr>StName = name, StType = ''task'', StEngine = ''docker'', StImage = ''app'', StNext = next, StDependsOn = deps,
      StRetryDelay = 0, StRetryBackoff = False, StTriggerRule = '''', StReplaySafe = False, StVolumeMounts = [],
      StServiceAccountName = '''', StPodAnnotations = [], StAutomountServiceAccountToken = None, StKueue = None,
      StRateLimit = None, StOutputSchema = None, StInputSchema = None, StDatasets = None, StMountTargets = []\<rparr>"

definition diamond_steps :: "step list" where
  "diamond_steps = [plain_step ''a'' ['' c'', ''b''] [], plain_step ''b'' [''d''] [], plain_step ''c'' [] [], plain_step ''d'' [] [''c'']]"

definition looped_steps :: "step list" where
  "looped_steps = [plain_step ''a'' [''b''] [''c''], plain_step ''b'' [''c''] [], plain_step ''c'' [] []]"

lemma diamond_graph:
  "computeStepAdjacency diamond_steps = Inr (map trim_step diamond_steps, [''a'', ''b'', ''c'', ''d''],
     [(''a'', ''c''), (''a'', ''b''), (''b'', ''d''), (''c'', ''d'')])"
  "detectCycles [(''a'', ''c''), (''a'', ''b''), (''b'', ''d''), (''c'', ''d'')] [''a'', ''b'', ''c'', ''d''] = Inr ()"
  by code_simp+

lemma looped_graph:
  "computeStepAdjacency looped_steps = Inr (map trim_step looped_steps, [''a'', ''b'', ''c''], [(''a'', ''b''), (''c'', ''a''), (''b'', ''c'')])"
  by code_simp

theorem step_graph_cycle_check_witness:
  "detectCycles [(''a'', ''b''), (''c'', ''a''), (''b'', ''c'')] [''a'', ''b'', ''c''] = invalid ''cycle detected involving step a'' []
     \<and> set [(''a'', ''b''), (''c'', ''a''), (''b'', ''c'')] = declared_edges (map trim_step looped_steps)"
proof
  show "detectCycles [(''a'', ''b''), (''c'', ''a''), (''b'', ''c'')] [''a'', ''b'', ''c''] = invalid ''cycle detected involving step a'' []"
    by code_simp
  have "\<exists>s \<in> set (map trim_step looped_steps). StNext s \<noteq> [] \<or> StDependsOn s \<noteq> []" by code_simp
  with step_graph_cycle_check [OF looped_graph refl refl]
  show "set [(''a'', ''b''), (''c'', ''a''), (''b'', ''c'')] = declared_edges (map trim_step looped_steps)" by (simp only: if_True Un_empty_right)
qed

theorem Analyze_layers_witness:
  "\<exists>a. Analyze [''b'', ''a'', ''c''] diamond_steps = Inr (Some a)
     \<and> analysis_correct [''a'', ''b'', ''c'', ''d''] [(''a'', ''c''), (''a'', ''b''), (''b'', ''d''), (''c'', ''d'')] a"
  by (rule Analyze_layers [OF diamond_graph]) (simp, force)

end
