(* ===== verification/Local_Executor.thy ===== *)
theory Local_Executor
  imports Run_Topology Rate_Limit
begin

text \<open>
  The executor of a single process (\<open>Run\<close> of \<open>internal/job/job.go\<close> in local mode, and
  \<open>internal/job/failure_policy.go\<close>): it keeps its own copy of the graph, hands ready tasks to a
  pool of workers, and reacts to their results under one of two failure policies. The loop is a
  step relation: a step moves due tasks, dispatches the head of the queue, handles a result,
  or is the cancellation of the context.
\<close>

section \<open>The graph\<close>

definition add_local_edge :: "run_topology \<Rightarrow> uuid \<times> uuid \<Rightarrow> run_topology" where
  "add_local_edge tp = (\<lambda>(from, to).
     if from \<notin> fst ` set (Order tp) then tp
     else if to \<notin> fst ` set (Order tp) then tp
     else if to \<in> set (Adjacency tp from) then tp
     else tp\<lparr>Adjacency := (Adjacency tp)(from := Adjacency tp from @ [to]),
             Predecessors := (Predecessors tp)(to := Predecessors tp to @ [from])\<rparr>)"

definition local_rule :: "string \<Rightarrow> string" where
  "local_rule rule = (if rule = '''' then TriggerRuleAllSuccess else rule)"

definition local_topology :: "task_model list \<Rightarrow> task_edge list \<Rightarrow> run_topology" where
  "local_topology ts edges =
     (let topo0 = foldl add_task empty_topology (map (\<lambda>(i, t). (i, TMID t, local_rule (TMTriggerRule t))) (enumerate 0 ts));
          topo1 = foldl add_local_edge topo0 (map (\<lambda>e. (TEFromTaskID e, TEToTaskID e)) edges)
      in if edges = [] \<and> length ts > 1 then foldl add_local_edge topo1 (zip (map TMID ts) (tl (map TMID ts))) else topo1)"

section \<open>State\<close>

datatype exec_error =
    TaskFailed uuid
  | StoreFailed store_error
  | RuleFailed rule_error
  | LimitFailed limit_error
  | ContextDone
  | PreviouslyFailed uuid
  | NoRunnableTasks
  | Unresolved int int

text \<open>
  \<open>LxActive\<close> holds the tasks in the pool, of which the code keeps the number, and \<open>LxStarted\<close>
  is the history of all submissions.
\<close>

record local_exec =
  LxQueue :: "uuid list"
  LxInQueue :: "uuid \<Rightarrow> bool"
  LxProcessed :: "uuid \<Rightarrow> bool"
  LxOutcomes :: "uuid \<rightharpoonup> task_status"
  LxIndegree :: "uuid \<Rightarrow> int"
  LxTerminal :: int
  LxActive :: "uuid list"
  LxDeferred :: "(uuid \<times> timestamp) list"
  LxHalt :: bool
  LxErr :: "exec_error option"
  LxDb :: store_db
  LxTokens :: token_table
  LxStarted :: "uuid list"

definition is_task :: "run_topology \<Rightarrow> uuid \<Rightarrow> bool" where
  "is_task tp i \<longleftrightarrow> i \<in> fst ` set (Order tp)"

definition lx_push :: "run_topology \<Rightarrow> uuid \<Rightarrow> local_exec \<Rightarrow> local_exec" where
  "lx_push tp i s =
     (if LxProcessed s i \<or> LxInQueue s i then s
      else s\<lparr>LxQueue := sort_key (order_of tp) (LxQueue s @ [i]), LxInQueue := (LxInQueue s)(i := True)\<rparr>)"

definition lx_dec :: "uuid \<Rightarrow> local_exec \<Rightarrow> local_exec" where
  "lx_dec i s = (if LxIndegree s i > 0 then s\<lparr>LxIndegree := (LxIndegree s)(i := LxIndegree s i - 1)\<rparr> else s)"

definition lx_rule :: "run_topology \<Rightarrow> uuid \<Rightarrow> local_exec \<Rightarrow> bool" where
  "lx_rule tp i s \<longleftrightarrow> SatisfiesTriggerRule (TriggerRule tp i) (CollectPredecessorStatuses (Predecessors tp i) (LxOutcomes s))"

definition lx_finish :: "uuid \<Rightarrow> task_status \<Rightarrow> local_exec \<Rightarrow> local_exec" where
  "lx_finish i status s = s\<lparr>LxOutcomes := (LxOutcomes s)(i \<mapsto> status), LxProcessed := (LxProcessed s)(i := True),
     LxTerminal := LxTerminal s + 1\<rparr>"

definition lx_mark_skipped :: "uuid \<Rightarrow> local_exec \<Rightarrow> local_exec" where
  "lx_mark_skipped i s = (lx_finish i TaskStatusSkipped s)\<lparr>LxInQueue := (LxInQueue s)(i := False)\<rparr>"

definition lx_fail :: "exec_error \<Rightarrow> local_exec \<Rightarrow> local_exec" where
  "lx_fail e s = s\<lparr>LxErr := (case LxErr s of None \<Rightarrow> Some e | Some e' \<Rightarrow> Some e'), LxHalt := True, LxQueue := []\<rparr>"

definition lx_skip_row :: "uuid \<Rightarrow> timestamp \<Rightarrow> uuid \<Rightarrow> string \<Rightarrow> local_exec \<Rightarrow> store_error + local_exec" where
  "lx_skip_row runID now i reason s =
     (case SkipTask runID i reason now (LxDb s) of Inl e \<Rightarrow> Inl e | Inr (_, db) \<Rightarrow> Inr (s\<lparr>LxDb := db\<rparr>))"

definition rule_reason :: "run_topology \<Rightarrow> uuid \<Rightarrow> string" where
  "rule_reason tp i = ''trigger rule '' @ quoteQ (TriggerRule tp i) @ '' not satisfied''"

section \<open>Propagating a skipped task\<close>

text \<open>The adjacency map has the tasks as its keys; a missing key reads as the empty list.\<close>

definition adj_of :: "run_topology \<Rightarrow> uuid \<Rightarrow> uuid list" where
  "adj_of tp i = (if is_task tp i then Adjacency tp i else [])"

fun prop_succs :: "run_topology \<Rightarrow> uuid \<Rightarrow> timestamp \<Rightarrow> uuid list \<Rightarrow> local_exec \<Rightarrow> uuid list \<Rightarrow> uuid list
    \<Rightarrow> local_exec \<times> uuid list \<times> uuid list \<times> store_error option" where
  "prop_succs tp runID now [] s queue seen = (s, queue, seen, None)"
| "prop_succs tp runID now (v # vs) s queue seen =
     (if LxProcessed s v then prop_succs tp runID now vs s queue seen
      else if \<not> is_task tp v then prop_succs tp runID now vs s queue seen
      else
        let s1 = lx_dec v s
        in if LxIndegree s1 v \<noteq> 0 then prop_succs tp runID now vs s1 queue seen
           else if lx_rule tp v s1 then prop_succs tp runID now vs (lx_push tp v s1) queue seen
           else (case lx_skip_row runID now v (rule_reason tp v) s1 of
                   Inl e \<Rightarrow> (s1, queue, seen, Some e)
                 | Inr s2 \<Rightarrow>
                     let s3 = lx_mark_skipped v s2
                     in if v \<in> set seen then prop_succs tp runID now vs s3 queue seen
                        else prop_succs tp runID now vs s3 (queue @ [v]) (v # seen)))"

text \<open>Every task that is enqueued has just left the unprocessed tasks.\<close>

definition unprocessed :: "run_topology \<Rightarrow> local_exec \<Rightarrow> uuid set" where
  "unprocessed tp s = {i \<in> fst ` set (Order tp). \<not> LxProcessed s i}"

lemma lx_push_fields [simp]:
  "LxProcessed (lx_push tp i s) = LxProcessed s" "LxOutcomes (lx_push tp i s) = LxOutcomes s"
  "LxIndegree (lx_push tp i s) = LxIndegree s" "LxTerminal (lx_push tp i s) = LxTerminal s"
  "LxActive (lx_push tp i s) = LxActive s" "LxDeferred (lx_push tp i s) = LxDeferred s"
  "LxHalt (lx_push tp i s) = LxHalt s" "LxErr (lx_push tp i s) = LxErr s" "LxDb (lx_push tp i s) = LxDb s"
  "LxStarted (lx_push tp i s) = LxStarted s"
  by (simp_all add: lx_push_def)

lemma lx_dec_fields [simp]:
  "LxProcessed (lx_dec i s) = LxProcessed s" "LxOutcomes (lx_dec i s) = LxOutcomes s"
  "LxQueue (lx_dec i s) = LxQueue s" "LxInQueue (lx_dec i s) = LxInQueue s" "LxTerminal (lx_dec i s) = LxTerminal s"
  "LxActive (lx_dec i s) = LxActive s" "LxDeferred (lx_dec i s) = LxDeferred s"
  "LxHalt (lx_dec i s) = LxHalt s" "LxErr (lx_dec i s) = LxErr s" "LxDb (lx_dec i s) = LxDb s"
  "LxStarted (lx_dec i s) = LxStarted s"
  by (simp_all add: lx_dec_def)

lemma lx_mark_skipped_fields [simp]:
  "LxProcessed (lx_mark_skipped i s) = (LxProcessed s)(i := True)"
  "LxOutcomes (lx_mark_skipped i s) = (LxOutcomes s)(i \<mapsto> TaskStatusSkipped)"
  "LxQueue (lx_mark_skipped i s) = LxQueue s" "LxInQueue (lx_mark_skipped i s) = (LxInQueue s)(i := False)"
  "LxIndegree (lx_mark_skipped i s) = LxIndegree s" "LxTerminal (lx_mark_skipped i s) = LxTerminal s + 1"
  "LxActive (lx_mark_skipped i s) = LxActive s" "LxDeferred (lx_mark_skipped i s) = LxDeferred s"
  "LxHalt (lx_mark_skipped i s) = LxHalt s" "LxErr (lx_mark_skipped i s) = LxErr s" "LxDb (lx_mark_skipped i s) = LxDb s"
  "LxStarted (lx_mark_skipped i s) = LxStarted s"
  by (simp_all add: lx_mark_skipped_def lx_finish_def)

lemma lx_skip_row_Inr: "lx_skip_row runID now i reason s = Inr s' \<Longrightarrow> \<exists>db. s' = s\<lparr>LxDb := db\<rparr>"
  by (auto simp: lx_skip_row_def split: sum.splits)

lemma finite_unprocessed [simp]: "finite (unprocessed tp s)"
  by (simp add: unprocessed_def)

lemma card_unprocessed_mark:
  assumes "\<not> LxProcessed s v" "is_task tp v"
  shows "Suc (card (unprocessed tp (lx_mark_skipped v s))) = card (unprocessed tp s)"
proof -
  have "unprocessed tp (lx_mark_skipped v s) = unprocessed tp s - {v}" by (auto simp: unprocessed_def)
  moreover have "v \<in> unprocessed tp s" using assms by (simp add: unprocessed_def is_task_def)
  ultimately show ?thesis by (simp only: card_Suc_Diff1 finite_unprocessed)
qed

lemma prop_succs_closed:
  "LxProcessed s v \<or> \<not> is_task tp v \<Longrightarrow> prop_succs tp runID now (v # vs) s queue seen = prop_succs tp runID now vs s queue seen"
  by auto

lemma prop_succs_wait:
  "\<not> LxProcessed s v \<Longrightarrow> is_task tp v \<Longrightarrow> LxIndegree (lx_dec v s) v \<noteq> 0
     \<Longrightarrow> prop_succs tp runID now (v # vs) s queue seen = prop_succs tp runID now vs (lx_dec v s) queue seen"
  by (simp add: Let_def)

lemma prop_succs_ready:
  "\<not> LxProcessed s v \<Longrightarrow> is_task tp v \<Longrightarrow> LxIndegree (lx_dec v s) v = 0 \<Longrightarrow> lx_rule tp v (lx_dec v s)
     \<Longrightarrow> prop_succs tp runID now (v # vs) s queue seen = prop_succs tp runID now vs (lx_push tp v (lx_dec v s)) queue seen"
  by (simp add: Let_def)

lemma prop_succs_skip:
  assumes "\<not> LxProcessed s v" "is_task tp v" "LxIndegree (lx_dec v s) v = 0" "\<not> lx_rule tp v (lx_dec v s)"
  obtains e where "prop_succs tp runID now (v # vs) s queue seen = (lx_dec v s, queue, seen, Some e)"
  | db queue1 seen1 where "prop_succs tp runID now (v # vs) s queue seen
        = prop_succs tp runID now vs (lx_mark_skipped v ((lx_dec v s)\<lparr>LxDb := db\<rparr>)) queue1 seen1"
      "queue1 = queue \<and> v \<in> set seen \<and> seen1 = seen \<or> queue1 = queue @ [v] \<and> seen1 = v # seen"
proof (cases "lx_skip_row runID now v (rule_reason tp v) (lx_dec v s)")
  case (Inl e)
  with assms that(1) show ?thesis by (simp add: Let_def)
next
  case (Inr s2)
  then obtain db where "s2 = (lx_dec v s)\<lparr>LxDb := db\<rparr>" using lx_skip_row_Inr by blast
  with assms Inr that(2) show ?thesis by (cases "v \<in> set seen") (simp_all add: Let_def)
qed

text \<open>The cases of one turn of the loop over successors.\<close>

lemma prop_succs_Cons_cases:
  obtains "LxProcessed s v \<or> \<not> is_task tp v"
      "prop_succs tp runID now (v # vs) s queue seen = prop_succs tp runID now vs s queue seen"
  | "\<not> LxProcessed s v" "is_task tp v" "LxIndegree (lx_dec v s) v \<noteq> 0"
      "prop_succs tp runID now (v # vs) s queue seen = prop_succs tp runID now vs (lx_dec v s) queue seen"
  | "\<not> LxProcessed s v" "is_task tp v" "LxIndegree (lx_dec v s) v = 0" "lx_rule tp v (lx_dec v s)"
      "prop_succs tp runID now (v # vs) s queue seen = prop_succs tp runID now vs (lx_push tp v (lx_dec v s)) queue seen"
  | e where "prop_succs tp runID now (v # vs) s queue seen = (lx_dec v s, queue, seen, Some e)"
  | db queue1 seen1 where "\<not> LxProcessed s v" "is_task tp v" "LxIndegree (lx_dec v s) v = 0" "\<not> lx_rule tp v (lx_dec v s)"
      "prop_succs tp runID now (v # vs) s queue seen
        = prop_succs tp runID now vs (lx_mark_skipped v ((lx_dec v s)\<lparr>LxDb := db\<rparr>)) queue1 seen1"
      "queue1 = queue \<and> v \<in> set seen \<and> seen1 = seen \<or> queue1 = queue @ [v] \<and> seen1 = v # seen"
proof -
  consider "LxProcessed s v \<or> \<not> is_task tp v" | "\<not> LxProcessed s v" "is_task tp v" "LxIndegree (lx_dec v s) v \<noteq> 0"
    | "\<not> LxProcessed s v" "is_task tp v" "LxIndegree (lx_dec v s) v = 0" "lx_rule tp v (lx_dec v s)"
    | "\<not> LxProcessed s v" "is_task tp v" "LxIndegree (lx_dec v s) v = 0" "\<not> lx_rule tp v (lx_dec v s)" by blast
  then show ?thesis
  proof cases
    case 1
    show ?thesis by (rule that(1) [OF 1 prop_succs_closed [OF 1]])
  next
    case 2
    show ?thesis by (rule that(2) [OF 2 prop_succs_wait [OF 2]])
  next
    case 3
    show ?thesis by (rule that(3) [OF 3 prop_succs_ready [OF 3]])
  next
    case 4
    show ?thesis
      by (rule prop_succs_skip [OF 4, of runID now vs queue seen]) (rule that(4), assumption, rule that(5) [OF 4])
  qed
qed

lemma unprocessed_same [simp]:
  "unprocessed tp (lx_dec v s) = unprocessed tp s" "unprocessed tp (lx_push tp v s) = unprocessed tp s"
  "unprocessed tp (s\<lparr>LxDb := db\<rparr>) = unprocessed tp s"
  by (simp_all add: unprocessed_def)

lemma prop_succs_measure:
  "prop_succs tp runID now vs s queue seen = (s', queue', seen', err) \<Longrightarrow>
     length queue' + card (unprocessed tp s') \<le> length queue + card (unprocessed tp s)"
proof (induction vs arbitrary: s queue seen)
  case (Cons v vs)
  from Cons.prems show ?case
  proof (cases rule: prop_succs_Cons_cases [of s v tp runID now vs queue seen])
    case (5 db queue1 seen1)
    have "Suc (card (unprocessed tp (lx_mark_skipped v ((lx_dec v s)\<lparr>LxDb := db\<rparr>)))) = card (unprocessed tp s)"
      using card_unprocessed_mark [of "(lx_dec v s)\<lparr>LxDb := db\<rparr>" v tp] 5(1,2) by simp
    with Cons.IH [of "lx_mark_skipped v ((lx_dec v s)\<lparr>LxDb := db\<rparr>)" queue1 seen1] Cons.prems 5(5,6) show ?thesis by auto
  qed (use Cons.IH in \<open>fastforce+\<close>)
qed simp

function prop_loop :: "run_topology \<Rightarrow> uuid \<Rightarrow> timestamp \<Rightarrow> uuid list \<Rightarrow> local_exec \<Rightarrow> uuid list \<Rightarrow> local_exec \<times> store_error option" where
  "prop_loop tp runID now [] s seen = (s, None)"
| "prop_loop tp runID now (current # queue) s seen =
     (case prop_succs tp runID now (adj_of tp current) s queue seen of
        (s', queue', seen', Some e) \<Rightarrow> (s', Some e)
      | (s', queue', seen', None) \<Rightarrow> prop_loop tp runID now queue' s' seen')"
  by pat_completeness auto
termination
  by (relation "measure (\<lambda>(tp, runID, now, queue, s, seen). length queue + card (unprocessed tp s))")
     (auto dest!: prop_succs_measure [OF sym])

definition propagateSkipped :: "run_topology \<Rightarrow> uuid \<Rightarrow> timestamp \<Rightarrow> uuid \<Rightarrow> local_exec \<Rightarrow> local_exec \<times> store_error option" where
  "propagateSkipped tp runID now start s = prop_loop tp runID now [start] s [start]"

section \<open>Failure policy\<close>

definition skip_fn :: "run_topology \<Rightarrow> uuid \<Rightarrow> timestamp \<Rightarrow> string \<Rightarrow> uuid \<Rightarrow> local_exec \<Rightarrow> local_exec" where
  "skip_fn tp runID now reason i s =
     (let s1 = (case lx_skip_row runID now i reason s of Inl e \<Rightarrow> lx_fail (StoreFailed e) s | Inr s' \<Rightarrow> s');
          s2 = lx_mark_skipped i s1
      in if LxHalt s2 then s2
         else case propagateSkipped tp runID now i s2 of
                (s3, None) \<Rightarrow> s3
              | (s3, Some e) \<Rightarrow> lx_fail (StoreFailed e) s3)"

definition adj_targets :: "run_topology \<Rightarrow> uuid set" where
  "adj_targets tp = (\<Union>i \<in> fst ` set (Order tp). set (Adjacency tp i))"

lemma adj_of_targets: "set (adj_of tp i) \<subseteq> adj_targets tp"
  by (auto simp: adj_of_def adj_targets_def is_task_def)

lemma finite_adj_targets [simp]: "finite (adj_targets tp)"
  by (simp add: adj_targets_def)

function skipDescendantsFiltered ::
    "run_topology \<Rightarrow> uuid \<Rightarrow> timestamp \<Rightarrow> string \<Rightarrow> uuid list \<Rightarrow> uuid list \<Rightarrow> local_exec \<Rightarrow> local_exec" where
  "skipDescendantsFiltered tp runID now reason [] seen s = s"
| "skipDescendantsFiltered tp runID now reason (i # queue) seen s =
     (if i \<in> set seen then skipDescendantsFiltered tp runID now reason queue seen s
      else if LxProcessed s i \<or> LxInQueue s i then skipDescendantsFiltered tp runID now reason queue (i # seen) s
      else if isTolerantRule (TriggerRule tp i) then skipDescendantsFiltered tp runID now reason queue (i # seen) s
      else skipDescendantsFiltered tp runID now reason (queue @ adj_of tp i) (i # seen) (skip_fn tp runID now reason i s))"
  by pat_completeness auto
termination
proof (relation "inv_image (less_than <*lex*> less_than)
    (\<lambda>(tp, runID, now, reason, queue, seen, s). (card (adj_targets tp \<union> set queue - set seen), length queue))", goal_cases)
  case 1
  then show ?case by auto
next
  case (2 tp runID now reason i queue seen s)
  then have "adj_targets tp \<union> set (i # queue) - set seen = adj_targets tp \<union> set queue - set seen" by auto
  then show ?case by simp
next
  case (3 tp runID now reason i queue seen s)
  have "card (adj_targets tp \<union> set queue - set (i # seen)) < card (adj_targets tp \<union> set (i # queue) - set seen)"
    using 3(1) by (intro psubset_card_mono) auto
  then show ?case by simp
next
  case (4 tp runID now reason i queue seen s)
  have "card (adj_targets tp \<union> set queue - set (i # seen)) < card (adj_targets tp \<union> set (i # queue) - set seen)"
    using 4(1) by (intro psubset_card_mono) auto
  then show ?case by simp
next
  case (5 tp runID now reason i queue seen s)
  have "card (adj_targets tp \<union> set (queue @ adj_of tp i) - set (i # seen)) < card (adj_targets tp \<union> set (i # queue) - set seen)"
    using 5(1) adj_of_targets [of tp i] by (intro psubset_card_mono) auto
  then show ?case by simp
qed

section \<open>Results\<close>

text \<open>One released successor; the flag says that the loop over the successors is left.\<close>

definition release_one :: "run_topology \<Rightarrow> uuid \<Rightarrow> timestamp \<Rightarrow> uuid \<Rightarrow> local_exec \<Rightarrow> local_exec \<times> bool" where
  "release_one tp runID now v s =
     (let s1 = lx_dec v s
      in if LxIndegree s1 v \<noteq> 0 then (s1, False)
         else if lx_rule tp v s1 then (lx_push tp v s1, False)
         else (case lx_skip_row runID now v (rule_reason tp v) s1 of
                 Inl e \<Rightarrow> (lx_fail (StoreFailed e) s1, True)
               | Inr s2 \<Rightarrow>
                   (case propagateSkipped tp runID now v (lx_mark_skipped v s2) of
                      (s3, None) \<Rightarrow> (s3, False)
                    | (s3, Some e) \<Rightarrow> (lx_fail (StoreFailed e) s3, True))))"

fun after_failure :: "run_topology \<Rightarrow> uuid \<Rightarrow> timestamp \<Rightarrow> uuid list \<Rightarrow> local_exec \<Rightarrow> local_exec" where
  "after_failure tp runID now [] s = s"
| "after_failure tp runID now (v # vs) s =
     (if LxProcessed s v then after_failure tp runID now vs s
      else if \<not> is_task tp v then after_failure tp runID now vs s
      else case release_one tp runID now v s of
             (s', True) \<Rightarrow> s'
           | (s', False) \<Rightarrow> after_failure tp runID now vs s')"

fun after_success :: "run_topology \<Rightarrow> uuid \<Rightarrow> timestamp \<Rightarrow> uuid list \<Rightarrow> uuid list \<Rightarrow> local_exec \<Rightarrow> local_exec" where
  "after_success tp runID now skipped [] s = s"
| "after_success tp runID now skipped (v # vs) s =
     (if \<not> is_task tp v then after_success tp runID now skipped vs s
      else if v \<in> set skipped then after_success tp runID now skipped vs s
      else case release_one tp runID now v s of
             (s', True) \<Rightarrow> s'
           | (s', False) \<Rightarrow> after_success tp runID now skipped vs s')"

text \<open>The tasks the store reports as skipped.\<close>

fun take_skipped :: "run_topology \<Rightarrow> uuid \<Rightarrow> timestamp \<Rightarrow> uuid list \<Rightarrow> local_exec \<Rightarrow> local_exec" where
  "take_skipped tp runID now [] s = s"
| "take_skipped tp runID now (v # vs) s =
     (if LxProcessed s v then take_skipped tp runID now vs s
      else case propagateSkipped tp runID now v (lx_mark_skipped v s) of
             (s', None) \<Rightarrow> take_skipped tp runID now vs s'
           | (s', Some e) \<Rightarrow> lx_fail (StoreFailed e) s')"

definition failed_reason :: "(uuid \<Rightarrow> string) \<Rightarrow> uuid \<Rightarrow> string" where
  "failed_reason ustr i = ''skipped due to failed dependency task '' @ ustr i"

definition handle_failure :: "(uuid \<Rightarrow> string) \<Rightarrow> run_topology \<Rightarrow> uuid \<Rightarrow> bool \<Rightarrow> timestamp \<Rightarrow> uuid \<Rightarrow> local_exec \<Rightarrow> local_exec" where
  "handle_failure ustr tp runID continueOnFailure now i s0 =
     (let s = (lx_finish i TaskStatusFailed s0)\<lparr>LxErr := (case LxErr s0 of None \<Rightarrow> Some (TaskFailed i) | Some e \<Rightarrow> Some e)\<rparr>
      in if \<not> continueOnFailure then s\<lparr>LxHalt := True, LxQueue := []\<rparr>
         else let s1 = skipDescendantsFiltered tp runID now (failed_reason ustr i) (adj_of tp i) [] s
              in if LxHalt s1 then s1 else after_failure tp runID now (adj_of tp i) s1)"

definition handle_success :: "run_topology \<Rightarrow> uuid \<Rightarrow> timestamp \<Rightarrow> uuid \<Rightarrow> uuid list \<Rightarrow> local_exec \<Rightarrow> local_exec" where
  "handle_success tp runID now i skipped s0 =
     (let s1 = take_skipped tp runID now skipped (lx_finish i TaskStatusSucceeded s0)
      in if LxHalt s1 then s1 else after_success tp runID now skipped (adj_of tp i) s1)"

definition handle_result ::
    "(uuid \<Rightarrow> string) \<Rightarrow> run_topology \<Rightarrow> uuid \<Rightarrow> bool \<Rightarrow> timestamp \<Rightarrow> uuid \<Rightarrow> bool \<Rightarrow> uuid list \<Rightarrow> local_exec \<Rightarrow> local_exec" where
  "handle_result ustr tp runID continueOnFailure now i failed skipped s0 =
     (let s = s0\<lparr>LxActive := remove1 i (LxActive s0)\<rparr>
      in if LxProcessed s i then s
         else if failed then handle_failure ustr tp runID continueOnFailure now i s
         else handle_success tp runID now i skipped s)"

section \<open>Dispatch\<close>

text \<open>The rate limit of a task: granted, delayed until a time, or an error.\<close>

datatype rate_answer = Granted | Delayed timestamp | RateError exec_error

definition acquireTaskRateLimit :: "uuid \<Rightarrow> timestamp \<Rightarrow> uuid \<Rightarrow> local_exec \<Rightarrow> local_exec \<times> rate_answer" where
  "acquireTaskRateLimit runID now taskID s =
     (case RuleForTask (LxDb s) runID taskID of
        Inl e \<Rightarrow> (s, RateError (RuleFailed e))
      | Inr None \<Rightarrow> (s, Granted)
      | Inr (Some rule) \<Rightarrow>
          (case Acquire (RuleResource rule) (RuleUnits rule) (RuleLimit rule) (RuleWindow rule) now (LxTokens s) of
             (tokens, Inl e) \<Rightarrow> (s\<lparr>LxTokens := tokens\<rparr>, RateError (LimitFailed e))
           | (tokens, Inr True) \<Rightarrow> (s\<lparr>LxTokens := tokens\<rparr>, Granted)
           | (tokens, Inr False) \<Rightarrow>
               let retryAfter = now + RetryAfter now (RuleWindow rule)
               in (case RateLimitTask runID taskID (if retryAfter = 0 then None else Some retryAfter) now (LxDb s) of
                     Inl e \<Rightarrow> (s\<lparr>LxTokens := tokens\<rparr>, RateError (StoreFailed e))
                   | Inr (_, db) \<Rightarrow> (s\<lparr>LxTokens := tokens, LxDb := db\<rparr>, Delayed retryAfter))))"

text \<open>Submission to the pool fails when the context is done; the flag says so.\<close>

definition lx_dispatch :: "uuid \<Rightarrow> timestamp \<Rightarrow> bool \<Rightarrow> uuid \<Rightarrow> local_exec \<Rightarrow> local_exec" where
  "lx_dispatch runID now ctxDone taskID s0 =
     (case acquireTaskRateLimit runID now taskID s0 of
        (s, RateError e) \<Rightarrow> lx_fail e s
      | (s, Delayed retryAfter) \<Rightarrow> s\<lparr>LxDeferred := AList.update taskID retryAfter (LxDeferred s)\<rparr>
      | (s, Granted) \<Rightarrow>
          if ctxDone then lx_fail ContextDone s
          else s\<lparr>LxActive := LxActive s @ [taskID], LxStarted := LxStarted s @ [taskID]\<rparr>)"

definition dispatch_head :: "uuid \<Rightarrow> timestamp \<Rightarrow> bool \<Rightarrow> local_exec \<Rightarrow> local_exec" where
  "dispatch_head runID now ctxDone s =
     (case LxQueue s of
        [] \<Rightarrow> s
      | taskID # rest \<Rightarrow>
          let s1 = s\<lparr>LxQueue := rest, LxInQueue := (LxInQueue s)(taskID := False)\<rparr>
          in if LxProcessed s1 taskID then s1 else lx_dispatch runID now ctxDone taskID s1)"

definition moveDueDeferred :: "run_topology \<Rightarrow> timestamp \<Rightarrow> local_exec \<Rightarrow> local_exec" where
  "moveDueDeferred tp now s =
     foldl (\<lambda>s (i, _). lx_push tp i s)
       (s\<lparr>LxDeferred := filter (\<lambda>(_, retryAfter). retryAfter > now) (LxDeferred s)\<rparr>)
       (filter (\<lambda>(_, retryAfter). \<not> retryAfter > now) (LxDeferred s))"

section \<open>Start and loop\<close>

fun load_tasks :: "task_run list \<Rightarrow> local_exec \<Rightarrow> exec_error + local_exec" where
  "load_tasks [] s = Inr s"
| "load_tasks (r # rows) s0 =
     (let s = s0\<lparr>LxIndegree := (LxIndegree s0)(TRTaskID r := TROutstandingPredecessors r)\<rparr>
      in if TRStatus r \<in> set [TaskStatusSucceeded, TaskStatusCached] then load_tasks rows (lx_finish (TRTaskID r) TaskStatusSucceeded s)
         else if TRStatus r = TaskStatusSkipped then load_tasks rows (lx_finish (TRTaskID r) TaskStatusSkipped s)
         else if TRStatus r = TaskStatusFailed then Inl (PreviouslyFailed (TRTaskID r))
         else load_tasks rows s)"

definition empty_exec :: "run_topology \<Rightarrow> store_db \<Rightarrow> token_table \<Rightarrow> local_exec" where
  "empty_exec tp db tokens =
     \<lparr>LxQueue = [], LxInQueue = (\<lambda>_. False), LxProcessed = (\<lambda>_. False), LxOutcomes = (\<lambda>_. None),
      LxIndegree = (\<lambda>i. int (length (Predecessors tp i))), LxTerminal = 0, LxActive = [], LxDeferred = [],
      LxHalt = False, LxErr = None, LxDb = db, LxTokens = tokens, LxStarted = []\<rparr>"

definition start_exec :: "run_topology \<Rightarrow> task_run list \<Rightarrow> store_db \<Rightarrow> token_table \<Rightarrow> exec_error + local_exec" where
  "start_exec tp rows db tokens =
     (case load_tasks rows (empty_exec tp db tokens) of
        Inl e \<Rightarrow> Inl e
      | Inr s \<Rightarrow>
          let s1 = foldl (\<lambda>s r. if LxProcessed s (TRTaskID r) then s
                                else if LxIndegree s (TRTaskID r) = 0 then lx_push tp (TRTaskID r) s else s) s rows
          in if LxQueue s1 = [] \<and> LxTerminal s1 < int (length (Order tp)) then Inl NoRunnableTasks else Inr s1)"

text \<open>The condition under which the loop goes on.\<close>

definition loop_goes_on :: "local_exec \<Rightarrow> bool" where
  "loop_goes_on s \<longleftrightarrow> \<not> LxHalt s \<and> (LxQueue s \<noteq> [] \<or> LxDeferred s \<noteq> []) \<or> LxActive s \<noteq> []"

text \<open>
  The steps of the loop. Other writers of the database and of the rate-limit tokens, the workers
  among them, act at any time.
\<close>

inductive exec_step ::
    "(uuid \<Rightarrow> string) \<Rightarrow> run_topology \<Rightarrow> uuid \<Rightarrow> nat \<Rightarrow> bool \<Rightarrow> (local_exec \<Rightarrow> uuid \<Rightarrow> bool \<Rightarrow> uuid list \<Rightarrow> bool)
       \<Rightarrow> local_exec \<Rightarrow> local_exec \<Rightarrow> bool" for ustr tp runID maxParallel continueOnFailure results where
  move: "\<not> LxHalt s \<Longrightarrow> exec_step ustr tp runID maxParallel continueOnFailure results s (moveDueDeferred tp now s)"
| dispatch: "\<not> LxHalt s \<Longrightarrow> length (LxActive s) < maxParallel \<Longrightarrow> LxQueue s \<noteq> []
     \<Longrightarrow> exec_step ustr tp runID maxParallel continueOnFailure results s (dispatch_head runID now ctxDone s)"
| result: "i \<in> set (LxActive s) \<Longrightarrow> results s i failed skipped
     \<Longrightarrow> exec_step ustr tp runID maxParallel continueOnFailure results s
           (handle_result ustr tp runID continueOnFailure now i failed skipped s)"
| cancelled: "exec_step ustr tp runID maxParallel continueOnFailure results s (s\<lparr>LxErr := Some ContextDone, LxHalt := True\<rparr>)"
| database: "exec_step ustr tp runID maxParallel continueOnFailure results s (s\<lparr>LxDb := db, LxTokens := tokens\<rparr>)"

text \<open>What the run returns when the loop has ended.\<close>

definition run_result :: "run_topology \<Rightarrow> local_exec \<Rightarrow> exec_error option" where
  "run_result tp s =
     (if LxTerminal s \<noteq> int (length (Order tp))
      then (case LxErr s of Some e \<Rightarrow> Some e | None \<Rightarrow> Some (Unresolved (LxTerminal s) (int (length (Order tp)))))
      else LxErr s)"

section \<open>Continuing after a failure\<close>

text \<open>
  Task 1 fails; 2 follows 1; 4 follows 2 and 3; 6 follows 4 and 5 and runs when both are done.
\<close>

definition early_graph :: run_topology where
  "early_graph = local_topology
     (map (\<lambda>t. sample_task 5 t ''step'' ''task'') [1, 2, 3, 4, 5] @ [(sample_task 5 6 ''last'' ''task'')\<lparr>TMTriggerRule := ''all_done''\<rparr>])
     (map (\<lambda>(u, v). \<lparr>TEJobID = 5, TEFromTaskID = u, TEToTaskID = v\<rparr>) [(1, 2), (2, 4), (3, 4), (4, 6), (5, 6)])"

definition early_rows :: "task_run list" where
  "early_rows = map (\<lambda>(t, n). (sample_row 10 t TaskStatusPending)\<lparr>TROutstandingPredecessors := n\<rparr>)
     [(1, 0), (2, 1), (3, 0), (4, 2), (5, 0), (6, 2)]"

definition early_start :: local_exec where
  "early_start = projr (start_exec early_graph early_rows (sample_db [sample_run 10 5] early_rows) [])"

definition early_dispatch :: "local_exec \<Rightarrow> local_exec" where
  "early_dispatch s = dispatch_head 10 0 False s"

definition early_result :: "uuid \<Rightarrow> bool \<Rightarrow> local_exec \<Rightarrow> local_exec" where
  "early_result i failed s = handle_result (\<lambda>_. ''t'') early_graph 10 True 0 i failed [] s"

definition early_state :: local_exec where
  "early_state = early_dispatch (early_result 3 False (early_result 1 True (early_dispatch (early_dispatch (early_dispatch early_start)))))"

definition twice_state :: local_exec where
  "twice_state = early_dispatch (early_result 5 False early_state)"

definition early_results :: "local_exec \<Rightarrow> uuid \<Rightarrow> bool \<Rightarrow> uuid list \<Rightarrow> bool" where
  "early_results s i failed skipped \<longleftrightarrow> failed = (i = 1) \<and> skipped = []"

definition early_step :: "local_exec \<Rightarrow> local_exec \<Rightarrow> bool" where
  "early_step = exec_step (\<lambda>_. ''t'') early_graph 10 4 True early_results"

lemma early_dispatches:
  "reachable_from early_step s0 s \<Longrightarrow> \<not> LxHalt s \<Longrightarrow> length (LxActive s) < 4 \<Longrightarrow> LxQueue s \<noteq> []
     \<Longrightarrow> reachable_from early_step s0 (early_dispatch s)"
  unfolding early_step_def early_dispatch_def by (erule reachable_step) (rule exec_step.dispatch)

lemma early_reports:
  "reachable_from early_step s0 s \<Longrightarrow> i \<in> set (LxActive s) \<Longrightarrow> failed = (i = 1)
     \<Longrightarrow> reachable_from early_step s0 (early_result i failed s)"
  unfolding early_step_def early_result_def by (erule reachable_step) (rule exec_step.result; simp add: early_results_def)

lemma early_reachable: "reachable_from early_step early_start early_state"
  unfolding early_state_def
  by (intro early_dispatches early_reports reachable_init) code_simp+

lemma twice_reachable: "reachable_from early_step early_state twice_state"
  unfolding twice_state_def
  by (intro early_dispatches early_reports reachable_init) code_simp+

text \<open>
  C30. Under the policy to continue after failures, the executor starts a task before its
  predecessor has finished, and starts it again afterwards. A task skipped because of a failed
  ancestor is released once more by its other predecessor, since the loop after a success does
  not ask whether a successor is already processed.
\<close>

theorem continue_starts_early:
  "start_exec early_graph early_rows (sample_db [sample_run 10 5] early_rows) [] = Inr early_start
   \<and> reachable_from (exec_step (\<lambda>_. ''t'') early_graph 10 4 True early_results) early_start early_state
   \<and> reachable_from (exec_step (\<lambda>_. ''t'') early_graph 10 4 True early_results) early_state twice_state
   \<and> 5 \<in> set (Predecessors early_graph 6) \<and> 6 \<in> set (LxActive early_state) \<and> \<not> LxProcessed early_state 5
   \<and> count_list (LxStarted twice_state) 6 = 2"
proof -
  have "start_exec early_graph early_rows (sample_db [sample_run 10 5] early_rows) [] = Inr early_start"
    unfolding early_start_def by (rule sum.collapse(2) [symmetric]) code_simp
  moreover have "5 \<in> set (Predecessors early_graph 6) \<and> 6 \<in> set (LxActive early_state) \<and> \<not> LxProcessed early_state 5
      \<and> count_list (LxStarted twice_state) 6 = 2"
    by code_simp
  ultimately show ?thesis using early_reachable twice_reachable unfolding early_step_def by blast
qed

end
