(* ===== verification/Spec2Isabelle.thy ===== *)
theory Spec2Isabelle
  imports Owner_Takeover Run_Queue Dispatch_Agreement Jobdef_Graph Local_Executor
begin

text \<open>
  Caesium is a distributed scheduler for jobs that are graphs of containers. A job is declared in
  a manifest, which is validated and imported into a database. A run of the job has one task per
  step. In a cluster every run has an owner node: the owner holds a lease on the run, keeps the
  state of the run in memory, pushes ready tasks to the nodes, receives their completions, writes
  the rows of the tasks and now and then a checkpoint. When the owner dies, another node takes
  the expired lease over and rebuilds the state from the last checkpoint and the rows. This
  library models the part of the program that decides which task runs when, on which node and
  under which owner, and proves it correct.

  \<^bold>\<open>Conventions.\<close> A struct is a record whose fields keep their names behind a short prefix, an
  error is a value of a sum type, and a method is a function from the state to the new state. A
  transaction is a function on the database that returns an error or a value, and the database
  of a failed transaction is the old one. A UUID is a number, a time or a duration is an integer
  of nanoseconds, and counters are integers unless their width matters: the rotation of the
  dispatch loop is a 64-bit word. A Go map that is only looked up is a function; a map that is
  ranged over is an association list in some order, and the theorems hold for every order.
  Readings of the clock, fresh UUIDs, digests, the configuration and the answers of the network
  are arguments.

  \<^bold>\<open>Statuses and graphs.\<close>
  \<^item> \<open>Task_Status\<close>: the statuses, both copies of the trigger rules, the priorities
    (\<open>internal/run/store.go\<close>, \<open>trigger_rule.go\<close>, \<open>priority.go\<close>). The copies agree, and a
    priority's label parses back to it.
  \<^item> \<open>Run_Topology\<close>: the graph of a run, from the catalog or from replay descriptors, and branch
    decisions (\<open>owner_topology.go\<close>). Every graph that loads is well-formed, and a branch decision
    excludes exactly the successors that it does not name.
  \<^item> \<open>Graph_Search\<close>, \<open>Jobdef_Types\<close>, \<open>Jobdef_Graph\<close>: the data of a manifest, the step graph of
    a job definition, its cycle check and its layers (\<open>pkg/jobdef/definition.go\<close>,
    \<open>internal/dag/analysis.go\<close>). The cycle check is exact, and the depth of a step is the length
    of its longest path.

  \<^bold>\<open>The owner's engine.\<close>
  \<^item> \<open>Run_State\<close>: the state machine of a run (\<open>owner_state.go\<close>), every operation of it.
  \<^item> \<open>Run_State_Invariant\<close>, \<open>Run_State_Ops\<close>: the invariant that ties the counters, the ready
    queue and the statuses together, and its preservation by every operation.
  \<^item> \<open>Run_State_Progress\<close>: the engine as a step relation. It never deadlocks on an acyclic graph,
    it completes, every status is justified, and the outcome does not depend on the schedule.
  \<^item> \<open>Run_Recovery\<close>: snapshots, checkpoints and the replay of rows (\<open>recovery.go\<close>,
    \<open>checkpoint_store.go\<close>, \<open>checkpoint_writer.go\<close>). A snapshot is a JSON value with the members
    that the struct tags name, and restores to the state it was taken of.

  \<^bold>\<open>The database.\<close>
  \<^item> \<open>Store_DB\<close>: the tables, and the SQL statements as functions on lists of rows
    (\<open>internal/models\<close>).
  \<^item> \<open>Task_Store\<close>, \<open>Run_Store\<close>: the operations on tasks and on runs (\<open>internal/run/store.go\<close>).
    Terminal rows are final, claims are exclusive, and only manual retries, which ask for no slot,
    take a job over its limit.
  \<^item> \<open>Run_Lease\<close>: leases (\<open>lease.go\<close>). A run has one owner at a time.
  \<^item> \<open>Run_Queue\<close>: the dequeuer (\<open>internal/runqueue/dequeuer.go\<close>).

  \<^bold>\<open>The cluster.\<close>
  \<^item> \<open>Owner_Manager\<close>: the engine with the rows and checkpoints it writes (\<open>owner_manager.go\<close>).
  \<^item> \<open>Owner_Takeover\<close>: crashes and takeovers. The refinement theorem says that the engine
    rebuilt after a crash is the engine that was lost, for histories in which every completion
    was durably written once. Two theorems show what a failed write and a repeated report do.
  \<^item> \<open>Dispatch\<close>, \<open>Dispatch_Loop\<close>: the endpoints between the nodes and the loop that pushes tasks
    (\<open>internal/dispatch/dispatch.go\<close>, \<open>loop.go\<close>). A pushed task is accepted or given back, unless the
    database fails the rollback of its claim.
  \<^item> \<open>Dispatch_Agreement\<close>: the loop composed with the handlers of its peers. What the owner holds
    as running is backed by rows that the named workers hold.
  \<^item> \<open>Go_Duration\<close>, \<open>Rate_Limit\<close>: durations of the standard library and the rate limiter
    (\<open>internal/ratelimit\<close>).

  \<^bold>\<open>One process.\<close>
  \<^item> \<open>Local_Executor\<close>: the executor that runs a job without a cluster (\<open>Run\<close> of
    \<open>internal/job/job.go\<close>, \<open>failure_policy.go\<close>), as a step relation. Under the policy to continue
    after failures it can start a task too early.

  \<^bold>\<open>Interfaces.\<close> \<open>step_machine\<close> (a start, a step relation and an invariant) is interpreted on the
  engine, the leases, the task and run operations, the rate limiter, the owner and the dispatch
  loop. \<open>tx_order\<close> and \<open>row_relation\<close> with its extension \<open>decrement_relation\<close> carry a relation
  between databases through transactions and cascades. \<open>checkpoint_log\<close> is what recovery needs
  of the checkpoint table.

  \<^bold>\<open>Bounds and fuel.\<close> The loops over ready lists, rows, gaps, queues, skip cascades and duration
  components are functions with termination proofs. The depth-first search has one unit of fuel
  more than there are steps, and the layering one unit per step; both are proved to return.
  Twenty digits are enough to print a 64-bit number.

  \<^bold>\<open>Not modelled.\<close> Goroutines and locks: the operations that a lock serializes are steps, and the
  posts of a tick run one after the other. The retry of a busy database, which reruns a
  transaction that was rolled back. Payloads of events, logs, output and provenance columns of
  the rows. The text of YAML and JSON: a checkpoint is a JSON value, and the body of a request is
  the decoded request. The container engines, the HTTP servers and clients,
  authentication against identity providers, notifications, lineage transport and the user
  interfaces, which are input and output around third-party code.
\<close>

end
